(* ===== verification/Prelude.thy ===== *)
theory Prelude
  imports Complex_Main "HOL-Library.Word"
begin

text \<open>
  Shared vocabulary of the development: Python byte strings and character strings, the
  state-and-exception monad in which every effectful function of the repository is written,
  its Hoare triples, and generic lemmas on lists and maps.

  A Python \<open>bytes\<close> value is a list of 8-bit words. A Python \<open>str\<close> is the list of its
  Unicode code points, so that \<open>len\<close>, slicing and UTF-8 encoding mean what they mean in
  Python; \<open>ustr\<close> turns an Isabelle (ASCII) literal into one.
\<close>

named_theorems io_simps "equations of the monad's operations"
named_theorems wp "Hoare rules of the monad's operations"

type_synonym byte = "8 word"
type_synonym bytes = "byte list"
type_synonym pystr = "nat list"

text \<open>A byte from a number below 256; opaque to the simplifier, read back by \<open>unat_byte_of\<close>.\<close>

definition byte_of :: "nat \<Rightarrow> byte" where
  "byte_of n = of_nat n"

lemma unat_byte_of [simp]: "n < 256 \<Longrightarrow> unat (byte_of n) = n"
  by (simp add: byte_of_def unat_of_nat)

lemma byte_of_unat [simp]: "byte_of (unat b) = b"
  by (simp add: byte_of_def)

lemma unat_byte_less [simp]: "unat (b :: byte) < 256"
  by (rule order.strict_trans2 [OF unsigned_less]) simp

definition ustr :: "string \<Rightarrow> pystr" where
  "ustr s = map of_char s"

lemma ustr_Nil [simp]: "ustr [] = []"
  by (simp add: ustr_def)

lemma ustr_Cons [simp]: "ustr (c # s) = of_char c # ustr s"
  by (simp add: ustr_def)

lemma ustr_append: "ustr (s @ t) = ustr s @ ustr t"
  by (simp add: ustr_def)

lemma length_ustr: "length (ustr s) = length s"
  by (simp add: ustr_def)

section \<open>The monad\<close>

text \<open>
  A computation takes the state and either raises an exception or returns a value; the state
  changes made before an exception stay, as they do in Python.
\<close>

type_synonym ('s, 'e, 'a) io = "'s \<Rightarrow> ('e + 'a) \<times> 's"

definition ret :: "'a \<Rightarrow> ('s, 'e, 'a) io" where
  "ret x = (\<lambda>s. (Inr x, s))"

definition raise :: "'e \<Rightarrow> ('s, 'e, 'a) io" where
  "raise e = (\<lambda>s. (Inl e, s))"

definition bnd :: "('s, 'e, 'a) io \<Rightarrow> ('a \<Rightarrow> ('s, 'e, 'b) io) \<Rightarrow> ('s, 'e, 'b) io" where
  "bnd m f = (\<lambda>s. case m s of (Inl e, t) \<Rightarrow> (Inl e, t) | (Inr x, t) \<Rightarrow> f x t)"

abbreviation seq :: "('s, 'e, 'a) io \<Rightarrow> ('s, 'e, 'b) io \<Rightarrow> ('s, 'e, 'b) io" where
  "seq m n \<equiv> bnd m (\<lambda>_. n)"

definition gets :: "('s \<Rightarrow> 'a) \<Rightarrow> ('s, 'e, 'a) io" where
  "gets f = (\<lambda>s. (Inr (f s), s))"

definition modify :: "('s \<Rightarrow> 's) \<Rightarrow> ('s, 'e, unit) io" where
  "modify f = (\<lambda>s. (Inr (), f s))"

definition lift :: "'e + 'a \<Rightarrow> ('s, 'e, 'a) io" where
  "lift r = (\<lambda>s. (r, s))"

text \<open>
  \<open>attempt m\<close> turns the outcome into a value: the body of a \<open>try\<close>, and one entry of
  \<open>asyncio.gather(..., return_exceptions=True)\<close>. \<open>catching m h\<close> is \<open>try: m except: h\<close>;
  the handler re-raises what its \<open>except\<close> clause does not name.
\<close>

definition attempt :: "('s, 'e, 'a) io \<Rightarrow> ('s, 'e, 'e + 'a) io" where
  "attempt m = (\<lambda>s. case m s of (r, t) \<Rightarrow> (Inr r, t))"

definition catching :: "('s, 'e, 'a) io \<Rightarrow> ('e \<Rightarrow> ('s, 'e, 'a) io) \<Rightarrow> ('s, 'e, 'a) io" where
  "catching m h = (\<lambda>s. case m s of (Inl e, t) \<Rightarrow> h e t | (Inr x, t) \<Rightarrow> (Inr x, t))"

text \<open>\<open>ensuring m c\<close> is \<open>try: m finally: c\<close>: an exception of \<open>c\<close> replaces the outcome of \<open>m\<close>.\<close>

definition ensuring :: "('s, 'e, 'a) io \<Rightarrow> ('s, 'e, unit) io \<Rightarrow> ('s, 'e, 'a) io" where
  "ensuring m c =
     (\<lambda>s. case m s of (r, t) \<Rightarrow> (case c t of (Inl e, u) \<Rightarrow> (Inl e, u) | (Inr _, u) \<Rightarrow> (r, u)))"

fun mapM :: "('a \<Rightarrow> ('s, 'e, 'b) io) \<Rightarrow> 'a list \<Rightarrow> ('s, 'e, 'b list) io" where
  "mapM f [] = ret []"
| "mapM f (x # xs) = bnd (f x) (\<lambda>y. bnd (mapM f xs) (\<lambda>ys. ret (y # ys)))"

definition gather :: "('a \<Rightarrow> ('s, 'e, 'b) io) \<Rightarrow> 'a list \<Rightarrow> ('s, 'e, ('e + 'b) list) io" where
  "gather f xs = mapM (\<lambda>x. attempt (f x)) xs"

fun foldM :: "('a \<Rightarrow> 'b \<Rightarrow> ('s, 'e, 'b) io) \<Rightarrow> 'a list \<Rightarrow> 'b \<Rightarrow> ('s, 'e, 'b) io" where
  "foldM f [] b = ret b"
| "foldM f (x # xs) b = bnd (f x b) (\<lambda>b'. foldM f xs b')"

subsection \<open>Equations\<close>

lemma ret_apply [io_simps]: "ret x s = (Inr x, s)"
  by (simp add: ret_def)

lemma raise_apply [io_simps]: "raise e s = (Inl e, s)"
  by (simp add: raise_def)

lemma gets_apply [io_simps]: "gets f s = (Inr (f s), s)"
  by (simp add: gets_def)

lemma modify_apply [io_simps]: "modify f s = (Inr (), f s)"
  by (simp add: modify_def)

lemma lift_apply [io_simps]: "lift r s = (r, s)"
  by (simp add: lift_def)

lemma bnd_apply [io_simps]:
  "bnd m f s = (case m s of (Inl e, t) \<Rightarrow> (Inl e, t) | (Inr x, t) \<Rightarrow> f x t)"
  by (simp add: bnd_def)

lemma attempt_apply [io_simps]: "attempt m s = (Inr (fst (m s)), snd (m s))"
  by (simp add: attempt_def split: prod.split)

lemma catching_apply [io_simps]:
  "catching m h s = (case m s of (Inl e, t) \<Rightarrow> h e t | (Inr x, t) \<Rightarrow> (Inr x, t))"
  by (simp add: catching_def)

lemma ensuring_apply [io_simps]:
  "ensuring m c s =
     (case m s of (r, t) \<Rightarrow> (case c t of (Inl e, u) \<Rightarrow> (Inl e, u) | (Inr _, u) \<Rightarrow> (r, u)))"
  by (simp add: ensuring_def)

lemma bnd_run: "m s = (Inr x, t) \<Longrightarrow> bnd m f s = f x t"
  by (simp add: bnd_def)

lemma bnd_fails: "m s = (Inl e, t) \<Longrightarrow> bnd m f s = (Inl e, t)"
  by (simp add: bnd_def)

lemma bnd_Inr:
  "bnd m f s = (Inr y, t) \<longleftrightarrow> (\<exists>x u. m s = (Inr x, u) \<and> f x u = (Inr y, t))"
  by (auto simp: bnd_def split: prod.splits sum.splits)

lemma bnd_Inl:
  "bnd m f s = (Inl e, t) \<longleftrightarrow>
     m s = (Inl e, t) \<or> (\<exists>x u. m s = (Inr x, u) \<and> f x u = (Inl e, t))"
  by (auto simp: bnd_def split: prod.splits sum.splits)

lemma ret_Inr [simp]: "ret x s = (r, t) \<longleftrightarrow> r = Inr x \<and> t = s"
  by (auto simp: ret_def)

lemma raise_Inl [simp]: "raise e s = (r, t) \<longleftrightarrow> r = Inl e \<and> t = s"
  by (auto simp: raise_def)

lemma gets_Inr [simp]: "gets f s = (r, t) \<longleftrightarrow> r = Inr (f s) \<and> t = s"
  by (auto simp: gets_def)

lemma modify_Inr [simp]: "modify f s = (r, t) \<longleftrightarrow> r = Inr () \<and> t = f s"
  by (auto simp: modify_def)

lemma lift_iff [simp]: "lift r s = (r', t) \<longleftrightarrow> r' = r \<and> t = s"
  by (auto simp: lift_def)

lemma bnd_cong [fundef_cong]: "m = m' \<Longrightarrow> (\<And>x. f x = f' x) \<Longrightarrow> bnd m f = bnd m' f'"
  by presburger

lemma bnd_assoc: "bnd (bnd m f) g = bnd m (\<lambda>x. bnd (f x) g)"
  by (rule ext) (simp add: bnd_def split: prod.split sum.split)

lemma bnd_ret [simp]: "bnd (ret x) f = f x"
  by (rule ext) (simp add: bnd_def ret_def)

lemma bnd_raise [simp]: "bnd (raise e) f = raise e"
  by (rule ext) (simp add: bnd_def raise_def)

subsection \<open>Hoare triples\<close>

text \<open>
  \<open>triple P m Q E\<close>: from a state satisfying \<open>P\<close>, a return satisfies \<open>Q\<close> and a raise \<open>E\<close>.
  Computations are total functions, so this is total correctness.
\<close>

definition triple ::
  "('s \<Rightarrow> bool) \<Rightarrow> ('s, 'e, 'a) io \<Rightarrow> ('a \<Rightarrow> 's \<Rightarrow> bool) \<Rightarrow> ('e \<Rightarrow> 's \<Rightarrow> bool) \<Rightarrow> bool" where
  "triple P m Q E \<longleftrightarrow>
     (\<forall>s. P s \<longrightarrow> (case m s of (Inl e, t) \<Rightarrow> E e t | (Inr x, t) \<Rightarrow> Q x t))"

text \<open>\<open>keeps I m\<close>: the computation preserves \<open>I\<close> whether it returns or raises.\<close>

definition keeps :: "('s \<Rightarrow> bool) \<Rightarrow> ('s, 'e, 'a) io \<Rightarrow> bool" where
  "keeps I m \<longleftrightarrow> (\<forall>s. I s \<longrightarrow> I (snd (m s)))"

lemma tripleI:
  assumes "\<And>s x t. P s \<Longrightarrow> m s = (Inr x, t) \<Longrightarrow> Q x t"
    and "\<And>s e t. P s \<Longrightarrow> m s = (Inl e, t) \<Longrightarrow> E e t"
  shows "triple P m Q E"
  using assms by (auto simp: triple_def split: prod.splits sum.splits)

lemma tripleD: "triple P m Q E \<Longrightarrow> P s \<Longrightarrow> (case m s of (Inl e, t) \<Rightarrow> E e t | (Inr x, t) \<Rightarrow> Q x t)"
  unfolding triple_def by (elim allE impE)

lemma triple_InrD: "triple P m Q E \<Longrightarrow> P s \<Longrightarrow> m s = (Inr x, t) \<Longrightarrow> Q x t"
  by (fastforce simp: triple_def)

lemma triple_InlD: "triple P m Q E \<Longrightarrow> P s \<Longrightarrow> m s = (Inl e, t) \<Longrightarrow> E e t"
  by (fastforce simp: triple_def)

lemma triple_conseq:
  assumes "triple P' m Q' E'" and "\<And>s. P s \<Longrightarrow> P' s"
    and "\<And>x t. Q' x t \<Longrightarrow> Q x t" and "\<And>e t. E' e t \<Longrightarrow> E e t"
  shows "triple P m Q E"
  using assms by (fastforce simp: triple_def split: prod.splits sum.splits)

lemma triple_ret: "(\<And>s. P s \<Longrightarrow> Q x s) \<Longrightarrow> triple P (ret x) Q E"
  by (simp add: triple_def ret_def)

lemma triple_raise: "(\<And>s. P s \<Longrightarrow> E e s) \<Longrightarrow> triple P (raise e) Q E"
  by (simp add: triple_def raise_def)

lemma triple_bnd:
  assumes "triple P m R E" and "\<And>x. triple (R x) (f x) Q E"
  shows "triple P (bnd m f) Q E"
  using assms by (fastforce simp: triple_def bnd_def split: prod.splits sum.splits)

lemma triple_split:
  assumes "triple P (bnd m f) R E" and "\<And>y. triple (R y) (g y) Q E"
  shows "triple P (bnd m (\<lambda>x. bnd (f x) g)) Q E"
  using triple_bnd [OF assms] by (simp add: bnd_assoc)

lemma triple_catching:
  assumes "triple P m Q F" and "\<And>e. triple (F e) (h e) Q E"
  shows "triple P (catching m h) Q E"
  using assms by (fastforce simp: triple_def catching_def split: prod.splits sum.splits)

lemma triple_ensuring:
  assumes "triple P m R F" and "\<And>x. triple (R x) c (\<lambda>_. Q x) E"
    and "\<And>e. triple (F e) c (\<lambda>_. E e) E"
  shows "triple P (ensuring m c) Q E"
  using assms by (fastforce simp: triple_def ensuring_def split: prod.splits sum.splits)

lemma triple_if:
  "(c \<Longrightarrow> triple P m Q E) \<Longrightarrow> (\<not> c \<Longrightarrow> triple P n Q E) \<Longrightarrow> triple P (if c then m else n) Q E"
  by simp

lemma triple_ex:
  assumes "\<And>a. triple (P a) m Q E"
  shows "triple (\<lambda>s. \<exists>a. P a s) m Q E"
  unfolding triple_def
proof (intro allI impI, elim exE)
  fix s a
  assume "P a s"
  then show "case m s of (Inl e, t) \<Rightarrow> E e t | (Inr x, t) \<Rightarrow> Q x t"
    using assms [of a] unfolding triple_def by (elim allE impE)
qed

lemma triple_const:
  assumes "A \<Longrightarrow> triple P m Q E"
  shows "triple (\<lambda>s. A \<and> P s) m Q E"
proof (cases A)
  case True
  then show ?thesis using assms [OF True] by simp
qed (simp add: triple_def)

lemma triple_fact:
  assumes "A \<Longrightarrow> triple P m Q E"
  shows "triple (\<lambda>s. P s \<and> A) m Q E"
  using triple_const [of A P m Q E] assms by (simp add: conj_commute)

lemma triple_pre: "triple P' m Q E \<Longrightarrow> (\<And>s. P s \<Longrightarrow> P' s) \<Longrightarrow> triple P m Q E"
  by (fastforce simp: triple_def)

lemma triple_keeps: "keeps I m \<Longrightarrow> triple I m (\<lambda>_. I) (\<lambda>_. I)"
  by (auto simp: triple_def keeps_def split: prod.splits sum.splits)

lemma keepsD: "keeps I m \<Longrightarrow> I s \<Longrightarrow> m s = (r, t) \<Longrightarrow> I t"
  by (fastforce simp: keeps_def)

lemma keepsI: "(\<And>s r t. I s \<Longrightarrow> m s = (r, t) \<Longrightarrow> I t) \<Longrightarrow> keeps I m"
  by (fastforce simp: keeps_def prod_eq_iff)

lemma keeps_ret [wp]: "keeps I (ret x)"
  by (simp add: keeps_def ret_def)

lemma keeps_raise [wp]: "keeps I (raise e)"
  by (simp add: keeps_def raise_def)

lemma keeps_gets [wp]: "keeps I (gets f)"
  by (simp add: keeps_def gets_def)

lemma keeps_lift [wp]: "keeps I (lift r)"
  by (simp add: keeps_def lift_def)

lemma keeps_modify: "(\<And>s. I s \<Longrightarrow> I (f s)) \<Longrightarrow> keeps I (modify f)"
  by (simp add: keeps_def modify_def)

lemma keeps_bnd [wp]:
  assumes "keeps I m" and "\<And>x. keeps I (f x)"
  shows "keeps I (bnd m f)"
  using assms by (fastforce simp: keeps_def bnd_def split: prod.splits sum.splits)

lemma keeps_attempt [wp]: "keeps I m \<Longrightarrow> keeps I (attempt m)"
  by (simp add: keeps_def attempt_apply)

lemma keeps_catching [wp]:
  assumes "keeps I m" and "\<And>e. keeps I (h e)"
  shows "keeps I (catching m h)"
  using assms by (fastforce simp: keeps_def catching_def split: prod.splits sum.splits)

lemma keeps_ensuring [wp]: "keeps I m \<Longrightarrow> keeps I c \<Longrightarrow> keeps I (ensuring m c)"
  by (fastforce simp: keeps_def ensuring_def split: prod.splits sum.splits)

lemma keeps_mapM [wp]: "(\<And>x. keeps I (f x)) \<Longrightarrow> keeps I (mapM f xs)"
  by (induction xs) (auto intro!: wp)

lemma keeps_gather [wp]: "(\<And>x. keeps I (f x)) \<Longrightarrow> keeps I (gather f xs)"
  by (simp add: gather_def wp)

lemma keeps_foldM [wp]: "(\<And>x b. keeps I (f x b)) \<Longrightarrow> keeps I (foldM f xs b)"
  by (induction xs arbitrary: b) (auto intro!: wp)

lemma keeps_if [wp]: "(c \<Longrightarrow> keeps I m) \<Longrightarrow> (\<not> c \<Longrightarrow> keeps I n) \<Longrightarrow> keeps I (if c then m else n)"
  by simp

lemma keeps_option [wp]:
  "keeps I m \<Longrightarrow> (\<And>x. keeps I (f x)) \<Longrightarrow> keeps I (case v of None \<Rightarrow> m | Some x \<Rightarrow> f x)"
  by (simp split: option.split)

lemma keeps_sum [wp]:
  "(\<And>e. keeps I (f e)) \<Longrightarrow> (\<And>x. keeps I (g x)) \<Longrightarrow> keeps I (case v of Inl e \<Rightarrow> f e | Inr x \<Rightarrow> g x)"
  by (simp split: sum.split)

lemma keeps_prod [wp]: "(\<And>x y. keeps I (f x y)) \<Longrightarrow> keeps I (case p of (x, y) \<Rightarrow> f x y)"
  by (simp split: prod.split)

lemma keeps_True [simp]: "keeps (\<lambda>_. True) m"
  by (simp add: keeps_def)

lemma keeps_conj: "keeps I m \<Longrightarrow> keeps J m \<Longrightarrow> keeps (\<lambda>s. I s \<and> J s) m"
  by (simp add: keeps_def)

subsection \<open>Gather\<close>

lemma mapM_length: "mapM f xs s = (Inr ys, t) \<Longrightarrow> length ys = length xs"
  by (induction xs arbitrary: s ys t) (auto simp: bnd_Inr)

lemma gather_total: "\<exists>rs t. gather f xs s = (Inr rs, t) \<and> length rs = length xs"
proof (induction xs arbitrary: s)
  case Nil
  show ?case by (simp add: gather_def)
next
  case (Cons x xs)
  obtain rs t where "gather f xs (snd (f x s)) = (Inr rs, t)" "length rs = length xs"
    using Cons by blast
  then have "gather f (x # xs) s = (Inr (fst (f x s) # rs), t)"
    by (simp add: gather_def io_simps)
  then show ?case using \<open>length rs = length xs\<close> by auto
qed

lemma gather_no_raise [simp]: "gather f xs s \<noteq> (Inl e, t)"
  using gather_total [of f xs s] by auto

lemma gather_Nil [simp]: "gather f [] = ret []"
  by (simp add: gather_def)

lemma gather_Cons:
  "gather f (x # xs) = bnd (attempt (f x)) (\<lambda>r. bnd (gather f xs) (\<lambda>rs. ret (r # rs)))"
  by (simp add: gather_def)

section \<open>Lists and maps\<close>

text \<open>Python's \<open>[x for x in xs if ...]\<close> and dictionary insertion order: a dictionary whose order
  matters is an association list without duplicate keys.\<close>

fun dict_set :: "'k \<Rightarrow> 'v \<Rightarrow> ('k \<times> 'v) list \<Rightarrow> ('k \<times> 'v) list" where
  "dict_set k v [] = [(k, v)]"
| "dict_set k v ((k', v') # d) = (if k' = k then (k, v) # d else (k', v') # dict_set k v d)"

lemma map_of_dict_set [simp]: "map_of (dict_set k v d) = (map_of d)(k \<mapsto> v)"
  by (induction k v d rule: dict_set.induct) auto

lemma keys_dict_set: "fst ` set (dict_set k v d) = insert k (fst ` set d)"
  by (induction k v d rule: dict_set.induct) auto

lemma distinct_dict_set: "distinct (map fst d) \<Longrightarrow> distinct (map fst (dict_set k v d))"
proof (induction k v d rule: dict_set.induct)
  case (2 k v k' v' d)
  then show ?case using keys_dict_set [of k v d] by auto
qed simp

lemma length_dict_set:
  "length (dict_set k v d) = (if k \<in> fst ` set d then length d else Suc (length d))"
  by (induction k v d rule: dict_set.induct) auto

lemma dict_set_new: "k \<notin> fst ` set d \<Longrightarrow> dict_set k v d = d @ [(k, v)]"
  by (induction k v d rule: dict_set.induct) auto

lemma filter_key:
  assumes "distinct (map f xs)" and "x \<in> set xs"
  shows "filter (\<lambda>y. f y = f x) xs = [x]"
  using assms
proof (induction xs)
  case (Cons y xs)
  then show ?case by (cases "y = x") (auto simp: filter_empty_conv image_iff)
qed simp

lemma filter_key_length: "distinct (map f xs) \<Longrightarrow> length (filter (\<lambda>x. f x = a) xs) \<le> 1"
proof (induction xs)
  case (Cons x xs)
  then show ?case by (cases "f x = a") (auto simp: filter_empty_conv image_iff)
qed simp

lemma filter_mono_length:
  "(\<And>x. x \<in> set xs \<Longrightarrow> P x \<Longrightarrow> Q x) \<Longrightarrow> length (filter P xs) \<le> length (filter Q xs)"
  by (induction xs) (auto simp: le_SucI)

end
