(* ===== verification/PyStr.thy ===== *)
theory PyStr
  imports Prelude
begin

text \<open>
  The string operations of Python's standard library that the repository uses: \<open>lower\<close>, \<open>strip\<close>,
  \<open>split\<close>, \<open>partition\<close>, UTF-8 encoding and lossy decoding, hexadecimal and decimal rendering, and
  \<open>int(s, 16)\<close>. ASCII behaviour is written out. What needs the Unicode character database beyond
  ASCII (case mapping, decimal digits of other scripts, NFKD) is a parameter, the record \<open>ucd\<close>.
\<close>

record ucd =
  ucd_lower :: "pystr \<Rightarrow> pystr"
  ucd_int16 :: "pystr \<Rightarrow> int option"
  ucd_nfkd :: "pystr \<Rightarrow> pystr"

text \<open>A table for ASCII text only, for concrete runs.\<close>

definition ascii_ucd :: ucd where
  "ascii_ucd = \<lparr>ucd_lower = id, ucd_int16 = (\<lambda>_. None), ucd_nfkd = id\<rparr>"

section \<open>Case, white space, splitting\<close>

definition is_ascii :: "pystr \<Rightarrow> bool" where
  "is_ascii s = list_all (\<lambda>c. c < 128) s"

definition ascii_lower :: "nat \<Rightarrow> nat" where
  "ascii_lower c = (if 65 \<le> c \<and> c \<le> 90 then c + 32 else c)"

definition py_lower :: "ucd \<Rightarrow> pystr \<Rightarrow> pystr" where
  "py_lower U s = (if is_ascii s then map ascii_lower s else ucd_lower U s)"

definition py_isspace :: "nat \<Rightarrow> bool" where
  "py_isspace c \<longleftrightarrow>
     (9 \<le> c \<and> c \<le> 13) \<or> (28 \<le> c \<and> c \<le> 32) \<or> c = 133 \<or> c = 160 \<or> c = 5760 \<or>
     (8192 \<le> c \<and> c \<le> 8202) \<or> c = 8232 \<or> c = 8233 \<or> c = 8239 \<or> c = 8287 \<or> c = 12288"

definition strip_by :: "(nat \<Rightarrow> bool) \<Rightarrow> pystr \<Rightarrow> pystr" where
  "strip_by p s = rev (dropWhile p (rev (dropWhile p s)))"

definition py_strip :: "pystr \<Rightarrow> pystr" where
  "py_strip s = strip_by py_isspace s"

text \<open>\<open>s.split(c)\<close> for a one-character separator.\<close>

fun py_split :: "nat \<Rightarrow> pystr \<Rightarrow> pystr list" where
  "py_split d [] = [[]]"
| "py_split d (c # s) =
     (if c = d then [] # py_split d s
      else (case py_split d s of [] \<Rightarrow> [[c]] | w # ws \<Rightarrow> (c # w) # ws))"

text \<open>\<open>s.partition(c)\<close>: the text before the first \<open>c\<close>, whether there is one, the text after it.\<close>

definition py_partition :: "nat \<Rightarrow> pystr \<Rightarrow> pystr \<times> bool \<times> pystr" where
  "py_partition d s =
     (let h = takeWhile (\<lambda>c. c \<noteq> d) s; r = dropWhile (\<lambda>c. c \<noteq> d) s
      in (h, r \<noteq> [], drop 1 r))"

definition py_startswith :: "pystr \<Rightarrow> pystr \<Rightarrow> bool" where
  "py_startswith s p = (take (length p) s = p)"

text \<open>\<open>s.replace(p, "")\<close> for a non-empty pattern.\<close>

function py_remove :: "pystr \<Rightarrow> pystr \<Rightarrow> pystr" where
  "py_remove p [] = []"
| "py_remove p (c # s) =
     (if p \<noteq> [] \<and> py_startswith (c # s) p then py_remove p (drop (length p) (c # s))
      else c # py_remove p s)"
  by pat_completeness auto
termination
  by (relation "measure (\<lambda>(p, s). length s)") auto

lemma strip_by_id:
  assumes "s = [] \<or> \<not> p (hd s) \<and> \<not> p (last s)"
  shows "strip_by p s = s"
proof (cases s)
  case (Cons c t)
  with assms have "dropWhile p s = s" by simp
  moreover have "dropWhile p (rev s) = rev s"
  proof -
    from Cons assms have "\<not> p (hd (rev s))" by (simp only: hd_rev) simp
    moreover from Cons obtain d u where "rev s = d # u"
      by (metis neq_Nil_conv rev_is_Nil_conv)
    ultimately show ?thesis by simp
  qed
  ultimately show ?thesis by (simp add: strip_by_def)
qed (simp add: strip_by_def)

lemma strip_by_idI: "(\<And>c. c \<in> set s \<Longrightarrow> \<not> p c) \<Longrightarrow> strip_by p s = s"
  by (rule strip_by_id) (metis hd_in_set last_in_set)

lemma set_strip_by: "set (strip_by p s) \<subseteq> set s"
  by (auto simp: strip_by_def dest!: set_dropWhileD dest: set_dropWhileD)

lemma strip_by_ends:
  assumes "strip_by p s \<noteq> []"
  shows "\<not> p (hd (strip_by p s))" and "\<not> p (last (strip_by p s))"
proof -
  let ?a = "dropWhile p s" and ?b = "dropWhile p (rev (dropWhile p s))"
  from assms have b: "?b \<noteq> []" by (simp add: strip_by_def)
  from b have "\<not> p (hd ?b)" by (rule hd_dropWhile)
  then show "\<not> p (last (strip_by p s))" using b by (simp add: strip_by_def last_rev)
  from b have a: "?a \<noteq> []" by (metis dropWhile.simps(1) rev.simps(1))
  then have pa: "\<not> p (hd ?a)" by (rule hd_dropWhile)
  have "rev ?a = takeWhile p (rev ?a) @ ?b" by simp
  then have "?a = rev ?b @ rev (takeWhile p (rev ?a))"
    by (metis rev_append rev_rev_ident)
  with b have "hd ?a = hd (rev ?b)"
    by (metis hd_append2 rev_is_Nil_conv)
  with pa show "\<not> p (hd (strip_by p s))" by (simp add: strip_by_def)
qed

lemma py_split_ne [simp]: "py_split d s \<noteq> []"
  by (induction s) (auto split: list.split)

lemma py_split_no_sep: "w \<in> set (py_split d s) \<Longrightarrow> d \<notin> set w"
proof (induction s arbitrary: w)
  case (Cons c s)
  then show ?case
    by (cases "py_split d s") (auto split: if_splits)
qed simp

lemma py_split_free: "d \<notin> set s \<Longrightarrow> py_split d s = [s]"
  by (induction s) auto

lemma py_split_append:
  "d \<notin> set w \<Longrightarrow> py_split d (w @ d # s) = w # py_split d s"
  by (induction w) auto

lemma py_partition_free:
  "d \<notin> set h \<Longrightarrow> py_partition d (h @ d # r) = (h, True, r)"
proof -
  assume "d \<notin> set h"
  then have "\<And>x. x \<in> set h \<Longrightarrow> x \<noteq> d" by auto
  then show ?thesis
    by (simp add: py_partition_def takeWhile_append2 dropWhile_append2)
qed

lemma py_remove_free:
  assumes "p \<noteq> []" and "hd p \<notin> set s"
  shows "py_remove p s = s"
  using assms(2)
proof (induction s)
  case (Cons c s)
  then have "\<not> py_startswith (c # s) p"
    using assms(1) by (cases p) (auto simp: py_startswith_def)
  with Cons show ?case by simp
qed simp

lemma py_remove_single: "py_remove [d] s = filter (\<lambda>c. c \<noteq> d) s"
  by (induction s) (auto simp: py_startswith_def)

lemma py_lower_ascii_id: "(\<And>c. c \<in> set s \<Longrightarrow> c < 128 \<and> \<not> (65 \<le> c \<and> c \<le> 90)) \<Longrightarrow> py_lower U s = s"
  by (auto simp: py_lower_def is_ascii_def list_all_iff ascii_lower_def intro!: map_idI)

section \<open>UTF-8\<close>

definition encodable :: "nat \<Rightarrow> bool" where
  "encodable c \<longleftrightarrow> c < 1114112 \<and> \<not> (55296 \<le> c \<and> c \<le> 57343)"

definition utf8_char :: "nat \<Rightarrow> bytes" where
  "utf8_char c =
     (if c < 128 then [byte_of c]
      else if c < 2048 then [byte_of (192 + c div 64), byte_of (128 + c mod 64)]
      else if c < 65536 then
        [byte_of (224 + c div 4096), byte_of (128 + c div 64 mod 64), byte_of (128 + c mod 64)]
      else
        [byte_of (240 + c div 262144), byte_of (128 + c div 4096 mod 64),
         byte_of (128 + c div 64 mod 64), byte_of (128 + c mod 64)])"

definition utf8 :: "pystr \<Rightarrow> bytes" where
  "utf8 s = concat (map utf8_char s)"

text \<open>\<open>s.encode()\<close>: \<open>None\<close> is \<open>UnicodeEncodeError\<close> (a lone surrogate).\<close>

definition py_encode :: "pystr \<Rightarrow> bytes option" where
  "py_encode s = (if list_all encodable s then Some (utf8 s) else None)"

definition is_cont :: "byte \<Rightarrow> bool" where
  "is_cont b \<longleftrightarrow> 128 \<le> unat b \<and> unat b < 192"

text \<open>The first character of a byte string and the number of bytes it takes, if they are a
  well-formed sequence (no overlong forms, no surrogates).\<close>

definition utf8_next :: "bytes \<Rightarrow> (nat \<times> nat) option" where
  "utf8_next bs =
     (case bs of
        [] \<Rightarrow> None
      | b0 # r \<Rightarrow>
          (let n0 = unat b0 in
           if n0 < 128 then Some (n0, 1)
           else if 194 \<le> n0 \<and> n0 < 224 then
             (case r of
                b1 # _ \<Rightarrow> if is_cont b1 then Some ((n0 - 192) * 64 + (unat b1 - 128), 2) else None
              | _ \<Rightarrow> None)
           else if 224 \<le> n0 \<and> n0 < 240 then
             (case r of
                b1 # b2 # _ \<Rightarrow>
                  (let c = (n0 - 224) * 4096 + (unat b1 - 128) * 64 + (unat b2 - 128)
                   in if is_cont b1 \<and> is_cont b2 \<and> 2048 \<le> c \<and> encodable c then Some (c, 3) else None)
              | _ \<Rightarrow> None)
           else if 240 \<le> n0 \<and> n0 < 245 then
             (case r of
                b1 # b2 # b3 # _ \<Rightarrow>
                  (let c = (n0 - 240) * 262144 + (unat b1 - 128) * 4096 + (unat b2 - 128) * 64
                           + (unat b3 - 128)
                   in if is_cont b1 \<and> is_cont b2 \<and> is_cont b3 \<and> 65536 \<le> c \<and> encodable c
                      then Some (c, 4) else None)
              | _ \<Rightarrow> None)
           else None))"

text \<open>\<open>bs.decode(errors="ignore")\<close>: bytes that do not start a well-formed sequence are dropped.\<close>

fun utf8_decode_ignore :: "bytes \<Rightarrow> pystr" where
  "utf8_decode_ignore [] = []"
| "utf8_decode_ignore (b # bs) =
     (case utf8_next (b # bs) of
        Some (c, n) \<Rightarrow> c # utf8_decode_ignore (drop (n - 1) bs)
      | None \<Rightarrow> utf8_decode_ignore bs)"

text \<open>The longest prefix of a string whose encoding fits in \<open>n\<close> bytes.\<close>

fun utf8_fit :: "nat \<Rightarrow> pystr \<Rightarrow> pystr" where
  "utf8_fit n [] = []"
| "utf8_fit n (c # s) =
     (if length (utf8_char c) \<le> n then c # utf8_fit (n - length (utf8_char c)) s else [])"

lemma utf8_Nil [simp]: "utf8 [] = []"
  by (simp add: utf8_def)

lemma utf8_Cons [simp]: "utf8 (c # s) = utf8_char c @ utf8 s"
  by (simp add: utf8_def)

lemma utf8_append: "utf8 (s @ t) = utf8 s @ utf8 t"
  by (simp add: utf8_def)

lemma utf8_char_length: "1 \<le> length (utf8_char c) \<and> length (utf8_char c) \<le> 4"
  by (simp add: utf8_char_def)

lemma base64_digits:
  fixes c :: nat
  assumes "c = a * 64 + r" and "a = b * 64 + q"
  shows "b * 4096 + q * 64 + r = c" and "b = d * 64 + p \<Longrightarrow> d * 262144 + p * 4096 + q * 64 + r = c"
  using assms by simp_all

lemma div_64_64: "(c :: nat) div 64 = c div 4096 * 64 + c div 64 mod 64"
  by (simp add: div_mult2_eq [of c 64 64, simplified] del: div_mult2_eq)

lemma div_4096_64: "(c :: nat) div 4096 = c div 262144 * 64 + c div 4096 mod 64"
  by (simp add: div_mult2_eq [of c 4096 64, simplified] del: div_mult2_eq)

lemma utf8_next_char:
  assumes "encodable c"
  shows "utf8_next (utf8_char c @ r) = Some (c, length (utf8_char c))"
proof -
  consider "c < 128" | "128 \<le> c" "c < 2048" | "2048 \<le> c" "c < 65536" | "65536 \<le> c"
    by linarith
  then show ?thesis
  proof cases
    case 1
    then show ?thesis by (simp add: utf8_char_def utf8_next_def)
  next
    case 2
    then have "c div 64 < 32" "2 \<le> c div 64" "c div 64 * 64 + c mod 64 = c" "\<not> c < 128" by auto
    with 2(2) show ?thesis
      by (simp add: utf8_char_def utf8_next_def is_cont_def Let_def del: not_less not_le)
  next
    case 3
    have eq: "c div 4096 * 4096 + c div 64 mod 64 * 64 + c mod 64 = c"
      by (rule base64_digits(1) [OF _ div_64_64]) simp
    have "c div 4096 < 16" "\<not> c < 128" "\<not> c < 2048" using 3 by auto
    with eq 3 assms show ?thesis
      by (simp add: utf8_char_def utf8_next_def is_cont_def Let_def del: not_less not_le)
  next
    case 4
    have eq: "c div 262144 * 262144 + c div 4096 mod 64 * 4096 + c div 64 mod 64 * 64 + c mod 64 = c"
      by (rule base64_digits(2) [OF _ div_64_64 div_4096_64]) simp
    have "c div 262144 < 5" using assms by (auto simp: encodable_def)
    moreover have "\<not> c < 128" "\<not> c < 2048" "\<not> c < 65536" using 4 by auto
    ultimately show ?thesis using eq assms
      by (simp add: utf8_char_def utf8_next_def is_cont_def Let_def del: not_less not_le)
  qed
qed

lemma utf8_decode_step:
  "encodable c \<Longrightarrow> utf8_decode_ignore (utf8_char c @ r) = c # utf8_decode_ignore r"
proof -
  assume c: "encodable c"
  obtain b bs where b: "utf8_char c = b # bs"
    using utf8_char_length [of c] by (cases "utf8_char c") auto
  then show ?thesis using utf8_next_char [OF c, of r] by simp
qed

text \<open>A proper prefix of one character's encoding decodes to nothing.\<close>

lemma utf8_decode_conts: "list_all is_cont bs \<Longrightarrow> utf8_decode_ignore bs = []"
  by (induction bs) (auto simp: utf8_next_def is_cont_def)

lemma utf8_char_conts: "list_all is_cont (tl (utf8_char c))"
  by (simp add: utf8_char_def is_cont_def)

lemma utf8_next_short:
  assumes "encodable c" and "0 < n" and "n < length (utf8_char c)"
  shows "utf8_next (take n (utf8_char c)) = None"
proof -
  consider "c < 128" | "128 \<le> c" "c < 2048" | "2048 \<le> c" "c < 65536" | "65536 \<le> c"
    by linarith
  then show ?thesis
  proof cases
    case 1
    with assms show ?thesis by (simp add: utf8_char_def)
  next
    case 2
    then have "c div 64 < 32" "2 \<le> c div 64" "\<not> c < 128" by auto
    with 2(2) assms(2,3) show ?thesis
      by (simp add: utf8_char_def utf8_next_def Let_def take_Cons' del: not_less not_le)
  next
    case 3
    then have "c div 4096 < 16" "\<not> c < 128" "\<not> c < 2048" by auto
    moreover from this 3 assms have "n = 1 \<or> n = 2" by (auto simp: utf8_char_def)
    ultimately show ?thesis using 3(2)
      by (elim disjE) (simp_all add: utf8_char_def utf8_next_def Let_def del: not_less not_le)
  next
    case 4
    have "c div 262144 < 5" using assms by (auto simp: encodable_def)
    moreover have "\<not> c < 128" "\<not> c < 2048" "\<not> c < 65536" using 4 by auto
    moreover from this assms have "n = 1 \<or> n = 2 \<or> n = 3" by (auto simp: utf8_char_def)
    ultimately show ?thesis
      by (elim disjE) (simp_all add: utf8_char_def utf8_next_def Let_def del: not_less not_le)
  qed
qed

lemma utf8_decode_cut:
  assumes "n < length (utf8_char c)" and "encodable c"
  shows "utf8_decode_ignore (take n (utf8_char c)) = []"
proof (cases n)
  case (Suc m)
  obtain b bs where b: "utf8_char c = b # bs"
    using utf8_char_length [of c] by (cases "utf8_char c") auto
  have "utf8_next (b # take m bs) = None"
    using utf8_next_short [OF assms(2) _ assms(1)] Suc b by simp
  moreover have "list_all is_cont (take m bs)"
    using utf8_char_conts [of c] b by (auto simp: list_all_iff dest: in_set_takeD)
  ultimately show ?thesis using Suc b by (simp add: utf8_decode_conts)
qed simp

lemma utf8_decode_take:
  "list_all encodable s \<Longrightarrow> utf8_decode_ignore (take n (utf8 s)) = utf8_fit n s"
proof (induction s arbitrary: n)
  case (Cons c s)
  then have c: "encodable c" and s: "list_all encodable s" by auto
  show ?case
  proof (cases "length (utf8_char c) \<le> n")
    case True
    then have "take n (utf8 (c # s)) = utf8_char c @ take (n - length (utf8_char c)) (utf8 s)" by simp
    with True Cons.IH [OF s] utf8_decode_step [OF c] show ?thesis by simp
  next
    case False
    with utf8_decode_cut [OF _ c] show ?thesis by simp
  qed
qed simp

lemma utf8_fit_prefix: "\<exists>t. s = utf8_fit n s @ t \<and>
    (t \<noteq> [] \<longrightarrow> n < length (utf8 (utf8_fit n s @ [hd t])))"
proof (induction n s rule: utf8_fit.induct)
  case (2 n c s)
  show ?case
  proof (cases "length (utf8_char c) \<le> n")
    case True
    with 2 obtain t where t: "s = utf8_fit (n - length (utf8_char c)) s @ t"
      "t \<noteq> [] \<longrightarrow> n - length (utf8_char c) < length (utf8 (utf8_fit (n - length (utf8_char c)) s @ [hd t]))"
      by auto
    with True show ?thesis
      by (intro exI [of _ t]) (auto simp: less_diff_conv2 add.commute)
  qed (auto intro!: exI [of _ "c # s"])
qed simp

lemma utf8_fit_length: "length (utf8 (utf8_fit n s)) \<le> n"
  by (induction n s rule: utf8_fit.induct) auto

lemma utf8_fit_id: "length (utf8 s) \<le> n \<Longrightarrow> utf8_fit n s = s"
  by (induction n s rule: utf8_fit.induct) auto

lemma set_utf8_fit: "set (utf8_fit n s) \<subseteq> set s"
  by (induction n s rule: utf8_fit.induct) auto

lemma utf8_decode: "list_all encodable s \<Longrightarrow> utf8_decode_ignore (utf8 s) = s"
  using utf8_decode_take [of s "length (utf8 s)"] by (simp add: utf8_fit_id)

lemma utf8_inj: "list_all encodable s \<Longrightarrow> list_all encodable t \<Longrightarrow> utf8 s = utf8 t \<Longrightarrow> s = t"
  using utf8_decode by metis

lemma ascii_encodable: "is_ascii s \<Longrightarrow> list_all encodable s"
  by (auto simp: is_ascii_def list_all_iff encodable_def)

lemma py_encode_ascii [simp]: "is_ascii s \<Longrightarrow> py_encode s = Some (utf8 s)"
  by (simp add: py_encode_def ascii_encodable)

lemma is_ascii_append [simp]: "is_ascii (s @ t) \<longleftrightarrow> is_ascii s \<and> is_ascii t"
  by (simp add: is_ascii_def)

lemma is_ascii_Cons [simp]: "is_ascii (c # s) \<longleftrightarrow> c < 128 \<and> is_ascii s"
  by (simp add: is_ascii_def)

lemma is_ascii_Nil [simp]: "is_ascii []"
  by (simp add: is_ascii_def)

section \<open>Decimal and hexadecimal numbers\<close>

text \<open>\<open>str(n)\<close> of a natural number, and \<open>str\<close> of an \<open>int\<close>.\<close>

fun dec_nat :: "nat \<Rightarrow> pystr" where
  "dec_nat n = (if n < 10 then [48 + n] else dec_nat (n div 10) @ [48 + n mod 10])"

declare dec_nat.simps [simp del]

definition py_str_int :: "int \<Rightarrow> pystr" where
  "py_str_int i = (if i < 0 then 45 # dec_nat (nat (- i)) else dec_nat (nat i))"

definition is_digit :: "nat \<Rightarrow> bool" where
  "is_digit c \<longleftrightarrow> 48 \<le> c \<and> c \<le> 57"

text \<open>\<open>int(s)\<close> of a string of ASCII digits.\<close>

definition dec_value :: "pystr \<Rightarrow> nat" where
  "dec_value s = foldl (\<lambda>a c. a * 10 + (c - 48)) 0 s"

lemma dec_nat_digits: "list_all is_digit (dec_nat n)"
proof (induction n rule: dec_nat.induct)
  case (1 n)
  then show ?case
    by (subst dec_nat.simps) (auto simp: is_digit_def [abs_def])
qed

lemma dec_nat_ne [simp]: "dec_nat n \<noteq> []"
  by (subst dec_nat.simps) simp

lemma dec_value_dec_nat [simp]: "dec_value (dec_nat n) = n"
proof (induction n rule: dec_nat.induct)
  case (1 n)
  then show ?case
    by (subst dec_nat.simps) (auto simp: dec_value_def)
qed

lemma dec_nat_inj: "dec_nat m = dec_nat n \<Longrightarrow> m = n"
  by (metis dec_value_dec_nat)

lemma dec_nat_ascii [simp]: "is_ascii (dec_nat n)"
  using dec_nat_digits [of n] by (auto simp: is_ascii_def is_digit_def list_all_iff)

lemma dec_nat_length: "n < 10 ^ k \<Longrightarrow> 0 < k \<Longrightarrow> length (dec_nat n) \<le> k"
proof (induction n arbitrary: k rule: dec_nat.induct)
  case (1 n)
  show ?case
  proof (cases "n < 10")
    case True
    with 1 show ?thesis by (subst dec_nat.simps) simp
  next
    case False
    obtain j where k: "k = Suc j" using 1 by (cases k) auto
    with 1 have "n div 10 < 10 ^ j" by auto
    moreover have "0 < j" using False 1 k by (cases j) auto
    ultimately have "length (dec_nat (n div 10)) \<le> j" using 1 False by blast
    with False k show ?thesis by (subst dec_nat.simps) simp
  qed
qed

definition hexdigit :: "nat \<Rightarrow> nat" where
  "hexdigit d = (if d < 10 then 48 + d else 87 + d)"

definition hexval :: "nat \<Rightarrow> nat option" where
  "hexval c =
     (if 48 \<le> c \<and> c \<le> 57 then Some (c - 48)
      else if 97 \<le> c \<and> c \<le> 102 then Some (c - 87)
      else if 65 \<le> c \<and> c \<le> 70 then Some (c - 55)
      else None)"

text \<open>\<open>'%0wx' % n\<close>: the last \<open>w\<close> lower-case hexadecimal digits of \<open>n\<close>.\<close>

fun hexw :: "nat \<Rightarrow> nat \<Rightarrow> pystr" where
  "hexw 0 n = []"
| "hexw (Suc w) n = hexw w (n div 16) @ [hexdigit (n mod 16)]"

definition is_lhex :: "nat \<Rightarrow> bool" where
  "is_lhex c \<longleftrightarrow> (48 \<le> c \<and> c \<le> 57) \<or> (97 \<le> c \<and> c \<le> 102)"

definition bytes_hex :: "bytes \<Rightarrow> pystr" where
  "bytes_hex bs = concat (map (\<lambda>b. hexw 2 (unat b)) bs)"

lemma hexval_hexdigit [simp]: "d < 16 \<Longrightarrow> hexval (hexdigit d) = Some d"
  by (auto simp: hexval_def hexdigit_def)

lemma hexdigit_inj: "hexdigit a = hexdigit b \<Longrightarrow> a < 16 \<Longrightarrow> b < 16 \<Longrightarrow> a = b"
  by (metis hexval_hexdigit option.inject)

lemma is_lhex_hexdigit: "d < 16 \<Longrightarrow> is_lhex (hexdigit d)"
  by (auto simp: is_lhex_def hexdigit_def)

lemma length_hexw [simp]: "length (hexw w n) = w"
  by (induction w n rule: hexw.induct) auto

lemma hexw_lhex: "c \<in> set (hexw w n) \<Longrightarrow> is_lhex c"
  by (induction w n rule: hexw.induct) (auto simp: is_lhex_hexdigit)

lemma hexw_inj: "hexw w m = hexw w n \<Longrightarrow> m < 16 ^ w \<Longrightarrow> n < 16 ^ w \<Longrightarrow> m = n"
proof (induction w m arbitrary: n rule: hexw.induct)
  case (2 w m)
  have "hexdigit (m mod 16) = hexdigit (n mod 16)" using 2 by simp
  then have "m mod 16 = n mod 16"
    by (rule hexdigit_inj) simp_all
  moreover have "m div 16 = n div 16"
  proof (rule "2.IH")
    show "hexw w (m div 16) = hexw w (n div 16)" using 2(2) by simp
    show "m div 16 < 16 ^ w" using 2(3) by (simp add: less_mult_imp_div_less mult.commute)
    show "n div 16 < 16 ^ w" using 2(4) by (simp add: less_mult_imp_div_less mult.commute)
  qed
  ultimately show ?case by (metis div_mult_mod_eq)
qed simp

lemma length_bytes_hex: "length (bytes_hex bs) = 2 * length bs"
  by (induction bs) (auto simp: bytes_hex_def)

lemma bytes_hex_lhex: "c \<in> set (bytes_hex bs) \<Longrightarrow> is_lhex c"
  by (auto simp: bytes_hex_def dest: hexw_lhex)

lemma bytes_hex_inj: "bytes_hex a = bytes_hex b \<Longrightarrow> a = b"
proof (induction a arbitrary: b)
  case Nil
  then have "length (bytes_hex b) = 0" by (simp add: bytes_hex_def)
  then show ?case by (simp add: length_bytes_hex)
next
  case (Cons x a)
  then obtain y b' where b: "b = y # b'"
    using length_bytes_hex [of "x # a"] length_bytes_hex [of b] by (cases b) auto
  have "hexw 2 (unat x) @ bytes_hex a = hexw 2 (unat y) @ bytes_hex b'"
    using Cons.prems b by (simp add: bytes_hex_def)
  then have h: "hexw 2 (unat x) = hexw 2 (unat y)" and ab: "bytes_hex a = bytes_hex b'"
    by (auto simp: append_eq_append_conv)
  from hexw_inj [OF h] have "unat x = unat y" by simp
  then have "x = y" by (metis byte_of_unat)
  with ab show ?case using Cons.IH b by simp
qed

lemma lhex_ascii: "(\<And>c. c \<in> set s \<Longrightarrow> is_lhex c) \<Longrightarrow> is_ascii s"
  by (fastforce simp: is_ascii_def list_all_iff is_lhex_def)

end
