(* ===== verification/Filenames.thy ===== *)
theory Filenames
  imports PyStr
begin

text \<open>
  \<open>services/filenames.py\<close>: the display name kept for an upload, the content type kept as metadata,
  and the \<open>Content-Disposition\<close> header of a download. \<open>None\<close> of the functions that encode is
  Python's \<open>UnicodeEncodeError\<close> (a lone surrogate in the name).
\<close>

definition MAX_FILENAME_BYTES :: nat where
  "MAX_FILENAME_BYTES = 255"

definition FALLBACK_FILENAME :: pystr where
  "FALLBACK_FILENAME = ustr ''file''"

text \<open>\<open>unicodedata.category(ch)\<close> is \<open>Cc\<close>, respectively \<open>Cf\<close> (Unicode 15.0, as in Python 3.12).\<close>

definition cat_Cc :: "nat \<Rightarrow> bool" where
  "cat_Cc c \<longleftrightarrow> c \<le> 31 \<or> (127 \<le> c \<and> c \<le> 159)"

definition cat_Cf :: "nat \<Rightarrow> bool" where
  "cat_Cf c \<longleftrightarrow>
     list_ex (\<lambda>(a, b). a \<le> c \<and> c \<le> b)
       [(173, 173), (1536, 1541), (1564, 1564), (1757, 1757), (1807, 1807), (2192, 2193),
        (2274, 2274), (6158, 6158), (8203, 8207), (8234, 8238), (8288, 8292), (8294, 8303),
        (65279, 65279), (65529, 65531), (69821, 69821), (69837, 69837), (78896, 78911),
        (113824, 113827), (119155, 119162), (917505, 917505), (917536, 917631)]"

text \<open>\<open>s.rsplit(c, 1)[-1]\<close>: the text after the last separator.\<close>

definition after_last :: "nat \<Rightarrow> pystr \<Rightarrow> pystr" where
  "after_last d s = rev (takeWhile (\<lambda>c. c \<noteq> d) (rev s))"

definition basename :: "pystr \<Rightarrow> pystr" where
  "basename s = after_last 47 (map (\<lambda>c. if c = 92 then 47 else c) s)"

definition sanitize_filename :: "pystr option \<Rightarrow> pystr option" where
  "sanitize_filename raw =
     (let name = basename (case raw of None \<Rightarrow> [] | Some s \<Rightarrow> s);
          name = py_strip (filter (\<lambda>c. \<not> (cat_Cc c \<or> cat_Cf c)) name)
      in (case py_encode name of
            None \<Rightarrow> None
          | Some bs \<Rightarrow>
              (let name = utf8_decode_ignore (take MAX_FILENAME_BYTES bs)
               in if name = [] \<or> name = [46] \<or> name = [46, 46] then Some FALLBACK_FILENAME
                  else Some name)))"

text \<open>\<open>urllib.parse.quote(s, safe='')\<close>.\<close>

definition unreserved :: "nat \<Rightarrow> bool" where
  "unreserved c \<longleftrightarrow>
     (65 \<le> c \<and> c \<le> 90) \<or> (97 \<le> c \<and> c \<le> 122) \<or> is_digit c \<or> c = 95 \<or> c = 46 \<or> c = 45 \<or> c = 126"

definition HEXDIGIT :: "nat \<Rightarrow> nat" where
  "HEXDIGIT d = (if d < 10 then 48 + d else 55 + d)"

definition quote_byte :: "byte \<Rightarrow> pystr" where
  "quote_byte b =
     (let n = unat b in if unreserved n then [n] else [37, HEXDIGIT (n div 16), HEXDIGIT (n mod 16)])"

definition py_quote :: "pystr \<Rightarrow> pystr option" where
  "py_quote s =
     (case py_encode s of None \<Rightarrow> None | Some bs \<Rightarrow> Some (concat (map quote_byte bs)))"

definition nfkd :: "ucd \<Rightarrow> pystr \<Rightarrow> pystr" where
  "nfkd U s = (if is_ascii s then s else ucd_nfkd U s)"

definition ascii_fallback :: "ucd \<Rightarrow> pystr \<Rightarrow> pystr" where
  "ascii_fallback U filename =
     (let a = filter (\<lambda>c. c < 128) (nfkd U filename);
          a = map (\<lambda>c. if c = 34 \<or> c = 92 \<or> c < 32 \<or> c = 127 then 95 else c) a;
          a = py_strip a
      in if a = [] then FALLBACK_FILENAME else a)"

definition content_disposition :: "ucd \<Rightarrow> pystr \<Rightarrow> pystr option" where
  "content_disposition U filename =
     (case py_quote filename of
        None \<Rightarrow> None
      | Some q \<Rightarrow>
          Some (ustr ''attachment; filename='' @ [34] @ ascii_fallback U filename @ [34]
                @ ustr ''; filename*=UTF-8'' @ [39, 39] @ q))"

definition mime_char :: "nat \<Rightarrow> bool" where
  "mime_char c \<longleftrightarrow>
     (65 \<le> c \<and> c \<le> 90) \<or> (97 \<le> c \<and> c \<le> 122) \<or> is_digit c \<or> c \<in> {33, 35, 36, 38, 94, 95, 46, 43, 45}"

definition mime_part :: "pystr \<Rightarrow> bool" where
  "mime_part s \<longleftrightarrow> 1 \<le> length s \<and> length s \<le> 63 \<and> list_all mime_char s"

text \<open>\<open>_MIME_TOKEN.fullmatch\<close>: the slash is not in the character class, so the match can only
  split at the first slash.\<close>

definition mime_token :: "pystr \<Rightarrow> bool" where
  "mime_token s = (case py_partition 47 s of (a, sep, b) \<Rightarrow> sep \<and> mime_part a \<and> mime_part b)"

definition DEFAULT_CONTENT_TYPE :: pystr where
  "DEFAULT_CONTENT_TYPE = ustr ''application/octet-stream''"

definition sanitize_content_type :: "ucd \<Rightarrow> pystr option \<Rightarrow> pystr" where
  "sanitize_content_type U raw =
     (let s = (case raw of None \<Rightarrow> [] | Some s \<Rightarrow> s);
          candidate = py_lower U (py_strip (hd (py_split 59 s)))
      in if mime_token candidate then candidate else DEFAULT_CONTENT_TYPE)"

section \<open>File names\<close>

definition separator_free :: "pystr \<Rightarrow> bool" where
  "separator_free s \<longleftrightarrow> 47 \<notin> set s \<and> 92 \<notin> set s"

definition printable :: "pystr \<Rightarrow> bool" where
  "printable s \<longleftrightarrow> (\<forall>c \<in> set s. \<not> cat_Cc c \<and> \<not> cat_Cf c)"

lemma set_after_last: "set (after_last d s) \<subseteq> set s - {d}"
  by (auto simp: after_last_def dest: set_takeWhileD)

lemma basename_separators: "separator_free (basename s)"
  using set_after_last [of 47 "map (\<lambda>c. if c = 92 then 47 else c) s"]
  by (auto simp: basename_def separator_free_def split: if_splits)

lemma basename_id: "separator_free s \<Longrightarrow> basename s = s"
proof -
  assume s: "separator_free s"
  then have "map (\<lambda>c. if c = 92 then 47 else c) s = s"
    by (auto simp: separator_free_def intro!: map_idI)
  moreover have "takeWhile (\<lambda>c. c \<noteq> 47) (rev s) = rev s"
    using s by (subst takeWhile_eq_all_conv) (auto simp: separator_free_def)
  ultimately show ?thesis by (simp only: basename_def after_last_def rev_rev_ident)
qed

definition clean_name :: "pystr option \<Rightarrow> pystr" where
  "clean_name raw =
     py_strip (filter (\<lambda>c. \<not> (cat_Cc c \<or> cat_Cf c)) (basename (case raw of None \<Rightarrow> [] | Some s \<Rightarrow> s)))"

lemma clean_name_safe: "separator_free (clean_name raw)" "printable (clean_name raw)"
proof -
  let ?f = "filter (\<lambda>c. \<not> (cat_Cc c \<or> cat_Cf c)) (basename (case raw of None \<Rightarrow> [] | Some s \<Rightarrow> s))"
  have "set (clean_name raw) \<subseteq> set ?f"
    unfolding clean_name_def py_strip_def by (rule set_strip_by)
  then show "separator_free (clean_name raw)" "printable (clean_name raw)"
    using basename_separators by (auto simp: separator_free_def printable_def)
qed

lemma sanitize_filename_eq:
  "sanitize_filename raw =
     (if list_all encodable (clean_name raw) then
        (let n = utf8_fit MAX_FILENAME_BYTES (clean_name raw)
         in if n = [] \<or> n = [46] \<or> n = [46, 46] then Some FALLBACK_FILENAME else Some n)
      else None)"
  by (simp add: sanitize_filename_def clean_name_def py_encode_def utf8_decode_take Let_def)

lemma hd_utf8_fit: "utf8_fit n s \<noteq> [] \<Longrightarrow> hd (utf8_fit n s) = hd s"
  by (cases s) (auto split: if_splits)

lemma clean_name_hd: "clean_name raw \<noteq> [] \<Longrightarrow> \<not> py_isspace (hd (clean_name raw))"
  by (simp add: clean_name_def py_strip_def strip_by_ends)

lemmas filename_eval = sanitize_filename_eq clean_name_def basename_def after_last_def py_strip_def
  strip_by_def py_isspace_def cat_Cc_def cat_Cf_def encodable_def utf8_char_def MAX_FILENAME_BYTES_def
  FALLBACK_FILENAME_def

text \<open>
  C38. Whatever name a client sends, the stored display name is non-empty, is not a directory
  reference, holds no path separator and no control or format character (so neither a path nor a
  header can be forged with it), does not start with white space, and its UTF-8 encoding has at
  most 255 bytes.
\<close>
theorem sanitize_filename_safe:
  assumes "sanitize_filename raw = Some n"
  shows "n \<noteq> [] \<and> n \<noteq> [46] \<and> n \<noteq> [46, 46] \<and> separator_free n \<and> printable n
    \<and> \<not> py_isspace (hd n) \<and> length (utf8 n) \<le> MAX_FILENAME_BYTES"
proof -
  let ?n = "utf8_fit MAX_FILENAME_BYTES (clean_name raw)"
  from assms consider "n = FALLBACK_FILENAME" | "n = ?n" "?n \<noteq> []" "?n \<noteq> [46]" "?n \<noteq> [46, 46]"
    by (auto simp: sanitize_filename_eq Let_def split: if_splits)
  then show ?thesis
  proof cases
    case 1
    then show ?thesis
      by (simp add: FALLBACK_FILENAME_def separator_free_def printable_def cat_Cc_def cat_Cf_def
          py_isspace_def utf8_char_def MAX_FILENAME_BYTES_def)
  next
    case 2
    then have "clean_name raw \<noteq> []" by auto
    with 2 clean_name_safe [of raw] set_utf8_fit [of MAX_FILENAME_BYTES "clean_name raw"]
    show ?thesis
      using hd_utf8_fit [of MAX_FILENAME_BYTES "clean_name raw"]
      by (auto simp: separator_free_def printable_def utf8_fit_length clean_name_hd)
  qed
qed

theorem sanitize_filename_safe_witness:
  "sanitize_filename (Some (ustr ''../../etc/passwd'')) = Some (ustr ''passwd'')
    \<and> separator_free (ustr ''passwd'')"
proof -
  have h: "sanitize_filename (Some (ustr ''../../etc/passwd'')) = Some (ustr ''passwd'')"
    by (simp add: filename_eval)
  show ?thesis using h sanitize_filename_safe [OF h] by blast
qed

text \<open>
  Nothing else is lost: the stored name is the cleaned base name cut at a character boundary
  as late as the 255-byte limit allows, or the fallback when that cut is empty or a dot reference;
  in particular a name that already satisfies the rules is stored unchanged, and the only
  failure is a lone surrogate in the cleaned name.
\<close>
theorem sanitize_filename_complete:
  "case sanitize_filename raw of
     None \<Rightarrow> \<not> list_all encodable (clean_name raw)
   | Some n \<Rightarrow>
       (\<exists>c t. clean_name raw = c @ t \<and> length (utf8 c) \<le> MAX_FILENAME_BYTES
          \<and> (t = [] \<or> MAX_FILENAME_BYTES < length (utf8 (c @ [hd t])))
          \<and> n = (if c = [] \<or> c = [46] \<or> c = [46, 46] then FALLBACK_FILENAME else c))"
proof (cases "list_all encodable (clean_name raw)")
  case True
  let ?c = "utf8_fit MAX_FILENAME_BYTES (clean_name raw)"
  obtain t where t: "clean_name raw = ?c @ t"
    "t = [] \<or> MAX_FILENAME_BYTES < length (utf8 (?c @ [hd t]))"
    using utf8_fit_prefix [of "clean_name raw" MAX_FILENAME_BYTES] by blast
  have n: "sanitize_filename raw =
      Some (if ?c = [] \<or> ?c = [46] \<or> ?c = [46, 46] then FALLBACK_FILENAME else ?c)"
    using True by (simp add: sanitize_filename_eq Let_def)
  show ?thesis
    unfolding n option.case
    by (intro exI [of _ ?c] exI [of _ t] conjI t utf8_fit_length refl)
qed (simp add: sanitize_filename_eq)

section \<open>Content types\<close>

lemma mime_token_parts:
  assumes "mime_token s"
  obtains a b where "s = a @ 47 # b" and "mime_part a" and "mime_part b"
proof -
  let ?h = "takeWhile (\<lambda>c. c \<noteq> 47) s" and ?r = "dropWhile (\<lambda>c. c \<noteq> 47) s"
  from assms have r: "?r \<noteq> []" and h: "mime_part ?h" and t: "mime_part (drop 1 ?r)"
    by (auto simp: mime_token_def py_partition_def Let_def)
  from r obtain x b where x: "?r = x # b" by (cases ?r) auto
  then have "x = 47" using hd_dropWhile [OF r] by simp
  have "s = ?h @ ?r" by simp
  with x \<open>x = 47\<close> have "s = ?h @ 47 # b" by simp
  moreover have "mime_part b" using t x by simp
  ultimately show thesis using h that by blast
qed

lemma mime_token_chars: "mime_token s \<Longrightarrow> c \<in> set s \<Longrightarrow> mime_char c \<or> c = 47"
  by (erule mime_token_parts) (auto simp: mime_part_def list_all_iff)

lemma mime_token_length: "mime_token s \<Longrightarrow> length s \<le> 127"
  by (erule mime_token_parts) (auto simp: mime_part_def)

lemma mime_char_printable: "mime_char c \<Longrightarrow> 33 \<le> c \<and> c < 127 \<and> c \<noteq> 59 \<and> c \<noteq> 44"
  by (auto simp: mime_char_def is_digit_def)

lemma mime_token_default: "mime_token DEFAULT_CONTENT_TYPE"
  by (simp add: mime_token_def DEFAULT_CONTENT_TYPE_def py_partition_def mime_part_def mime_char_def)

text \<open>
  Whatever content type a client declares, the stored one is a single well-formed
  \<open>type/subtype\<close> of at most 127 printable ASCII characters: no parameters, no list separator,
  no white space, no line break.
\<close>
theorem sanitize_content_type_safe:
  "mime_token (sanitize_content_type U raw) \<and> length (sanitize_content_type U raw) \<le> 127
    \<and> list_all (\<lambda>c. 33 \<le> c \<and> c < 127 \<and> c \<noteq> 59 \<and> c \<noteq> 44) (sanitize_content_type U raw)"
proof -
  have m: "mime_token (sanitize_content_type U raw)"
    by (simp add: sanitize_content_type_def Let_def mime_token_default)
  then have "list_all (\<lambda>c. 33 \<le> c \<and> c < 127 \<and> c \<noteq> 59 \<and> c \<noteq> 44) (sanitize_content_type U raw)"
    by (fastforce simp: list_all_iff dest: mime_token_chars mime_char_printable)
  with m show ?thesis by (simp add: mime_token_length)
qed

section \<open>The download header\<close>

text \<open>RFC 3986 percent-decoding, the inverse a client applies to \<open>filename*\<close>.\<close>

fun percent_decode :: "pystr \<Rightarrow> bytes option" where
  "percent_decode [] = Some []"
| "percent_decode (c # s) =
     (if c = 37 then
        (case s of
           a # b # r \<Rightarrow>
             (case (hexval a, hexval b) of
                (Some x, Some y) \<Rightarrow> map_option (\<lambda>bs. byte_of (x * 16 + y) # bs) (percent_decode r)
              | _ \<Rightarrow> None)
         | _ \<Rightarrow> None)
      else map_option (\<lambda>bs. byte_of c # bs) (percent_decode s))"

lemma hexval_HEXDIGIT [simp]: "d < 16 \<Longrightarrow> hexval (HEXDIGIT d) = Some d"
  by (auto simp: hexval_def HEXDIGIT_def)

lemma percent_decode_quote_byte:
  "percent_decode (quote_byte b @ s) = map_option (\<lambda>bs. b # bs) (percent_decode s)"
proof (cases "unreserved (unat b)")
  case True
  then have "unat b \<noteq> 37" by (auto simp: unreserved_def is_digit_def)
  with True show ?thesis by (simp add: quote_byte_def)
next
  case False
  have "unat b div 16 < 16"
    by (rule less_mult_imp_div_less) (use unat_byte_less [of b] in simp)
  with False show ?thesis by (simp add: quote_byte_def Let_def)
qed

lemma percent_decode_quote: "percent_decode (concat (map quote_byte bs)) = Some bs"
  by (induction bs) (simp_all add: percent_decode_quote_byte)

lemma HEXDIGIT_unreserved: "d < 16 \<Longrightarrow> unreserved (HEXDIGIT d)"
  by (simp add: HEXDIGIT_def unreserved_def is_digit_def)

lemma quote_byte_chars: "c \<in> set (quote_byte b) \<Longrightarrow> unreserved c \<or> c = 37"
proof (cases "unreserved (unat b)")
  case False
  have "unat b div 16 < 16"
    by (rule less_mult_imp_div_less) (use unat_byte_less [of b] in simp)
  moreover assume "c \<in> set (quote_byte b)"
  ultimately show ?thesis
    using False HEXDIGIT_unreserved [of "unat b div 16"] HEXDIGIT_unreserved [of "unat b mod 16"]
    by (auto simp only: quote_byte_def Let_def if_False list.set mod_less_divisor insert_iff
        empty_iff zero_less_numeral)
qed (simp add: quote_byte_def)

lemma unreserved_printable: "unreserved c \<Longrightarrow> 33 \<le> c \<and> c < 127 \<and> c \<noteq> 34 \<and> c \<noteq> 92 \<and> c \<noteq> 59"
  by (auto simp: unreserved_def is_digit_def)

definition ascii_candidate :: "ucd \<Rightarrow> pystr \<Rightarrow> pystr" where
  "ascii_candidate U f =
     map (\<lambda>c. if c = 34 \<or> c = 92 \<or> c < 32 \<or> c = 127 then 95 else c)
       (filter (\<lambda>c. c < 128) (nfkd U f))"

lemma ascii_fallback_eq:
  "ascii_fallback U f =
     (if py_strip (ascii_candidate U f) = [] then FALLBACK_FILENAME else py_strip (ascii_candidate U f))"
  by (simp only: ascii_fallback_def ascii_candidate_def Let_def)

lemma ascii_candidate_chars:
  assumes "d \<in> set (ascii_candidate U f)"
  shows "32 \<le> d \<and> d < 127 \<and> d \<noteq> 34 \<and> d \<noteq> 92"
proof -
  from assms obtain c where "c < 128" and "d = (if c = 34 \<or> c = 92 \<or> c < 32 \<or> c = 127 then 95 else c)"
    by (simp only: ascii_candidate_def set_map set_filter image_iff mem_Collect_eq) blast
  then show ?thesis by simp
qed

lemma ascii_fallback_chars:
  "ascii_fallback U f \<noteq> [] \<and> (\<forall>c \<in> set (ascii_fallback U f). 32 \<le> c \<and> c < 127 \<and> c \<noteq> 34 \<and> c \<noteq> 92)"
proof (cases "py_strip (ascii_candidate U f) = []")
  case False
  have "set (py_strip (ascii_candidate U f)) \<subseteq> set (ascii_candidate U f)"
    unfolding py_strip_def by (rule set_strip_by)
  then show ?thesis
    using False ascii_candidate_chars [of _ U f] by (simp only: ascii_fallback_eq if_False) blast
qed (simp add: ascii_fallback_eq FALLBACK_FILENAME_def)

text \<open>
  C39. The download header cannot be broken out of, whatever the stored name and whatever the
  Unicode database says: it is printable ASCII on one line, its quoted part holds neither a quote
  nor a backslash, its extended part holds only unreserved characters and percent escapes, and
  percent-decoding that part gives back the UTF-8 bytes of the stored name.
\<close>
theorem content_disposition_safe:
  assumes "content_disposition U filename = Some h"
  shows "\<exists>a q. h = ustr ''attachment; filename='' @ [34] @ a @ [34] @ ustr ''; filename*=UTF-8'' @ [39, 39] @ q
    \<and> a \<noteq> [] \<and> (\<forall>c \<in> set a. c \<noteq> 34 \<and> c \<noteq> 92) \<and> (\<forall>c \<in> set q. unreserved c \<or> c = 37)
    \<and> (\<forall>c \<in> set h. 32 \<le> c \<and> c < 127) \<and> percent_decode q = Some (utf8 filename)"
proof -
  let ?a = "ascii_fallback U filename" and ?q = "concat (map quote_byte (utf8 filename))"
  have q: "\<forall>c \<in> set ?q. unreserved c \<or> c = 37" by (auto dest: quote_byte_chars)
  have qp: "\<forall>c \<in> set ?q. 32 \<le> c \<and> c < 127"
  proof
    fix c assume "c \<in> set ?q"
    with q have "unreserved c \<or> c = 37" by blast
    then show "32 \<le> c \<and> c < 127" using unreserved_printable [of c] by auto
  qed
  have h: "h = ustr ''attachment; filename='' @ [34] @ ?a @ [34]
      @ ustr ''; filename*=UTF-8'' @ [39, 39] @ ?q"
    using assms
    by (simp add: content_disposition_def py_quote_def py_encode_def del: ustr_Cons
        split: option.splits if_splits)
  have "\<forall>c \<in> set (ustr ''attachment; filename=''). 32 \<le> c \<and> c < 127"
    and "\<forall>c \<in> set (ustr ''; filename*=UTF-8''). 32 \<le> c \<and> c < 127" by simp_all
  then have "\<forall>c \<in> set h. 32 \<le> c \<and> c < 127"
    unfolding h set_append ball_Un using ascii_fallback_chars [of U filename] qp by simp
  then show ?thesis
    using ascii_fallback_chars [of U filename] q
    by (intro exI [of _ ?a] exI [of _ ?q] conjI h percent_decode_quote) simp_all
qed

theorem content_disposition_safe_witness:
  "\<exists>h. content_disposition \<lparr>ucd_lower = id, ucd_int16 = (\<lambda>_. None), ucd_nfkd = id\<rparr> (ustr ''a b.txt'') = Some h
    \<and> (\<forall>c \<in> set h. 32 \<le> c \<and> c < 127)"
proof -
  let ?U = "\<lparr>ucd_lower = id, ucd_int16 = (\<lambda>_. None), ucd_nfkd = id\<rparr>"
  have "is_ascii (ustr ''a b.txt'')" by simp
  then obtain h where h: "content_disposition ?U (ustr ''a b.txt'') = Some h"
    by (simp add: content_disposition_def py_quote_def del: ustr_Cons)
  show ?thesis using h content_disposition_safe [OF h] by blast
qed

end
