(* ===== verification/Erasure.thy ===== *)
theory Erasure
  imports Prelude
begin

unbundle bit_operations_syntax

text \<open>
  \<open>services/erasure.py\<close>: k-of-n erasure coding over zfec. The zfec library is not part of the
  repository, so its encoder and decoder are parameters (the record \<open>zfec\<close>), and what the code
  relies on is \<open>zfec_ok\<close>, the contract in zfec's documentation: every block depends only on the
  primary blocks and its index, the first k blocks are the primary blocks, blocks have equal
  length, and any k distinct blocks decode to the primary blocks.

  A Python mapping from index to block is an association list; its keys are distinct.
\<close>

record zfec =
  z_encode :: "nat \<Rightarrow> nat \<Rightarrow> bytes list \<Rightarrow> nat list \<Rightarrow> bytes list"
  z_decode :: "nat \<Rightarrow> nat \<Rightarrow> bytes list \<Rightarrow> nat list \<Rightarrow> bytes list"

datatype erasure_error = EmptyData | DivisionByZero | NotEnoughShards nat nat | IndexOutOfRange

definition block_size :: "nat \<Rightarrow> nat \<Rightarrow> nat" where
  "block_size len k = (len + k - 1) div k"

definition primary_blocks :: "bytes \<Rightarrow> nat \<Rightarrow> bytes list" where
  "primary_blocks data k =
     (let bs = block_size (length data) k;
          padded = data @ replicate (bs * k - length data) 0
      in map (\<lambda>i. take bs (drop (i * bs) padded)) [0..<k])"

definition encode :: "zfec \<Rightarrow> bytes \<Rightarrow> nat \<Rightarrow> nat \<Rightarrow> erasure_error + bytes list" where
  "encode Z data k m =
     (if data = [] then Inl EmptyData
      else if k = 0 then Inl DivisionByZero
      else Inr (z_encode Z k (k + m) (primary_blocks data k) [0..<k + m]))"

definition decode_primary ::
  "zfec \<Rightarrow> (nat \<times> bytes) list \<Rightarrow> nat \<Rightarrow> nat \<Rightarrow> erasure_error + bytes list" where
  "decode_primary Z blocks k m =
     (if length blocks < k then Inl (NotEnoughShards k (length blocks))
      else
        (let indices = take k (sort (map fst blocks))
         in if list_ex (\<lambda>i. \<not> i < k + m) indices then Inl IndexOutOfRange
            else Inr (z_decode Z k (k + m) (map (\<lambda>i. the (map_of blocks i)) indices) indices)))"

definition decode ::
  "zfec \<Rightarrow> (nat \<times> bytes) list \<Rightarrow> nat \<Rightarrow> nat \<Rightarrow> nat \<Rightarrow> erasure_error + bytes" where
  "decode Z blocks k m sz =
     (case decode_primary Z blocks k m of
        Inl e \<Rightarrow> Inl e
      | Inr p \<Rightarrow> Inr (take sz (concat p)))"

definition regenerate ::
  "zfec \<Rightarrow> (nat \<times> bytes) list \<Rightarrow> nat \<Rightarrow> nat \<Rightarrow> nat list \<Rightarrow> erasure_error + bytes list" where
  "regenerate Z blocks k m indices =
     (case decode_primary Z blocks k m of
        Inl e \<Rightarrow> Inl e
      | Inr p \<Rightarrow> Inr (z_encode Z k (k + m) p indices))"

section \<open>The contract of zfec\<close>

definition equal_blocks :: "nat \<Rightarrow> bytes list \<Rightarrow> bool" where
  "equal_blocks k p \<longleftrightarrow> length p = k \<and> (\<forall>b \<in> set p. length b = length (hd p))"

definition z_block :: "zfec \<Rightarrow> nat \<Rightarrow> nat \<Rightarrow> bytes list \<Rightarrow> nat \<Rightarrow> bytes" where
  "z_block Z k n p i = hd (z_encode Z k n p [i])"

definition zfec_ok :: "zfec \<Rightarrow> nat \<Rightarrow> nat \<Rightarrow> bool" where
  "zfec_ok Z k m \<longleftrightarrow>
     1 \<le> k \<and> (\<forall>p. equal_blocks k p \<longrightarrow>
       (\<forall>is. set is \<subseteq> {..<k + m} \<longrightarrow> z_encode Z k (k + m) p is = map (z_block Z k (k + m) p) is) \<and>
       (\<forall>i < k. z_block Z k (k + m) p i = p ! i) \<and>
       (\<forall>i < k + m. length (z_block Z k (k + m) p i) = length (hd p)) \<and>
       (\<forall>is. set is \<subseteq> {..<k + m} \<and> distinct is \<and> length is = k \<longrightarrow>
          z_decode Z k (k + m) (map (z_block Z k (k + m) p) is) is = p))"

section \<open>Splitting and joining\<close>

lemma block_size_ge: "1 \<le> k \<Longrightarrow> len \<le> block_size len k * k"
proof -
  assume k: "1 \<le> k"
  have "len + k - 1 < block_size len k * k + k"
    unfolding block_size_def using k
    by (metis add.commute div_mult_mod_eq mod_less_divisor nat_add_left_cancel_less
        less_le_trans zero_less_one)
  with k show ?thesis by linarith
qed

lemma block_size_pos: "1 \<le> k \<Longrightarrow> 0 < len \<Longrightarrow> 0 < block_size len k"
  using block_size_ge [of k len] by (cases "block_size len k") auto

lemma concat_chunks: "length xs = n * b \<Longrightarrow> concat (map (\<lambda>i. take b (drop (i * b) xs)) [0..<n]) = xs"
proof (induction n arbitrary: xs)
  case (Suc n)
  have c: "concat (map (\<lambda>i. take b (drop (i * b) (take (n * b) xs))) [0..<n]) = take (n * b) xs"
    by (rule Suc.IH) (use Suc.prems in simp)
  have t: "take b (drop (i * b) (take (n * b) xs)) = take b (drop (i * b) xs)" if "i < n" for i
  proof -
    have "b + i * b \<le> n * b" using that by (metis Suc_leI mult_Suc mult_le_mono1)
    then show ?thesis by (simp add: take_drop min_def)
  qed
  have "map (\<lambda>i. take b (drop (i * b) (take (n * b) xs))) [0..<n] = map (\<lambda>i. take b (drop (i * b) xs)) [0..<n]"
    by (rule map_cong [OF refl]) (use t in simp)
  with c have "concat (map (\<lambda>i. take b (drop (i * b) xs)) [0..<n]) = take (n * b) xs" by simp
  then show ?case using Suc.prems by simp
qed simp

lemma length_primary_blocks [simp]: "length (primary_blocks data k) = k"
  by (simp add: primary_blocks_def Let_def)

lemma concat_primary_blocks:
  assumes "1 \<le> k"
  shows "concat (primary_blocks data k) =
    data @ replicate (block_size (length data) k * k - length data) 0"
proof -
  have "length (data @ replicate (block_size (length data) k * k - length data) (0 :: byte))
      = k * block_size (length data) k"
    using block_size_ge [OF assms, of "length data"] by (simp add: mult.commute)
  then show ?thesis unfolding primary_blocks_def Let_def by (rule concat_chunks)
qed

lemma primary_blocks_length:
  assumes "1 \<le> k" and "b \<in> set (primary_blocks data k)"
  shows "length b = block_size (length data) k"
proof -
  let ?s = "block_size (length data) k"
  from assms(2) obtain i where i: "i < k"
    "b = take ?s (drop (i * ?s) (data @ replicate (?s * k - length data) 0))"
    by (auto simp: primary_blocks_def Let_def)
  have "Suc i * ?s \<le> ?s * k" using i(1) by (metis Suc_leI mult.commute mult_le_mono2)
  then have "?s \<le> ?s * k - i * ?s" by simp
  then show ?thesis
    using i(2) block_size_ge [OF assms(1), of "length data"] by simp
qed

lemma equal_primary_blocks: "1 \<le> k \<Longrightarrow> equal_blocks k (primary_blocks data k)"
  unfolding equal_blocks_def
  by (metis primary_blocks_length hd_in_set length_primary_blocks list.size(3) not_one_le_zero)

section \<open>The three operations under the contract\<close>

text \<open>\<open>shards_from bs S\<close>: \<open>S\<close> is a mapping from distinct indices to the blocks of \<open>bs\<close> there.\<close>

definition shards_from :: "bytes list \<Rightarrow> (nat \<times> bytes) list \<Rightarrow> bool" where
  "shards_from bs S \<longleftrightarrow>
     distinct (map fst S) \<and> list_all (\<lambda>(i, b). i < length bs \<and> b = bs ! i) S"

lemma zfec_okD:
  assumes "zfec_ok Z k m" and "equal_blocks k p"
  shows "1 \<le> k"
    and "set is \<subseteq> {..<k + m} \<Longrightarrow> z_encode Z k (k + m) p is = map (z_block Z k (k + m) p) is"
    and "i < k \<Longrightarrow> z_block Z k (k + m) p i = p ! i"
    and "i < k + m \<Longrightarrow> length (z_block Z k (k + m) p i) = length (hd p)"
    and "set is \<subseteq> {..<k + m} \<Longrightarrow> distinct is \<Longrightarrow> length is = k \<Longrightarrow>
      z_decode Z k (k + m) (map (z_block Z k (k + m) p) is) is = p"
  using assms by (simp_all add: zfec_ok_def)

lemma zfec_ok_k: "zfec_ok Z k m \<Longrightarrow> 1 \<le> k"
  by (simp add: zfec_ok_def)

lemma encode_Inr:
  assumes ok: "zfec_ok Z k m" and enc: "encode Z data k m = Inr bs"
  shows "bs = map (z_block Z k (k + m) (primary_blocks data k)) [0..<k + m]"
proof -
  have "equal_blocks k (primary_blocks data k)" by (rule equal_primary_blocks [OF zfec_ok_k [OF ok]])
  from zfec_okD(2) [OF ok this, of "[0..<k + m]"] have
    "z_encode Z k (k + m) (primary_blocks data k) [0..<k + m] =
       map (z_block Z k (k + m) (primary_blocks data k)) [0..<k + m]"
    by (simp add: atLeast_upt)
  then show ?thesis using enc by (auto simp: encode_def split: if_splits)
qed

lemma map_of_shards_from:
  assumes "shards_from bs S" and "i \<in> fst ` set S"
  shows "map_of S i = Some (bs ! i)" and "i < length bs"
proof -
  from assms(2) obtain b where b: "(i, b) \<in> set S" by auto
  then have "b = bs ! i \<and> i < length bs"
    using assms(1) by (auto simp: shards_from_def list_all_iff)
  with b assms(1) show "map_of S i = Some (bs ! i)" "i < length bs"
    by (auto simp: shards_from_def)
qed

lemma decode_primary_encode:
  assumes ok: "zfec_ok Z k m" and enc: "encode Z data k m = Inr bs"
    and S: "shards_from bs S" and len: "k \<le> length S"
  shows "decode_primary Z S k m = Inr (primary_blocks data k)"
proof -
  let ?p = "primary_blocks data k" and ?is = "take k (sort (map fst S))"
  let ?z = "z_block Z k (k + m) ?p"
  have p: "equal_blocks k ?p" by (rule equal_primary_blocks [OF zfec_ok_k [OF ok]])
  have bs: "bs = map ?z [0..<k + m]" by (rule encode_Inr [OF ok enc])
  have sub: "set ?is \<subseteq> fst ` set S" by (auto dest: in_set_takeD)
  have lt: "i < k + m" if "i \<in> set ?is" for i
    using map_of_shards_from(2) [OF S] sub that bs by fastforce
  have "map (\<lambda>i. the (map_of S i)) ?is = map ?z ?is"
  proof (rule map_cong [OF refl])
    fix x assume x: "x \<in> set ?is"
    with sub have "map_of S x = Some (bs ! x)" by (intro map_of_shards_from(1) [OF S]) blast
    moreover have "bs ! x = ?z x" using lt [OF x] unfolding bs by simp
    ultimately show "the (map_of S x) = ?z x" by simp
  qed
  moreover have "distinct ?is" using S by (simp add: shards_from_def)
  moreover have "length ?is = k" using len by simp
  moreover have "set ?is \<subseteq> {..<k + m}" using lt by blast
  ultimately have "z_decode Z k (k + m) (map (\<lambda>i. the (map_of S i)) ?is) ?is = ?p"
    using zfec_okD(5) [OF ok p, of ?is] by (simp only:)
  moreover have "\<not> list_ex (\<lambda>i. \<not> i < k + m) ?is" using lt by (auto simp: list_ex_iff)
  ultimately show ?thesis using len by (simp add: decode_primary_def Let_def)
qed

lemma decode_encode:
  assumes ok: "zfec_ok Z k m" and enc: "encode Z data k m = Inr bs"
    and S: "shards_from bs S" and len: "k \<le> length S"
  shows "decode Z S k m (length data) = Inr data"
  using decode_primary_encode [OF assms] concat_primary_blocks [OF zfec_ok_k [OF ok], of data]
  by (simp add: decode_def)

lemma regenerate_encode:
  assumes ok: "zfec_ok Z k m" and enc: "encode Z data k m = Inr bs"
    and S: "shards_from bs S" and len: "k \<le> length S" and idx: "set is \<subseteq> {..<k + m}"
  shows "regenerate Z S k m is = Inr (map (\<lambda>i. bs ! i) is)"
proof -
  have "equal_blocks k (primary_blocks data k)" by (rule equal_primary_blocks [OF zfec_ok_k [OF ok]])
  then have "z_encode Z k (k + m) (primary_blocks data k) is = map (\<lambda>i. bs ! i) is"
    using zfec_okD(2) [OF ok _ idx] encode_Inr [OF ok enc] idx by auto
  then show ?thesis using decode_primary_encode [OF ok enc S len] by (simp add: regenerate_def)
qed

lemma encode_total:
  assumes "zfec_ok Z k m" and "data \<noteq> []"
  shows "\<exists>bs. encode Z data k m = Inr bs \<and> length bs = k + m"
proof -
  obtain bs where bs: "encode Z data k m = Inr bs"
    using assms zfec_ok_k [OF assms(1)] by (simp add: encode_def)
  then show ?thesis using encode_Inr [OF assms(1) bs] by simp
qed

section \<open>The interface of an erasure code\<close>

text \<open>
  What \<open>services/files.py\<close> and \<open>services/maintenance.py\<close> rely on, and what follows from it for
  them: a file survives the loss of any m of its blocks, and regenerating the lost ones restores
  exactly the original block list.
\<close>

definition survivors :: "nat list \<Rightarrow> bytes list \<Rightarrow> (nat \<times> bytes) list" where
  "survivors lost bs = filter (\<lambda>(i, _). i \<notin> set lost) (zip [0..<length bs] bs)"

lemma shards_from_zip: "shards_from bs (zip [0..<length bs] bs)"
  by (auto simp: shards_from_def list_all_iff in_set_zip)

lemma shards_from_filter: "shards_from bs S \<Longrightarrow> shards_from bs (filter P S)"
  by (auto simp: shards_from_def list_all_iff distinct_map_filter)

lemma shards_from_survivors: "shards_from bs (survivors lost bs)"
  unfolding survivors_def by (rule shards_from_filter [OF shards_from_zip])

lemma length_survivors: "length bs \<le> length (survivors lost bs) + length lost"
proof -
  have "length (survivors lost bs) = length (filter (\<lambda>i. i \<notin> set lost) [0..<length bs])"
  proof -
    have "map fst (survivors lost bs) = filter (\<lambda>i. i \<notin> set lost) (map fst (zip [0..<length bs] bs))"
      by (simp only: survivors_def filter_map case_prod_unfold comp_def)
    also have "map fst (zip [0..<length bs] bs) = [0..<length bs]" by simp
    finally show ?thesis by (metis length_map)
  qed
  also have "\<dots> = card ({..<length bs} - set lost)"
    by (subst distinct_length_filter) (auto intro!: arg_cong [where f = card])
  also have "\<dots> \<ge> length bs - length lost"
    by (metis card_length card_lessThan diff_card_le_card_Diff finite_set diff_le_mono2 le_trans)
  finally show ?thesis by linarith
qed

locale erasure_code =
  fixes ok :: "'z \<Rightarrow> nat \<Rightarrow> nat \<Rightarrow> bool"
    and enc :: "'z \<Rightarrow> bytes \<Rightarrow> nat \<Rightarrow> nat \<Rightarrow> 'e + bytes list"
    and dec :: "'z \<Rightarrow> (nat \<times> bytes) list \<Rightarrow> nat \<Rightarrow> nat \<Rightarrow> nat \<Rightarrow> 'e + bytes"
    and regen :: "'z \<Rightarrow> (nat \<times> bytes) list \<Rightarrow> nat \<Rightarrow> nat \<Rightarrow> nat list \<Rightarrow> 'e + bytes list"
  assumes enc_total: "ok Z k m \<Longrightarrow> data \<noteq> [] \<Longrightarrow> \<exists>bs. enc Z data k m = Inr bs \<and> length bs = k + m"
    and dec_enc: "ok Z k m \<Longrightarrow> enc Z data k m = Inr bs \<Longrightarrow> shards_from bs S \<Longrightarrow> k \<le> length S \<Longrightarrow>
      dec Z S k m (length data) = Inr data"
    and regen_enc: "ok Z k m \<Longrightarrow> enc Z data k m = Inr bs \<Longrightarrow> shards_from bs S \<Longrightarrow> k \<le> length S \<Longrightarrow>
      set is \<subseteq> {..<k + m} \<Longrightarrow> regen Z S k m is = Inr (map (\<lambda>i. bs ! i) is)"
begin

lemma enc_length: "ok Z k m \<Longrightarrow> data \<noteq> [] \<Longrightarrow> enc Z data k m = Inr bs \<Longrightarrow> length bs = k + m"
  using enc_total by fastforce

lemma loses_m:
  assumes "ok Z k m" and "data \<noteq> []" and "enc Z data k m = Inr bs" and "length lost \<le> m"
  shows "dec Z (survivors lost bs) k m (length data) = Inr data"
    and "set lost \<subseteq> {..<k + m} \<Longrightarrow> regen Z (survivors lost bs) k m lost = Inr (map (\<lambda>i. bs ! i) lost)"
proof -
  have "k \<le> length (survivors lost bs)"
    using length_survivors [of bs lost] enc_length [OF assms(1-3)] assms(4) by linarith
  then show "dec Z (survivors lost bs) k m (length data) = Inr data"
    "set lost \<subseteq> {..<k + m} \<Longrightarrow> regen Z (survivors lost bs) k m lost = Inr (map (\<lambda>i. bs ! i) lost)"
    using dec_enc regen_enc assms shards_from_survivors by blast+
qed

end

interpretation ec: erasure_code zfec_ok encode decode regenerate
  by unfold_locales (rule encode_total decode_encode regenerate_encode; assumption)+

section \<open>A concrete codec\<close>

text \<open>
  A codec that satisfies the contract at k = 2, m = 1 (one parity block, the exclusive or of the
  two data blocks). It only serves to show that the hypotheses of the theorems can hold together.
\<close>

definition xor_bytes :: "bytes \<Rightarrow> bytes \<Rightarrow> bytes" where
  "xor_bytes a b = map2 (XOR) a b"

definition parity_block :: "bytes list \<Rightarrow> nat \<Rightarrow> bytes" where
  "parity_block p i = (if i < 2 then p ! i else xor_bytes (p ! 0) (p ! 1))"

definition parity_codec :: zfec where
  "parity_codec =
     \<lparr>z_encode = (\<lambda>k n p is. map (parity_block p) is),
      z_decode = (\<lambda>k n bs is.
        (let m = map_of (zip is bs)
         in case (m 0, m 1, m 2) of
              (Some a, Some b, _) \<Rightarrow> [a, b]
            | (Some a, None, Some c) \<Rightarrow> [a, xor_bytes a c]
            | (None, Some b, Some c) \<Rightarrow> [xor_bytes b c, b]
            | _ \<Rightarrow> []))\<rparr>"

lemma xor_bytes_cancel:
  "length a = length b \<Longrightarrow> xor_bytes a (xor_bytes a b) = b"
  "length a = length b \<Longrightarrow> xor_bytes b (xor_bytes a b) = a"
  by (auto simp: xor_bytes_def intro!: nth_equalityI simp: xor.left_commute)

lemma length_xor_bytes [simp]: "length a = length b \<Longrightarrow> length (xor_bytes a b) = length b"
  by (simp add: xor_bytes_def)

lemma parity_codec_decode:
  assumes "length (a :: bytes) = length b" and "set is \<subseteq> {..<3}" and "distinct is" and "length is = 2"
  shows "z_decode parity_codec 2 3 (map (parity_block [a, b]) is) is = [a, b]"
proof -
  from assms(4) obtain i j where ij: "is = [i, j]"
    by (auto simp: numeral_2_eq_2 length_Suc_conv)
  with assms(2,3) have "i < 3" "j < 3" "i \<noteq> j" by auto
  then have "is = [0, 1] \<or> is = [0, 2] \<or> is = [1, 0] \<or> is = [1, 2] \<or> is = [2, 0] \<or> is = [2, 1]"
    unfolding ij by auto
  then show ?thesis
    by (elim disjE)
       (simp_all add: parity_codec_def parity_block_def xor_bytes_cancel [OF assms(1)])
qed

lemma parity_codec_ok: "zfec_ok parity_codec 2 1"
proof -
  have "set is \<subseteq> {..<3} \<and> distinct is \<and> length is = 2 \<longrightarrow>
      z_decode parity_codec 2 3 (map (parity_block p) is) is = p"
    and "length (parity_block p i) = length (hd p)"
    if "equal_blocks 2 p" for p "is" i
  proof -
    from that have "length p = 2" by (simp add: equal_blocks_def)
    then obtain a b where ab: "p = [a, b]"
      by (auto simp: numeral_2_eq_2 length_Suc_conv)
    moreover from that ab have "length a = length b" by (simp add: equal_blocks_def)
    ultimately have p: "p = [a, b]" "length a = length b" by blast+
    show "set is \<subseteq> {..<3} \<and> distinct is \<and> length is = 2 \<longrightarrow>
      z_decode parity_codec 2 3 (map (parity_block p) is) is = p"
      unfolding p(1) using parity_codec_decode [OF p(2)] by blast
    show "length (parity_block p i) = length (hd p)"
      using p by (auto simp: parity_block_def nth_Cons split: nat.split)
  qed
  moreover have "z_block parity_codec 2 3 p = parity_block p" for p
    by (rule ext) (simp add: z_block_def parity_codec_def)
  moreover have "z_encode parity_codec 2 3 p is = map (parity_block p) is" for p "is"
    by (simp add: parity_codec_def)
  ultimately show ?thesis
    by (simp add: zfec_ok_def parity_block_def numeral_3_eq_3 [symmetric])
qed

section \<open>Properties\<close>

text \<open>
  Encoding non-empty data yields k + m blocks of one common size, the first k of which are the
  data cut into pieces: joined they are the data followed by fewer than k padding zeros per
  block, so a download from the data shards is a concatenation.
\<close>
theorem encode_layout:
  assumes "zfec_ok Z k m" and "data \<noteq> []"
  shows "\<exists>bs. encode Z data k m = Inr bs \<and> length bs = k + m
    \<and> (\<forall>b \<in> set bs. length b = block_size (length data) k)
    \<and> concat (take k bs) = data @ replicate (block_size (length data) k * k - length data) 0
    \<and> block_size (length data) k * k < length data + k"
proof -
  let ?p = "primary_blocks data k"
  have k: "1 \<le> k" by (rule zfec_ok_k [OF assms(1)])
  obtain bs where bs: "encode Z data k m = Inr bs" "length bs = k + m"
    using encode_total [OF assms] by blast
  have p: "equal_blocks k ?p" by (rule equal_primary_blocks [OF k])
  have e: "bs = map (z_block Z k (k + m) ?p) [0..<k + m]" by (rule encode_Inr [OF assms(1) bs(1)])
  have hd: "length (hd ?p) = block_size (length data) k"
    by (rule primary_blocks_length [OF k]) (metis hd_in_set k length_primary_blocks list.size(3) not_one_le_zero)
  have "take k bs = ?p"
    by (rule nth_equalityI) (simp_all add: e zfec_okD(3) [OF assms(1) p])
  moreover have "\<forall>b \<in> set bs. length b = block_size (length data) k"
    using hd by (auto simp: e zfec_okD(4) [OF assms(1) p])
  moreover have "block_size (length data) k * k < length data + k"
    unfolding block_size_def using div_times_less_eq_dividend [of "length data + k - 1" k] k by linarith
  ultimately show ?thesis using bs concat_primary_blocks [OF k, of data] by auto
qed

theorem encode_layout_witness:
  "\<exists>bs. encode parity_codec [1, 2, 3] 2 1 = Inr bs \<and> length bs = 3
    \<and> concat (take 2 bs) = [1, 2, 3, 0]"
  using encode_layout [OF parity_codec_ok, of "[1, 2, 3]"] by (auto simp: block_size_def)

text \<open>
  C26. Any k of the blocks give the data back: however many blocks a download managed to collect,
  from whichever indices and in whatever order, once it holds at least k distinct ones the
  decoder returns exactly the bytes that were encoded; with fewer it reports how many it has.
\<close>
theorem decode_any_k:
  assumes "zfec_ok Z k m" and "encode Z data k m = Inr bs" and "shards_from bs S"
  shows "decode Z S k m (length data)
    = (if k \<le> length S then Inr data else Inl (NotEnoughShards k (length S)))"
  using ec.dec_enc [OF assms] by (simp add: decode_def decode_primary_def)

theorem decode_any_k_witness:
  "decode parity_codec [(2, [1 XOR 3, 2 XOR 0]), (1, [3, 0])] 2 1 3 = Inr [1, 2, 3]"
proof -
  have e: "encode parity_codec [1, 2, 3] 2 1 = Inr [[1, 2], [3, 0], [1 XOR 3, 2 XOR 0]]"
    by (simp add: encode_def primary_blocks_def block_size_def parity_codec_def parity_block_def
        xor_bytes_def Let_def upt_conv_Cons)
  have s: "shards_from [[1, 2], [3, 0], [1 XOR 3, 2 XOR 0]] [(2, [1 XOR 3, 2 XOR 0]), (1, [3, 0])]"
    by (simp add: shards_from_def)
  show ?thesis using decode_any_k [OF parity_codec_ok e s] by (simp add: numeral_3_eq_3)
qed

text \<open>
  Losing any m blocks is repairable: from the survivors, the decoder still returns the data and
  regenerating the lost indices returns exactly the original blocks at those indices, so a
  rebuilt shard has the checksum recorded for the one it replaces.
\<close>
theorem regenerate_after_loss:
  assumes "zfec_ok Z k m" and "data \<noteq> []" and "encode Z data k m = Inr bs"
    and "length lost \<le> m" and "set lost \<subseteq> {..<k + m}"
  shows "decode Z (survivors lost bs) k m (length data) = Inr data
    \<and> regenerate Z (survivors lost bs) k m lost = Inr (map (\<lambda>i. bs ! i) lost)"
  using ec.loses_m [OF assms(1-4)] assms(5) by blast

theorem regenerate_after_loss_witness:
  "\<exists>bs. encode parity_codec [1, 2, 3] 2 1 = Inr bs
    \<and> regenerate parity_codec (survivors [0] bs) 2 1 [0] = Inr [bs ! 0]"
proof -
  obtain bs where bs: "encode parity_codec [1, 2, 3] 2 1 = Inr bs"
    using encode_total [OF parity_codec_ok, of "[1, 2, 3]"] by auto
  show ?thesis using regenerate_after_loss [OF parity_codec_ok _ bs, of "[0]"] bs by simp
qed

end
