(* ===== verification/Config.thy ===== *)
theory Config
  imports PyStr
begin

text \<open>
  \<open>config.py\<close>: the runtime settings, the validation they pass before the service starts, and the
  table of signing keys. Loading the fields from the environment is pydantic's; the model starts
  from the field values. A dictionary is an association list in insertion order.
\<close>

definition MAX_TOTAL_SHARDS :: int where
  "MAX_TOTAL_SHARDS = 256"

definition MIN_SECRET_LENGTH :: nat where
  "MIN_SECRET_LENGTH = 32"

record settings =
  database_url :: pystr
  secret_key :: pystr
  secret_key_id :: pystr
  previous_secret_keys :: pystr
  node_token :: pystr
  shard_data_count :: int
  shard_parity_count :: int
  max_upload_bytes :: int
  max_concurrent_transfers :: int
  min_ttl_seconds :: int
  max_ttl_seconds :: int
  download_rate_per_minute :: int
  api_rate_per_minute :: int
  node_failure_threshold :: int
  stale_upload_seconds :: int
  repair_grace_seconds :: int
  scrub_batch_size :: int

datatype config_error =
    FieldConstraint
  | TooManyShards
  | TtlRange
  | KeyListEntry
  | DuplicateKeyId pystr
  | KeyIdReused

text \<open>\<open>KEY_ID_PATTERN\<close>, matched against the whole string.\<close>

definition key_id_char :: "nat \<Rightarrow> bool" where
  "key_id_char c \<longleftrightarrow>
     (65 \<le> c \<and> c \<le> 90) \<or> (97 \<le> c \<and> c \<le> 122) \<or> is_digit c \<or> c = 95 \<or> c = 45"

definition key_id_ok :: "pystr \<Rightarrow> bool" where
  "key_id_ok s \<longleftrightarrow> 1 \<le> length s \<and> length s \<le> 32 \<and> list_all key_id_char s"

text \<open>The loop of \<open>_parse_key_list\<close> over the entries.\<close>

fun parse_key_entries ::
  "pystr list \<Rightarrow> (pystr \<times> pystr) list \<Rightarrow> config_error + (pystr \<times> pystr) list" where
  "parse_key_entries [] keys = Inr keys"
| "parse_key_entries (entry # es) keys =
     (case py_partition 58 entry of (kid, sep, key) \<Rightarrow>
        if \<not> sep \<or> \<not> key_id_ok kid \<or> length key < MIN_SECRET_LENGTH then Inl KeyListEntry
        else if kid \<in> fst ` set keys then Inl (DuplicateKeyId kid)
        else parse_key_entries es (dict_set kid key keys))"

definition parse_key_list :: "pystr \<Rightarrow> config_error + (pystr \<times> pystr) list" where
  "parse_key_list raw =
     parse_key_entries (filter (\<lambda>p. p \<noteq> []) (map py_strip (py_split 44 raw))) []"

definition shard_total_count :: "settings \<Rightarrow> int" where
  "shard_total_count s = shard_data_count s + shard_parity_count s"

definition signing_keys :: "settings \<Rightarrow> config_error + (pystr \<times> pystr) list" where
  "signing_keys s =
     (case parse_key_list (previous_secret_keys s) of
        Inl e \<Rightarrow> Inl e
      | Inr keys \<Rightarrow> Inr (dict_set (secret_key_id s) (secret_key s) keys))"

text \<open>The \<open>Field\<close> constraints of the class.\<close>

definition fields_ok :: "settings \<Rightarrow> bool" where
  "fields_ok s \<longleftrightarrow>
     MIN_SECRET_LENGTH \<le> length (secret_key s) \<and> key_id_ok (secret_key_id s) \<and>
     MIN_SECRET_LENGTH \<le> length (node_token s) \<and>
     1 \<le> shard_data_count s \<and> 1 \<le> shard_parity_count s \<and>
     0 < max_upload_bytes s \<and> 1 \<le> max_concurrent_transfers s \<and>
     1 \<le> min_ttl_seconds s \<and> 1 \<le> max_ttl_seconds s \<and>
     1 \<le> download_rate_per_minute s \<and> 1 \<le> api_rate_per_minute s \<and>
     1 \<le> node_failure_threshold s \<and> 60 \<le> stale_upload_seconds s \<and>
     0 \<le> repair_grace_seconds s \<and> 0 \<le> scrub_batch_size s"

definition check_ranges :: "settings \<Rightarrow> config_error + settings" where
  "check_ranges s =
     (if shard_total_count s > MAX_TOTAL_SHARDS then Inl TooManyShards
      else if min_ttl_seconds s > max_ttl_seconds s then Inl TtlRange
      else
        (case parse_key_list (previous_secret_keys s) of
           Inl e \<Rightarrow> Inl e
         | Inr keys \<Rightarrow> if secret_key_id s \<in> fst ` set keys then Inl KeyIdReused else Inr s))"

definition load_settings :: "settings \<Rightarrow> config_error + settings" where
  "load_settings s = (if fields_ok s then check_ranges s else Inl FieldConstraint)"

section \<open>Key lists\<close>

definition key_table_ok :: "(pystr \<times> pystr) list \<Rightarrow> bool" where
  "key_table_ok keys \<longleftrightarrow>
     distinct (map fst keys) \<and>
     list_all (\<lambda>(kid, key). key_id_ok kid \<and> MIN_SECRET_LENGTH \<le> length key) keys"

lemma key_table_ok_dict_set:
  assumes "key_table_ok keys" and "key_id_ok kid" and "MIN_SECRET_LENGTH \<le> length key"
  shows "key_table_ok (dict_set kid key keys)"
proof -
  have "set (dict_set kid key keys) \<subseteq> insert (kid, key) (set keys)"
    by (induction kid key keys rule: dict_set.induct) auto
  with assms show ?thesis
    by (auto simp: key_table_ok_def list_all_iff distinct_dict_set)
qed

lemma parse_key_entries_ok:
  "key_table_ok keys \<Longrightarrow> parse_key_entries es keys = Inr ks \<Longrightarrow> key_table_ok ks"
proof (induction es keys rule: parse_key_entries.induct)
  case (2 entry es keys)
  then show ?case
    by (auto split: prod.splits if_splits simp: key_table_ok_dict_set not_less)
qed simp

lemma parse_key_list_ok: "parse_key_list raw = Inr ks \<Longrightarrow> key_table_ok ks"
  unfolding parse_key_list_def
  by (erule parse_key_entries_ok [rotated]) (simp add: key_table_ok_def)

lemma key_id_ok_char: "key_id_ok kid \<Longrightarrow> c \<in> set kid \<Longrightarrow> key_id_char c"
  by (simp add: key_id_ok_def list_all_iff)

lemma key_id_ok_ascii: "key_id_ok kid \<Longrightarrow> is_ascii kid"
  by (fastforce simp: is_ascii_def list_all_iff key_id_char_def is_digit_def dest: key_id_ok_char)

lemma key_id_ok_free: "key_id_ok kid \<Longrightarrow> 10 \<notin> set kid \<and> 44 \<notin> set kid \<and> 58 \<notin> set kid"
  by (auto simp: key_id_char_def is_digit_def dest: key_id_ok_char)

text \<open>The text an operator writes for a table of retired keys: \<open>kid:key,kid:key\<close>.\<close>

fun join_keys :: "(pystr \<times> pystr) list \<Rightarrow> pystr" where
  "join_keys [] = []"
| "join_keys [(kid, key)] = kid @ 58 # key"
| "join_keys ((kid, key) # ks) = kid @ 58 # key @ 44 # join_keys ks"

definition plain_key :: "pystr \<Rightarrow> bool" where
  "plain_key key \<longleftrightarrow> 44 \<notin> set key \<and> \<not> py_isspace (last key)"

lemma split_join_keys:
  "ks \<noteq> [] \<Longrightarrow> key_table_ok ks \<Longrightarrow> list_all (\<lambda>(_, key). plain_key key) ks \<Longrightarrow>
    py_split 44 (join_keys ks) = map (\<lambda>(kid, key). kid @ 58 # key) ks"
proof (induction ks rule: join_keys.induct)
  case (2 kid key)
  then have "44 \<notin> set (kid @ 58 # key)"
    by (auto simp: key_table_ok_def plain_key_def dest: key_id_ok_free)
  then show ?case by (simp add: py_split_free)
next
  case (3 kid key v va)
  then have "44 \<notin> set (kid @ 58 # key)"
    by (auto simp: key_table_ok_def plain_key_def dest: key_id_ok_free)
  from py_split_append [OF this, of "join_keys (v # va)"] 3 show ?case
    by (auto simp: key_table_ok_def)
qed simp

lemma strip_entry:
  assumes "key_id_ok kid" and "key \<noteq> []" and "\<not> py_isspace (last key)"
  shows "py_strip (kid @ 58 # key) = kid @ 58 # key"
proof -
  have "kid \<noteq> []" using assms(1) by (auto simp: key_id_ok_def)
  then have "key_id_char (hd kid)" using key_id_ok_char [OF assms(1), of "hd kid"] by simp
  then have "\<not> py_isspace (hd kid)" by (auto simp: key_id_char_def is_digit_def py_isspace_def)
  then show ?thesis
    unfolding py_strip_def using assms \<open>kid \<noteq> []\<close> by (intro strip_by_id) simp
qed

lemma parse_rendered_entries:
  assumes "key_table_ok (done @ ks)"
  shows "parse_key_entries (map (\<lambda>(kid, key). kid @ 58 # key) ks) done = Inr (done @ ks)"
  using assms
proof (induction ks arbitrary: "done")
  case (Cons p ks)
  obtain kid key where p: "p = (kid, key)" by (cases p)
  with Cons.prems have k: "key_id_ok kid" "\<not> length key < MIN_SECRET_LENGTH" "kid \<notin> fst ` set done"
    by (auto simp: key_table_ok_def image_iff)
  then have "py_partition 58 (kid @ 58 # key) = (kid, True, key)"
    by (intro py_partition_free) (blast dest: key_id_ok_free)
  moreover have "parse_key_entries (map (\<lambda>(kid, key). kid @ 58 # key) ks) (done @ [(kid, key)])
      = Inr ((done @ [(kid, key)]) @ ks)"
    by (rule Cons.IH) (use Cons.prems p in simp)
  ultimately show ?case using k p by (simp add: dict_set_new)
qed simp

section \<open>Properties\<close>

text \<open>
  C40. Settings that load are usable: the erasure parameters are within zfec's limits, the TTL range
  is a range of positive seconds, and the signing-key table exists, has distinct well-formed key
  ids and keys of at least 32 characters, signs with the current key under its id, and still
  holds every retired key under its own id.
\<close>
theorem load_settings_usable:
  assumes "load_settings s = Inr t"
  shows "t = s \<and> 1 \<le> shard_data_count s \<and> 1 \<le> shard_parity_count s \<and> shard_total_count s \<le> 256
    \<and> 1 \<le> min_ttl_seconds s \<and> min_ttl_seconds s \<le> max_ttl_seconds s
    \<and> (\<exists>retired keys. parse_key_list (previous_secret_keys s) = Inr retired
        \<and> signing_keys s = Inr keys \<and> key_table_ok keys
        \<and> map_of keys = (map_of retired)(secret_key_id s \<mapsto> secret_key s)
        \<and> secret_key_id s \<notin> fst ` set retired)"
proof -
  from assms have f: "fields_ok s" and c: "check_ranges s = Inr t"
    by (auto simp: load_settings_def split: if_splits)
  from c obtain retired where r: "parse_key_list (previous_secret_keys s) = Inr retired"
    "secret_key_id s \<notin> fst ` set retired" "t = s" "shard_total_count s \<le> 256"
    "min_ttl_seconds s \<le> max_ttl_seconds s"
    by (auto simp: check_ranges_def MAX_TOTAL_SHARDS_def not_less split: if_splits sum.splits)
  have "key_table_ok (dict_set (secret_key_id s) (secret_key s) retired)"
    using f parse_key_list_ok [OF r(1)] by (simp add: fields_ok_def key_table_ok_dict_set)
  with r f show ?thesis by (simp add: signing_keys_def fields_ok_def)
qed

definition example_settings :: settings where
  "example_settings =
     \<lparr>database_url = ustr ''postgresql://db'', secret_key = replicate 32 97, secret_key_id = ustr ''k2'',
      previous_secret_keys = ustr ''k1:'' @ replicate 32 98, node_token = replicate 32 99,
      shard_data_count = 2, shard_parity_count = 1, max_upload_bytes = 100,
      max_concurrent_transfers = 4, min_ttl_seconds = 60, max_ttl_seconds = 604800,
      download_rate_per_minute = 60, api_rate_per_minute = 120, node_failure_threshold = 3,
      stale_upload_seconds = 900, repair_grace_seconds = 1800, scrub_batch_size = 50\<rparr>"

text \<open>
  A table of retired keys survives being written to the environment variable: for any table
  with distinct valid ids and keys of at least 32 characters without commas or trailing
  white space, parsing its \<open>kid:key,kid:key\<close> rendering returns the same table, also when keys
  contain colons.
\<close>
theorem parse_key_list_join:
  assumes "key_table_ok ks" and "list_all (\<lambda>(_, key). plain_key key) ks"
  shows "parse_key_list (join_keys ks) = Inr ks"
proof (cases "ks = []")
  case False
  have ne: "key \<noteq> []" "key_id_ok kid" "\<not> py_isspace (last key)" if "(kid, key) \<in> set ks" for kid key
    using assms that by (auto simp: key_table_ok_def list_all_iff plain_key_def MIN_SECRET_LENGTH_def)
  let ?es = "map (\<lambda>(kid, key). kid @ 58 # key) ks"
  have "map py_strip (py_split 44 (join_keys ks)) = ?es"
    unfolding split_join_keys [OF False assms] using strip_entry ne by auto
  moreover have "filter (\<lambda>p. p \<noteq> []) ?es = ?es" by (auto simp: filter_id_conv)
  ultimately show ?thesis
    using parse_rendered_entries [of "[]" ks] assms(1) by (simp add: parse_key_list_def)
qed (simp add: parse_key_list_def py_strip_def strip_by_def)

theorem parse_key_list_join_witness:
  "parse_key_list (ustr ''k1:'' @ replicate 32 97) = Inr [(ustr ''k1'', replicate 32 97)]"
proof -
  have "key_table_ok [(ustr ''k1'', replicate 32 97)]"
    by (simp add: key_table_ok_def key_id_ok_def key_id_char_def is_digit_def MIN_SECRET_LENGTH_def)
  moreover have "list_all (\<lambda>(_, key). plain_key key) [(ustr ''k1'', replicate 32 97)]"
    by (simp add: plain_key_def py_isspace_def last_replicate)
  ultimately show ?thesis
    using parse_key_list_join [of "[(ustr ''k1'', replicate 32 97)]"] by simp
qed

lemma example_retired: "parse_key_list (previous_secret_keys example_settings) = Inr [(ustr ''k1'', replicate 32 98)]"
proof -
  have "key_table_ok [(ustr ''k1'', replicate 32 98)]"
    by (simp add: key_table_ok_def key_id_ok_def key_id_char_def is_digit_def MIN_SECRET_LENGTH_def)
  then have "parse_key_entries (map (\<lambda>(kid, key). kid @ 58 # key) [(ustr ''k1'', replicate 32 98)]) []
      = Inr [(ustr ''k1'', replicate 32 98)]"
    using parse_rendered_entries [of "[]" "[(ustr ''k1'', replicate 32 98)]"] by simp
  moreover have "filter (\<lambda>p. p \<noteq> []) (map py_strip (py_split 44 (ustr ''k1:'' @ replicate 32 98)))
      = [ustr ''k1'' @ 58 # replicate 32 98]"
    by (simp add: py_split_free py_strip_def strip_by_def py_isspace_def)
  ultimately show ?thesis by (simp add: parse_key_list_def example_settings_def)
qed

lemma example_settings_load: "load_settings example_settings = Inr example_settings"
  using example_retired
  by (simp add: load_settings_def check_ranges_def fields_ok_def MIN_SECRET_LENGTH_def key_id_ok_def
      key_id_char_def is_digit_def shard_total_count_def MAX_TOTAL_SHARDS_def example_settings_def)

theorem load_settings_usable_witness:
  "load_settings example_settings = Inr example_settings \<and> shard_total_count example_settings \<le> 256"
  using example_settings_load load_settings_usable [OF example_settings_load] by blast

end
