(* ===== verification/Uuids.thy ===== *)
theory Uuids
  imports PyStr
begin

text \<open>
  \<open>uuid.UUID\<close> of the standard library: a 128-bit value, its canonical text \<open>str(u)\<close>, and the
  lenient parser \<open>uuid.UUID(s)\<close> (URN prefixes, braces, hyphens anywhere, and whatever
  \<open>int(s, 16)\<close> accepts). Both services accept an identifier only when its lower-cased text is the
  canonical text of the parsed value; \<open>canonical_uuid\<close> is that test.
\<close>

type_synonym uuid = "128 word"

definition uuid_str :: "uuid \<Rightarrow> pystr" where
  "uuid_str u =
     (let h = hexw 32 (unat u)
      in take 8 h @ [45] @ take 4 (drop 8 h) @ [45] @ take 4 (drop 12 h) @ [45]
         @ take 4 (drop 16 h) @ [45] @ drop 20 h)"

text \<open>The digits of \<open>int(s, 16)\<close>: single underscores may stand between digits; the flag says
  whether the character before was a digit.\<close>

fun int16_digits :: "nat \<Rightarrow> bool \<Rightarrow> pystr \<Rightarrow> nat option" where
  "int16_digits a p [] = (if p then Some a else None)"
| "int16_digits a p (c # s) =
     (if c = 95 then (if p then int16_digits a False s else None)
      else (case hexval c of None \<Rightarrow> None | Some d \<Rightarrow> int16_digits (a * 16 + d) True s))"

definition c_isspace :: "nat \<Rightarrow> bool" where
  "c_isspace c \<longleftrightarrow> (9 \<le> c \<and> c \<le> 13) \<or> c = 32"

definition drop_0x :: "pystr \<Rightarrow> pystr" where
  "drop_0x s =
     (if length s \<ge> 2 \<and> s ! 0 = 48 \<and> (s ! 1 = 120 \<or> s ! 1 = 88)
      then (let r = drop 2 s in if r \<noteq> [] \<and> hd r = 95 then tl r else r)
      else s)"

text \<open>\<open>int(s, 16)\<close>; \<open>None\<close> is \<open>ValueError\<close>.\<close>

definition py_int16 :: "ucd \<Rightarrow> pystr \<Rightarrow> int option" where
  "py_int16 U s =
     (if \<not> is_ascii s then ucd_int16 U s
      else
        (let t = strip_by c_isspace s;
             neg = (t \<noteq> [] \<and> hd t = 45);
             b = (if t \<noteq> [] \<and> (hd t = 45 \<or> hd t = 43) then tl t else t)
         in (case int16_digits 0 False (drop_0x b) of
               None \<Rightarrow> None
             | Some n \<Rightarrow> Some (if neg then - int n else int n))))"

text \<open>\<open>uuid.UUID(s)\<close>; \<open>None\<close> is \<open>ValueError\<close>.\<close>

definition uuid_parse :: "ucd \<Rightarrow> pystr \<Rightarrow> uuid option" where
  "uuid_parse U s =
     (let h = py_remove (ustr ''uuid:'') (py_remove (ustr ''urn:'') s);
          h = py_remove [45] (strip_by (\<lambda>c. c = 123 \<or> c = 125) h)
      in if length h \<noteq> 32 then None
         else (case py_int16 U h of
                 None \<Rightarrow> None
               | Some i \<Rightarrow> if 0 \<le> i \<and> i < 2 ^ 128 then Some (of_int i) else None))"

definition canonical_uuid :: "ucd \<Rightarrow> pystr \<Rightarrow> uuid option" where
  "canonical_uuid U s =
     (case uuid_parse U s of
        None \<Rightarrow> None
      | Some u \<Rightarrow> if uuid_str u = py_lower U s then Some u else None)"

section \<open>The canonical text\<close>

lemma split_drop: "take n (drop m h) @ drop (n + m) h = drop m h"
  by (metis append_take_drop_id drop_drop)

lemma uuid_str_hex: "filter (\<lambda>c. c \<noteq> 45) (uuid_str u) = hexw 32 (unat u)"
proof -
  let ?h = "hexw 32 (unat u)"
  have n: "\<And>c. c \<in> set ?h \<Longrightarrow> c \<noteq> 45"
    using hexw_lhex by (fastforce simp: is_lhex_def)
  then have "\<And>c i j. c \<in> set (take i (drop j ?h)) \<Longrightarrow> c \<noteq> 45"
    by (blast dest: in_set_takeD in_set_dropD)
  then have f: "\<And>i j. filter (\<lambda>c. c \<noteq> 45) (take i (drop j ?h)) = take i (drop j ?h)"
    by (simp add: filter_id_conv)
  have d: "\<And>j. filter (\<lambda>c. c \<noteq> 45) (drop j ?h) = drop j ?h"
    using n by (simp add: filter_id_conv) (blast dest: in_set_dropD)
  have "filter (\<lambda>c. c \<noteq> 45) (uuid_str u) =
      take 8 ?h @ take 4 (drop 8 ?h) @ take 4 (drop 12 ?h) @ take 4 (drop 16 ?h) @ drop 20 ?h"
    using f [of 8 0] f d by (simp only: uuid_str_def Let_def filter_append drop_0) simp
  also have "\<dots> = ?h"
    using split_drop [of 4 8 ?h] split_drop [of 4 12 ?h] split_drop [of 4 16 ?h]
    by simp
  finally show ?thesis .
qed

lemma length_uuid_str [simp]: "length (uuid_str u) = 36"
  by (simp add: uuid_str_def Let_def)

lemma uuid_str_chars: "c \<in> set (uuid_str u) \<Longrightarrow> is_lhex c \<or> c = 45"
  by (auto simp: uuid_str_def Let_def dest: in_set_takeD in_set_dropD hexw_lhex)

lemma uuid_str_inj: "uuid_str u = uuid_str v \<Longrightarrow> u = v"
proof -
  assume "uuid_str u = uuid_str v"
  then have "hexw 32 (unat u) = hexw 32 (unat v)" by (metis uuid_str_hex)
  moreover have "unat w < 16 ^ 32" for w :: uuid
    by (rule order.strict_trans2 [OF unsigned_less]) simp
  ultimately have "unat u = unat v" by (auto dest: hexw_inj)
  then show "u = v" by (simp add: word_unat_eq_iff)
qed

lemma uuid_str_eq [simp]: "uuid_str u = uuid_str v \<longleftrightarrow> u = v"
  by (auto dest: uuid_str_inj)

lemma uuid_str_ascii [simp]: "is_ascii (uuid_str u)"
  by (auto simp: is_ascii_def list_all_iff is_lhex_def dest!: uuid_str_chars)

lemma uuid_str_lower [simp]: "py_lower U (uuid_str u) = uuid_str u"
  by (rule py_lower_ascii_id) (auto simp: is_lhex_def dest!: uuid_str_chars)

lemma uuid_str_no_slash: "47 \<notin> set (uuid_str u)" and uuid_str_no_dot: "46 \<notin> set (uuid_str u)"
  and uuid_str_no_nl: "10 \<notin> set (uuid_str u)"
  by (auto simp: is_lhex_def dest!: uuid_str_chars)

lemma uuid_str_ne [simp]: "uuid_str u \<noteq> []"
  by (metis length_uuid_str list.size(3) zero_neq_numeral)

section \<open>The parser on canonical text\<close>

lemma int16_hexw:
  "int16_digits a p (hexw w n @ s) = int16_digits (a * 16 ^ w + n mod 16 ^ w) (0 < w \<or> p) s"
proof (induction w n arbitrary: s rule: hexw.induct)
  case (2 w n)
  have "hexdigit (n mod 16) \<noteq> 95" by (auto simp: hexdigit_def)
  have eq: "a * 16 ^ w * 16 + n div 16 mod 16 ^ w * 16 + n mod 16
      = a * (16 * 16 ^ w) + n mod (16 * 16 ^ w)"
    by (simp add: mod_mult2_eq)
  from \<open>hexdigit (n mod 16) \<noteq> 95\<close> 2 show ?case by (simp add: eq)
qed simp

lemma py_int16_hexw: "0 < w \<Longrightarrow> py_int16 U (hexw w n) = Some (int (n mod 16 ^ w))"
proof -
  assume w: "0 < w"
  let ?h = "hexw w n"
  have lh: "\<And>c. c \<in> set ?h \<Longrightarrow> is_lhex c" by (rule hexw_lhex)
  have "strip_by c_isspace ?h = ?h"
    using lh by (intro strip_by_idI) (fastforce simp: is_lhex_def c_isspace_def)
  moreover have hd: "?h \<noteq> []" "hd ?h \<noteq> 45" "hd ?h \<noteq> 43"
  proof -
    show "?h \<noteq> []" using w by (metis length_hexw list.size(3) less_numeral_extra(3))
    then have "is_lhex (hd ?h)" using lh by simp
    then show "hd ?h \<noteq> 45" "hd ?h \<noteq> 43" by (auto simp: is_lhex_def)
  qed
  moreover have "drop_0x ?h = ?h"
  proof -
    have "length ?h \<ge> 2 \<Longrightarrow> is_lhex (?h ! 1)" using lh by simp
    then show ?thesis by (auto simp: drop_0x_def is_lhex_def)
  qed
  moreover have "is_ascii ?h" using lh by (rule lhex_ascii)
  moreover have "int16_digits 0 False ?h = Some (n mod 16 ^ w)"
    using int16_hexw [of 0 False w n "[]"] w by simp
  ultimately show ?thesis by (simp add: py_int16_def)
qed

lemma uuid_parse_str [simp]: "uuid_parse U (uuid_str u) = Some u"
proof -
  let ?s = "uuid_str u"
  have ch: "\<And>c. c \<in> set ?s \<Longrightarrow> is_lhex c \<or> c = 45" by (rule uuid_str_chars)
  have r: "py_remove (ustr ''urn:'') ?s = ?s" "py_remove (ustr ''uuid:'') ?s = ?s"
    using ch by (auto intro!: py_remove_free simp: is_lhex_def dest!: ch)
  have s: "strip_by (\<lambda>c. c = 123 \<or> c = 125) ?s = ?s"
    using ch by (intro strip_by_idI) (fastforce simp: is_lhex_def)
  have "unat u mod 16 ^ 32 = unat u"
    by (rule mod_less) (rule order.strict_trans2 [OF unsigned_less], simp)
  then have "py_int16 U (hexw 32 (unat u)) = Some (int (unat u))"
    using py_int16_hexw [of 32 U "unat u"] by simp
  moreover have "int (unat u) < 2 ^ 128"
  proof -
    have "unat u < 2 ^ 128" by (rule order.strict_trans2 [OF unsigned_less]) simp
    then show ?thesis by (metis of_nat_less_iff of_nat_numeral of_nat_power)
  qed
  ultimately show ?thesis
    by (simp add: uuid_parse_def Let_def r s py_remove_single uuid_str_hex del: ustr_Cons)
qed

text \<open>The canonical text is accepted and denotes the value it was printed from.\<close>

lemma canonical_uuid_str [simp]: "canonical_uuid U (uuid_str u) = Some u"
  by (simp add: canonical_uuid_def)

lemma canonical_uuid_Some:
  "canonical_uuid U s = Some u \<longleftrightarrow> uuid_parse U s = Some u \<and> py_lower U s = uuid_str u"
  by (auto simp: canonical_uuid_def split: option.splits)

end
