(* ===== verification/Hashing.thy ===== *)
theory Hashing
  imports PyStr
begin

unbundle bit_operations_syntax

text \<open>
  The parts of Python's \<open>hashlib\<close>, \<open>hmac\<close> and \<open>base64\<close> that the repository calls, at machine
  width: SHA-256 (FIPS 180-4) on 32-bit words, HMAC (RFC 2104), unpadded base64url, and
  \<open>hmac.compare_digest\<close>.
\<close>

type_synonym u32 = "32 word"

section \<open>SHA-256\<close>

definition sha_K :: "u32 list" where
  "sha_K =
     [1116352408, 1899447441, 3049323471, 3921009573, 961987163, 1508970993, 2453635748, 2870763221,
      3624381080, 310598401, 607225278, 1426881987, 1925078388, 2162078206, 2614888103, 3248222580,
      3835390401, 4022224774, 264347078, 604807628, 770255983, 1249150122, 1555081692, 1996064986,
      2554220882, 2821834349, 2952996808, 3210313671, 3336571891, 3584528711, 113926993, 338241895,
      666307205, 773529912, 1294757372, 1396182291, 1695183700, 1986661051, 2177026350, 2456956037,
      2730485921, 2820302411, 3259730800, 3345764771, 3516065817, 3600352804, 4094571909, 275423344,
      430227734, 506948616, 659060556, 883997877, 958139571, 1322822218, 1537002063, 1747873779,
      1955562222, 2024104815, 2227730452, 2361852424, 2428436474, 2756734187, 3204031479, 3329325298]"

definition sha_H0 :: "u32 list" where
  "sha_H0 =
     [1779033703, 3144134277, 1013904242, 2773480762, 1359893119, 2600822924, 528734635, 1541459225]"

definition rotr32 :: "nat \<Rightarrow> u32 \<Rightarrow> u32" where
  "rotr32 n x = (drop_bit n x) OR (push_bit (32 - n) x)"

definition sha_ch :: "u32 \<Rightarrow> u32 \<Rightarrow> u32 \<Rightarrow> u32" where
  "sha_ch x y z = (x AND y) XOR (NOT x AND z)"

definition sha_maj :: "u32 \<Rightarrow> u32 \<Rightarrow> u32 \<Rightarrow> u32" where
  "sha_maj x y z = (x AND y) XOR (x AND z) XOR (y AND z)"

definition sha_S0 :: "u32 \<Rightarrow> u32" where
  "sha_S0 x = rotr32 2 x XOR rotr32 13 x XOR rotr32 22 x"

definition sha_S1 :: "u32 \<Rightarrow> u32" where
  "sha_S1 x = rotr32 6 x XOR rotr32 11 x XOR rotr32 25 x"

definition sha_s0 :: "u32 \<Rightarrow> u32" where
  "sha_s0 x = rotr32 7 x XOR rotr32 18 x XOR drop_bit 3 x"

definition sha_s1 :: "u32 \<Rightarrow> u32" where
  "sha_s1 x = rotr32 17 x XOR rotr32 19 x XOR drop_bit 10 x"

text \<open>The message schedule, kept with the newest word first.\<close>

fun sha_extend :: "nat \<Rightarrow> u32 list \<Rightarrow> u32 list" where
  "sha_extend 0 ws = ws"
| "sha_extend (Suc n) ws =
     sha_extend n ((sha_s1 (ws ! 1) + ws ! 6 + sha_s0 (ws ! 14) + ws ! 15) # ws)"

definition sha_round :: "u32 list \<Rightarrow> u32 \<times> u32 \<Rightarrow> u32 list" where
  "sha_round v kw =
     (case v of
        [a, b, c, d, e, f, g, h] \<Rightarrow>
          (let t1 = h + sha_S1 e + sha_ch e f g + fst kw + snd kw;
               t2 = sha_S0 a + sha_maj a b c
           in [t1 + t2, a, b, c, d + t1, e, f, g])
      | _ \<Rightarrow> v)"

fun be_words :: "bytes \<Rightarrow> u32 list" where
  "be_words (a # b # c # d # r) =
     (push_bit 24 (ucast a) OR push_bit 16 (ucast b) OR push_bit 8 (ucast c) OR ucast d) # be_words r"
| "be_words _ = []"

definition be_bytes :: "nat \<Rightarrow> 'a::len word \<Rightarrow> bytes" where
  "be_bytes w x = map (\<lambda>i. ucast (drop_bit (8 * i) x)) (rev [0..<w])"

definition sha_compress :: "u32 list \<Rightarrow> bytes \<Rightarrow> u32 list" where
  "sha_compress h block =
     (let w = rev (sha_extend 48 (rev (be_words block)))
      in map2 (+) h (foldl sha_round h (zip sha_K w)))"

definition sha_pad :: "bytes \<Rightarrow> bytes" where
  "sha_pad m = m @ [128] @ replicate ((119 - length m mod 64) mod 64) 0 
       @ be_bytes 8 (of_nat (8 * length m) :: 64 word)"

fun blocks_of :: "nat \<Rightarrow> bytes \<Rightarrow> bytes list" where
  "blocks_of 0 m = []"
| "blocks_of (Suc n) m = take 64 m # blocks_of n (drop 64 m)"

definition sha256 :: "bytes \<Rightarrow> bytes" where
  "sha256 m =
     (let p = sha_pad m
      in concat (map (be_bytes 4)
           (foldl sha_compress sha_H0 (blocks_of (length p div 64) p))))"

definition sha256_hex :: "bytes \<Rightarrow> pystr" where
  "sha256_hex m = bytes_hex (sha256 m)"

section \<open>HMAC, base64url, comparison\<close>

definition hmac_key :: "bytes \<Rightarrow> bytes" where
  "hmac_key k = (let k' = (if length k > 64 then sha256 k else k) in k' @ replicate (64 - length k') 0)"

definition hmac_sha256 :: "bytes \<Rightarrow> bytes \<Rightarrow> bytes" where
  "hmac_sha256 k m =
     sha256 (map (\<lambda>b. b XOR 0x5c) (hmac_key k)
       @ sha256 (map (\<lambda>b. b XOR 0x36) (hmac_key k) @ m))"

definition b64_char :: "nat \<Rightarrow> nat" where
  "b64_char i =
     (if i < 26 then 65 + i else if i < 52 then 71 + i else if i < 62 then i - 4
      else if i = 62 then 45 else 95)"

text \<open>\<open>base64.urlsafe_b64encode(bs).rstrip(b"=").decode()\<close>.\<close>

fun b64url :: "bytes \<Rightarrow> pystr" where
  "b64url [] = []"
| "b64url [a] = (let n = unat a * 16 in [b64_char (n div 64), b64_char (n mod 64)])"
| "b64url [a, b] =
     (let n = unat a * 1024 + unat b * 4
      in [b64_char (n div 4096), b64_char (n div 64 mod 64), b64_char (n mod 64)])"
| "b64url (a # b # c # r) =
     (let n = unat a * 65536 + unat b * 256 + unat c
      in [b64_char (n div 262144), b64_char (n div 4096 mod 64), b64_char (n div 64 mod 64),
          b64_char (n mod 64)] @ b64url r)"

text \<open>\<open>hmac.compare_digest\<close> on strings: \<open>None\<close> is the \<open>TypeError\<close> for non-ASCII text. On bytes it
  is equality.\<close>

definition compare_digest_str :: "pystr \<Rightarrow> pystr \<Rightarrow> bool option" where
  "compare_digest_str a b = (if is_ascii a \<and> is_ascii b then Some (a = b) else None)"

section \<open>Sizes and alphabets\<close>

lemma length_be_bytes [simp]: "length (be_bytes w x) = w"
  by (simp add: be_bytes_def)

lemma length_sha_round [simp]: "length (sha_round v kw) = length v"
  by (simp add: sha_round_def Let_def split: list.split)

lemma length_foldl_sha_round [simp]: "length (foldl sha_round v kws) = length v"
  by (induction kws arbitrary: v) auto

lemma length_sha_compress [simp]: "length (sha_compress h b) = length h"
  by (simp add: sha_compress_def Let_def)

lemma length_foldl_sha_compress [simp]: "length (foldl sha_compress h bs) = length h"
  by (induction bs arbitrary: h) auto

lemma length_sha256 [simp]: "length (sha256 m) = 32"
proof -
  have "length (concat (map (be_bytes 4) ws)) = 4 * length ws" for ws :: "u32 list"
    by (induction ws) auto
  then show ?thesis by (simp add: sha256_def Let_def sha_H0_def)
qed

lemma length_sha256_hex [simp]: "length (sha256_hex m) = 64"
  by (simp add: sha256_hex_def length_bytes_hex)

lemma sha256_hex_lhex: "c \<in> set (sha256_hex m) \<Longrightarrow> is_lhex c"
  by (simp add: sha256_hex_def bytes_hex_lhex)

lemma sha256_hex_ascii [simp]: "is_ascii (sha256_hex m)"
  by (rule lhex_ascii) (rule sha256_hex_lhex)

lemma sha256_hex_lower [simp]: "py_lower U (sha256_hex m) = sha256_hex m"
  by (rule py_lower_ascii_id) (auto simp: is_lhex_def dest!: sha256_hex_lhex)

lemma sha256_hex_eq [simp]: "sha256_hex a = sha256_hex b \<longleftrightarrow> sha256 a = sha256 b"
  by (auto simp: sha256_hex_def dest: bytes_hex_inj)

lemma length_hmac [simp]: "length (hmac_sha256 k m) = 32"
  by (simp add: hmac_sha256_def)

lemma b64_char_inj: "i < 64 \<Longrightarrow> j < 64 \<Longrightarrow> b64_char i = b64_char j \<Longrightarrow> i = j"
  by (auto simp: b64_char_def split: if_splits)

definition b64_alphabet :: "nat \<Rightarrow> bool" where
  "b64_alphabet c \<longleftrightarrow>
     (65 \<le> c \<and> c \<le> 90) \<or> (97 \<le> c \<and> c \<le> 122) \<or> is_digit c \<or> c = 45 \<or> c = 95"

lemma b64_char_alphabet: "i < 64 \<Longrightarrow> b64_alphabet (b64_char i)"
  by (auto simp: b64_char_def b64_alphabet_def is_digit_def)

lemma byte_split:
  fixes a b c :: byte
  shows "unat a div 4 < 64" and "(unat a * 1024 + unat b * 4) div 4096 < 64"
    and "(unat a * 65536 + unat b * 256 + unat c) div 262144 < 64"
proof -
  have "unat a \<le> 255" "unat b \<le> 255" "unat c \<le> 255"
    using unat_byte_less [of a] unat_byte_less [of b] unat_byte_less [of c] by linarith+
  then have "unat a < 64 * 4" "unat a * 1024 + unat b * 4 < 64 * 4096"
    "unat a * 65536 + unat b * 256 + unat c < 64 * 262144" by simp_all
  then show "unat a div 4 < 64" "(unat a * 1024 + unat b * 4) div 4096 < 64"
    "(unat a * 65536 + unat b * 256 + unat c) div 262144 < 64"
    by (simp_all only: less_mult_imp_div_less)
qed

lemma b64url_alphabet: "x \<in> set (b64url bs) \<Longrightarrow> b64_alphabet x"
  by (induction bs rule: b64url.induct) (auto simp: Let_def b64_char_alphabet byte_split)

lemma length_b64url: "length (b64url bs) = (4 * length bs + 2) div 3"
  by (induction bs rule: b64url.induct) (auto simp: Let_def)

lemma b64url_ascii [simp]: "is_ascii (b64url bs)"
  by (fastforce simp: is_ascii_def list_all_iff b64_alphabet_def is_digit_def dest: b64url_alphabet)

end
