(* ===== verification/Signing.thy ===== *)
theory Signing
  imports Uuids Hashing Config
begin

text \<open>
  \<open>services/signing.py\<close>: stateless signed download links. A key table is the dictionary
  \<open>signing_keys\<close> builds. \<open>UnicodeEncode\<close> is the \<open>UnicodeEncodeError\<close> that \<open>encode\<close> raises for a
  lone surrogate; it is not an \<open>InvalidLinkError\<close>.
\<close>

datatype link_reason =
    MissingParameter | MalformedParameter | UnknownKeyId | MalformedFileId | NonCanonicalFileId
  | BadSignature | ExpiredLink

datatype link_error = InvalidLink link_reason | UnicodeEncode

record link_claims =
  lc_file_id :: uuid
  lc_expires :: int
  lc_version :: int
  lc_kid :: pystr

definition PAYLOAD_PREFIX :: pystr where
  "PAYLOAD_PREFIX = ustr ''sfs-download-v1''"

definition payload_text :: "pystr \<Rightarrow> uuid \<Rightarrow> int \<Rightarrow> int \<Rightarrow> pystr" where
  "payload_text kid file_id expires link_version =
     PAYLOAD_PREFIX @ [10] @ kid @ [10] @ uuid_str file_id @ [10] @ py_str_int expires @ [10]
     @ py_str_int link_version"

definition payload :: "pystr \<Rightarrow> uuid \<Rightarrow> int \<Rightarrow> int \<Rightarrow> bytes option" where
  "payload kid file_id expires link_version = py_encode (payload_text kid file_id expires link_version)"

definition sign :: "pystr \<Rightarrow> pystr \<Rightarrow> uuid \<Rightarrow> int \<Rightarrow> int \<Rightarrow> pystr option" where
  "sign key kid file_id expires link_version =
     (case py_encode key of
        None \<Rightarrow> None
      | Some k \<Rightarrow>
          (case payload kid file_id expires link_version of
             None \<Rightarrow> None
           | Some p \<Rightarrow> Some (b64url (hmac_sha256 k p))))"

text \<open>\<open>_DIGITS.fullmatch\<close>.\<close>

definition short_digits :: "pystr \<Rightarrow> bool" where
  "short_digits s \<longleftrightarrow> 1 \<le> length s \<and> length s \<le> 12 \<and> list_all is_digit s"

definition verify ::
  "ucd \<Rightarrow> (pystr \<times> pystr) list \<Rightarrow> pystr \<Rightarrow> pystr option \<Rightarrow> pystr option \<Rightarrow> pystr option
    \<Rightarrow> pystr option \<Rightarrow> int \<Rightarrow> link_error + link_claims" where
  "verify U keys file_id xp v kid sig now =
     (case (xp, v, kid, sig) of
        (Some xp, Some v, Some kid, Some sig) \<Rightarrow>
          if \<not> short_digits xp \<or> \<not> short_digits v then Inl (InvalidLink MalformedParameter)
          else
            (case map_of keys kid of
               None \<Rightarrow> Inl (InvalidLink UnknownKeyId)
             | Some key \<Rightarrow>
                 (case uuid_parse U file_id of
                    None \<Rightarrow> Inl (InvalidLink MalformedFileId)
                  | Some parsed_id \<Rightarrow>
                      if uuid_str parsed_id \<noteq> py_lower U file_id then Inl (InvalidLink NonCanonicalFileId)
                      else
                        (let expires = int (dec_value xp); link_version = int (dec_value v)
                         in case sign key kid parsed_id expires link_version of
                              None \<Rightarrow> Inl UnicodeEncode
                            | Some expected \<Rightarrow>
                                (case py_encode sig of
                                   None \<Rightarrow> Inl UnicodeEncode
                                 | Some sb \<Rightarrow>
                                     if sb \<noteq> utf8 expected then Inl (InvalidLink BadSignature)
                                     else if expires \<le> now then Inl (InvalidLink ExpiredLink)
                                     else Inr \<lparr>lc_file_id = parsed_id, lc_expires = expires,
                                            lc_version = link_version, lc_kid = kid\<rparr>))))
      | _ \<Rightarrow> Inl (InvalidLink MissingParameter))"

section \<open>Payloads\<close>

lemma dec_nat_free: "10 \<notin> set (dec_nat n) \<and> 45 \<notin> set (dec_nat n)"
  using dec_nat_digits [of n] by (auto simp: list_all_iff is_digit_def)

lemma py_str_int_inj: "py_str_int i = py_str_int j \<Longrightarrow> i = j"
proof -
  assume e: "py_str_int i = py_str_int j"
  have hd: "hd (dec_nat n) \<noteq> 45" for n
    using dec_nat_free [of n] by (metis dec_nat_ne hd_in_set)
  show "i = j"
  proof (cases "i < 0"; cases "j < 0")
    assume "i < 0" "j < 0"
    with e have "nat (- i) = nat (- j)" by (auto simp: py_str_int_def dest: dec_nat_inj)
    with \<open>i < 0\<close> \<open>j < 0\<close> show ?thesis by simp
  next
    assume "\<not> i < 0" "\<not> j < 0"
    with e have "nat i = nat j" by (auto simp: py_str_int_def dest: dec_nat_inj)
    with \<open>\<not> i < 0\<close> \<open>\<not> j < 0\<close> show ?thesis by simp
  next
    assume "i < 0" "\<not> j < 0"
    with e have "hd (dec_nat (nat j)) = 45" by (metis list.sel(1) py_str_int_def)
    with hd show ?thesis by blast
  next
    assume "\<not> i < 0" "j < 0"
    with e have "hd (dec_nat (nat i)) = 45" by (metis list.sel(1) py_str_int_def)
    with hd show ?thesis by blast
  qed
qed

lemma py_str_int_free: "10 \<notin> set (py_str_int i)"
  using dec_nat_free by (auto simp: py_str_int_def)

lemma py_str_int_ascii [simp]: "is_ascii (py_str_int i)"
  by (simp add: py_str_int_def)

lemma append_sep_inj:
  fixes d :: nat
  assumes "d \<notin> set a" and "d \<notin> set b" and "a @ d # r = b @ d # s"
  shows "a = b \<and> r = s"
proof -
  have "(a, True, r) = (b, True, s)"
    using py_partition_free [OF assms(1), of r] py_partition_free [OF assms(2), of s] assms(3)
    by (simp only:)
  then show ?thesis by simp
qed

lemma payload_text_inj:
  assumes "10 \<notin> set kid" and "10 \<notin> set kid'"
    and "payload_text kid f e v = payload_text kid' f' e' v'"
  shows "kid = kid' \<and> f = f' \<and> e = e' \<and> v = v'"
proof -
  from assms(3) have 1: "kid @ 10 # (uuid_str f @ 10 # (py_str_int e @ 10 # py_str_int v))
      = kid' @ 10 # (uuid_str f' @ 10 # (py_str_int e' @ 10 # py_str_int v'))"
    by (simp add: payload_text_def del: ustr_Cons)
  note 2 = append_sep_inj [OF assms(1,2) 1]
  note 3 = append_sep_inj [OF uuid_str_no_nl uuid_str_no_nl conjunct2 [OF 2]]
  note 4 = append_sep_inj [OF py_str_int_free py_str_int_free conjunct2 [OF 3]]
  from 2 3 4 show ?thesis by (auto dest: py_str_int_inj)
qed

lemma payload_text_encodable:
  "list_all encodable (payload_text kid f e v) \<longleftrightarrow> list_all encodable kid"
proof -
  have "list_all encodable PAYLOAD_PREFIX" by (simp add: PAYLOAD_PREFIX_def encodable_def)
  then show ?thesis by (auto simp: payload_text_def ascii_encodable encodable_def)
qed

lemma payload_inj:
  assumes "10 \<notin> set kid" and "10 \<notin> set kid'"
    and "payload kid f e v = Some p" and "payload kid' f' e' v' = Some p"
  shows "kid = kid' \<and> f = f' \<and> e = e' \<and> v = v'"
proof (rule payload_text_inj [OF assms(1,2)])
  show "payload_text kid f e v = payload_text kid' f' e' v'"
    using assms(3,4) by (auto simp: payload_def py_encode_def split: if_splits intro: utf8_inj)
qed

text \<open>
  C32. The signed text is unambiguous: for key ids without a line break (the settings admit no
  other), equal payloads have the same key id, file, expiry and link version, so shifting a
  boundary between two fields or changing any of them changes the signed bytes.
\<close>
theorem payload_unambiguous:
  assumes "key_id_ok kid" and "key_id_ok kid'"
  shows "payload kid f e v = payload kid' f' e' v' \<longleftrightarrow> kid = kid' \<and> f = f' \<and> e = e' \<and> v = v'"
proof -
  have "payload kid f e v = Some (utf8 (payload_text kid f e v))"
    using key_id_ok_ascii [OF assms(1)]
    by (simp add: payload_def py_encode_def payload_text_encodable ascii_encodable)
  then show ?thesis
    using payload_inj key_id_ok_free [OF assms(1)] key_id_ok_free [OF assms(2)] by metis
qed

theorem payload_unambiguous_witness:
  "payload (ustr ''k1'') 1 10 1 \<noteq> payload (ustr ''k1'') 1 101 1"
proof -
  have k: "key_id_ok (ustr ''k1'')" by (simp add: key_id_ok_def key_id_char_def is_digit_def)
  show ?thesis using payload_unambiguous [OF k k] by simp
qed

section \<open>Verification\<close>

lemma sign_ascii: "sign key kid f e v = Some s \<Longrightarrow> is_ascii s"
  by (auto simp: sign_def split: option.splits)

lemma sign_Some_iff:
  "(\<exists>s. sign key kid f e v = Some s) \<longleftrightarrow> list_all encodable key \<and> list_all encodable kid"
  by (simp add: sign_def payload_def py_encode_def payload_text_encodable)

text \<open>
  A signature is 43 characters of the URL-safe base64 alphabet: it needs no escaping in the
  query string and carries no padding.
\<close>
theorem sign_url_safe:
  assumes "sign key kid f e v = Some s"
  shows "length s = 43 \<and> (\<forall>c \<in> set s. b64_alphabet c)"
  using assms by (auto simp: sign_def length_b64url b64url_alphabet split: option.splits)

lemma sign_example: "\<exists>s. sign (replicate 32 97) (ustr ''k1'') 1 1700000300 1 = Some s"
  by (simp add: sign_Some_iff encodable_def list_all_iff)

theorem sign_url_safe_witness:
  "\<exists>s. sign (replicate 32 97) (ustr ''k1'') 1 1700000300 1 = Some s \<and> length s = 43"
  using sign_example sign_url_safe by blast

text \<open>
  C25. The verifier accepts exactly the authentic, canonical, unexpired links: all four parameters
  are present, the expiry and version are 1 to 12 ASCII digits, the key id is configured, the
  file id is the canonical text of a UUID up to letter case, the signature is the one the
  configured key gives for exactly these claims, and the expiry is strictly in the future.
\<close>
theorem verify_accepts_iff:
  "verify U keys file_id xp v kid sig now = Inr c \<longleftrightarrow>
     (\<exists>xp' v' key sig'. xp = Some xp' \<and> v = Some v' \<and> kid = Some (lc_kid c) \<and> sig = Some sig'
        \<and> short_digits xp' \<and> short_digits v'
        \<and> map_of keys (lc_kid c) = Some key
        \<and> canonical_uuid U file_id = Some (lc_file_id c)
        \<and> lc_expires c = int (dec_value xp') \<and> lc_version c = int (dec_value v')
        \<and> sign key (lc_kid c) (lc_file_id c) (lc_expires c) (lc_version c) = Some sig'
        \<and> now < lc_expires c)"
  (is "?L \<longleftrightarrow> ?R")
proof
  assume ?L
  then obtain xp' v' kid' sig' key u expected sb where h:
    "xp = Some xp'" "v = Some v'" "kid = Some kid'" "sig = Some sig'"
    "short_digits xp'" "short_digits v'" "map_of keys kid' = Some key"
    "uuid_parse U file_id = Some u" "uuid_str u = py_lower U file_id"
    "sign key kid' u (int (dec_value xp')) (int (dec_value v')) = Some expected"
    "py_encode sig' = Some sb" "sb = utf8 expected" "now < int (dec_value xp')"
    "c = \<lparr>lc_file_id = u, lc_expires = int (dec_value xp'), lc_version = int (dec_value v'), lc_kid = kid'\<rparr>"
    by (auto simp: verify_def Let_def not_le split: option.splits if_splits)
  have "sig' = expected"
    using h(11,12) ascii_encodable [OF sign_ascii [OF h(10)]]
    by (auto simp: py_encode_def split: if_splits intro: utf8_inj)
  with h show ?R by (auto simp: canonical_uuid_Some)
next
  assume ?R
  then obtain xp' v' key sig' where h: "xp = Some xp'" "v = Some v'" "kid = Some (lc_kid c)"
    "sig = Some sig'" "short_digits xp'" "short_digits v'" "map_of keys (lc_kid c) = Some key"
    "canonical_uuid U file_id = Some (lc_file_id c)" "lc_expires c = int (dec_value xp')"
    "lc_version c = int (dec_value v')"
    "sign key (lc_kid c) (lc_file_id c) (lc_expires c) (lc_version c) = Some sig'" "now < lc_expires c"
    by blast
  have "c = \<lparr>lc_file_id = lc_file_id c, lc_expires = int (dec_value xp'),
      lc_version = int (dec_value v'), lc_kid = lc_kid c\<rparr>"
    using h(9,10) by (cases c) simp
  with h sign_ascii [OF h(11)] show ?L
    by (simp add: verify_def canonical_uuid_Some)
qed

lemma issued_link_facts:
  assumes "sign key kid f (int e) (int v) = Some sig" and "map_of keys kid = Some key"
    and "e < 10 ^ 12" and "v < 10 ^ 12" and "now < int e"
  shows "verify U keys (uuid_str f) (Some (dec_nat e)) (Some (dec_nat v)) (Some kid) (Some sig) now
    = Inr \<lparr>lc_file_id = f, lc_expires = int e, lc_version = int v, lc_kid = kid\<rparr>"
proof -
  have "short_digits (dec_nat n)" if "n < 10 ^ 12" for n
    using dec_nat_length [OF that] dec_nat_digits [of n] dec_nat_ne [of n]
    by (cases "dec_nat n") (simp_all add: short_digits_def)
  then have "short_digits (dec_nat e)" "short_digits (dec_nat v)" using assms(3,4) by blast+
  then show ?thesis
    using assms(1,2,5) sign_ascii [OF assms(1)] by (simp add: verify_def)
qed

text \<open>
  An issued link works until it expires, whichever instance verifies it and after any restart
  or key rotation that keeps its key: a link signed under a key that is still in the table, with
  an expiry and version of at most 12 digits, verifies before its expiry and gives back exactly
  what was signed.
\<close>
theorem issued_link_verifies:
  assumes "sign key kid f (int e) (int v) = Some sig" and "map_of keys kid = Some key"
    and "e < 10 ^ 12" and "v < 10 ^ 12" and "now < int e"
  shows "verify U keys (uuid_str f) (Some (dec_nat e)) (Some (dec_nat v)) (Some kid) (Some sig) now
    = Inr \<lparr>lc_file_id = f, lc_expires = int e, lc_version = int v, lc_kid = kid\<rparr>"
  by (rule issued_link_facts [OF assms])

theorem issued_link_verifies_witness:
  "\<exists>sig. sign (replicate 32 97) (ustr ''k1'') 1 1700000300 1 = Some sig
    \<and> verify \<lparr>ucd_lower = id, ucd_int16 = (\<lambda>_. None), ucd_nfkd = id\<rparr> [(ustr ''k1'', replicate 32 97)]
        (uuid_str 1) (Some (dec_nat 1700000300)) (Some (dec_nat 1)) (Some (ustr ''k1'')) (Some sig) 1700000000
      = Inr \<lparr>lc_file_id = 1, lc_expires = 1700000300, lc_version = 1, lc_kid = ustr ''k1''\<rparr>"
proof -
  obtain sig where s: "sign (replicate 32 97) (ustr ''k1'') 1 (int 1700000300) (int 1) = Some sig"
    using sign_example by auto
  show ?thesis
    using issued_link_verifies [OF s, of "[(ustr ''k1'', replicate 32 97)]" 1700000000] s by simp
qed

text \<open>
  C37. No link is accepted without a fresh message authentication code: if the accepted claims are
  not among those the service issued under that key id, then the presented signature is the
  keyed code of a byte string that the service never authenticated for any issued link.
\<close>
theorem accepted_unissued_link_is_forgery:
  assumes "verify U keys file_id xp v kid sig now = Inr c"
    and "(lc_kid c, lc_file_id c, lc_expires c, lc_version c) \<notin> issued"
    and "\<And>k f e w. (k, f, e, w) \<in> issued \<Longrightarrow> key_id_ok k" and "key_id_ok (lc_kid c)"
  shows "\<exists>key kb p. map_of keys (lc_kid c) = Some key \<and> py_encode key = Some kb
    \<and> payload (lc_kid c) (lc_file_id c) (lc_expires c) (lc_version c) = Some p
    \<and> sig = Some (b64url (hmac_sha256 kb p))
    \<and> (\<forall>(k, f, e, w) \<in> issued. payload k f e w \<noteq> Some p)"
proof -
  from assms(1) obtain key where k: "map_of keys (lc_kid c) = Some key"
    "\<exists>s. sig = Some s \<and> sign key (lc_kid c) (lc_file_id c) (lc_expires c) (lc_version c) = Some s"
    by (auto simp: verify_accepts_iff)
  then obtain kb p where p: "py_encode key = Some kb"
    "payload (lc_kid c) (lc_file_id c) (lc_expires c) (lc_version c) = Some p"
    "sig = Some (b64url (hmac_sha256 kb p))"
    by (auto simp: sign_def split: option.splits)
  have "payload k f e w \<noteq> Some p" if "(k, f, e, w) \<in> issued" for k f e w
    using payload_inj [OF _ _ _ p(2), of k f e w] key_id_ok_free [OF assms(3) [OF that]]
      key_id_ok_free [OF assms(4)] assms(2) that by auto
  with k(1) p show ?thesis by blast
qed

theorem accepted_unissued_link_is_forgery_witness:
  "\<exists>sig kb p. sig = b64url (hmac_sha256 kb p) \<and> py_encode (replicate 32 97) = Some kb
    \<and> verify \<lparr>ucd_lower = id, ucd_int16 = (\<lambda>_. None), ucd_nfkd = id\<rparr> [(ustr ''k1'', replicate 32 97)]
        (uuid_str 1) (Some (dec_nat 1700000300)) (Some (dec_nat 1)) (Some (ustr ''k1'')) (Some sig) 1700000000
      = Inr \<lparr>lc_file_id = 1, lc_expires = 1700000300, lc_version = 1, lc_kid = ustr ''k1''\<rparr>"
proof -
  let ?c = "\<lparr>lc_file_id = 1, lc_expires = 1700000300, lc_version = 1, lc_kid = ustr ''k1''\<rparr>"
  obtain sig where s: "sign (replicate 32 97) (ustr ''k1'') 1 (int 1700000300) (int 1) = Some sig"
    using sign_example by auto
  have "short_digits (dec_nat 1700000300)" "short_digits (dec_nat 1)"
    using dec_nat_length [of 1700000300 12] dec_nat_length [of 1 12] dec_nat_digits dec_nat_ne
    by (auto simp: short_digits_def Suc_le_eq)
  then have v: "verify \<lparr>ucd_lower = id, ucd_int16 = (\<lambda>_. None), ucd_nfkd = id\<rparr> [(ustr ''k1'', replicate 32 97)]
      (uuid_str 1) (Some (dec_nat 1700000300)) (Some (dec_nat 1)) (Some (ustr ''k1'')) (Some sig) 1700000000
      = Inr ?c"
    using s sign_ascii [OF s] by (simp add: verify_def del: ustr_Cons)
  have "key_id_ok (ustr ''k1'')" by (simp add: key_id_ok_def key_id_char_def is_digit_def)
  then show ?thesis
    using accepted_unissued_link_is_forgery [OF v, of "{}"] v by auto
qed

text \<open>
  Expiry is checked after authenticity: the verifier answers that a link has expired only for
  a link whose signature is right, so the refusal says nothing about a forged one.
\<close>
theorem expired_only_if_authentic:
  assumes "verify U keys file_id xp v kid sig now = Inl (InvalidLink ExpiredLink)"
  shows "\<exists>c. verify U keys file_id xp v kid sig (lc_expires c - 1) = Inr c \<and> lc_expires c \<le> now"
proof -
  from assms obtain xp' v' kid' sig' key u expected where h:
    "xp = Some xp'" "v = Some v'" "kid = Some kid'" "sig = Some sig'"
    "short_digits xp'" "short_digits v'" "map_of keys kid' = Some key"
    "uuid_parse U file_id = Some u" "uuid_str u = py_lower U file_id"
    "sign key kid' u (int (dec_value xp')) (int (dec_value v')) = Some expected"
    "py_encode sig' = Some (utf8 expected)" "int (dec_value xp') \<le> now"
    by (auto simp: verify_def Let_def split: option.splits if_splits)
  let ?c = "\<lparr>lc_file_id = u, lc_expires = int (dec_value xp'), lc_version = int (dec_value v'), lc_kid = kid'\<rparr>"
  from h have "verify U keys file_id xp v kid sig (lc_expires ?c - 1) = Inr ?c"
    by (simp add: verify_def)
  with h(12) show ?thesis by (intro exI [of _ ?c]) simp
qed

lemma verify_expired_example:
  "\<exists>sig. verify \<lparr>ucd_lower = id, ucd_int16 = (\<lambda>_. None), ucd_nfkd = id\<rparr> [(ustr ''k1'', replicate 32 97)]
      (uuid_str 1) (Some (ustr ''17'')) (Some (ustr ''1'')) (Some (ustr ''k1'')) (Some sig) 17
      = Inl (InvalidLink ExpiredLink)"
proof -
  obtain sig where s: "sign (replicate 32 97) (ustr ''k1'') 1 17 1 = Some sig"
    using sign_Some_iff [of "replicate 32 97" "ustr ''k1''" 1 17 1]
    by (auto simp: encodable_def list_all_iff)
  then show ?thesis
    using sign_ascii [OF s]
    by (intro exI [of _ sig])
       (simp add: verify_def short_digits_def is_digit_def dec_value_def)
qed

theorem expired_only_if_authentic_witness:
  "\<exists>sig c. verify \<lparr>ucd_lower = id, ucd_int16 = (\<lambda>_. None), ucd_nfkd = id\<rparr> [(ustr ''k1'', replicate 32 97)]
      (uuid_str 1) (Some (ustr ''17'')) (Some (ustr ''1'')) (Some (ustr ''k1'')) (Some sig) (lc_expires c - 1)
      = Inr c \<and> lc_expires c \<le> 17"
  using verify_expired_example expired_only_if_authentic by blast

end
