(* ===== verification/RateLimit.thy ===== *)
theory RateLimit
  imports Prelude
begin

text \<open>
  \<open>services/rate_limit.py\<close>: the in-process token bucket. Python floats are rationals here, and
  every floating-point operation is the exact operation followed by the rounding function \<open>fl\<close>,
  a parameter; \<open>float_ok\<close> states what the proofs need of it (IEEE rounding is monotone and exact
  on integers up to \<open>2^53\<close>, and the configured rates are far below that). Taking the identity for
  \<open>fl\<close> gives exact arithmetic. The dictionary of buckets is an association list.
\<close>

definition MAX_TRACKED_KEYS :: nat where
  "MAX_TRACKED_KEYS = 10000"

record bucket =
  tokens :: rat
  updated :: rat

record limiter =
  capacity :: rat
  refill_per_second :: rat
  buckets :: "(pystr \<times> bucket) list"

definition rate_limiter :: "(rat \<Rightarrow> rat) \<Rightarrow> int \<Rightarrow> limiter" where
  "rate_limiter fl per_minute =
     \<lparr>capacity = fl (of_int per_minute), refill_per_second = fl (of_int per_minute / 60), buckets = []\<rparr>"

definition evict_full :: "(rat \<Rightarrow> rat) \<Rightarrow> rat \<Rightarrow> limiter \<Rightarrow> limiter" where
  "evict_full fl now l =
     (let refill_time = fl (capacity l / refill_per_second l);
          left = filter (\<lambda>(_, b). \<not> fl (now - updated b) \<ge> refill_time) (buckets l)
      in l\<lparr>buckets := (if length left \<ge> MAX_TRACKED_KEYS then [] else left)\<rparr>)"

definition refilled :: "(rat \<Rightarrow> rat) \<Rightarrow> rat \<Rightarrow> limiter \<Rightarrow> bucket \<Rightarrow> rat" where
  "refilled fl now l b =
     min (capacity l) (fl (tokens b + fl (fl (now - updated b) * refill_per_second l)))"

definition allow :: "(rat \<Rightarrow> rat) \<Rightarrow> rat \<Rightarrow> pystr \<Rightarrow> limiter \<Rightarrow> bool \<times> limiter" where
  "allow fl now key l =
     (let (t, l') =
        (case map_of (buckets l) key of
           None \<Rightarrow>
             (capacity l, if length (buckets l) \<ge> MAX_TRACKED_KEYS then evict_full fl now l else l)
         | Some b \<Rightarrow> (refilled fl now l b, l));
        store = (\<lambda>t. l'\<lparr>buckets := dict_set key \<lparr>tokens = t, updated = now\<rparr> (buckets l')\<rparr>)
      in if t < 1 then (False, store t) else (True, store (fl (t - 1))))"

text \<open>A run of calls, each at its own clock reading; the answers in order.\<close>

fun allow_all :: "(rat \<Rightarrow> rat) \<Rightarrow> (rat \<times> pystr) list \<Rightarrow> limiter \<Rightarrow> bool list \<times> limiter" where
  "allow_all fl [] l = ([], l)"
| "allow_all fl ((now, key) # cs) l =
     (let (ok, l') = allow fl now key l; (oks, l'') = allow_all fl cs l' in (ok # oks, l''))"

section \<open>Frame facts\<close>

lemma evict_full_fields [simp]:
  "capacity (evict_full fl now l) = capacity l"
  "refill_per_second (evict_full fl now l) = refill_per_second l"
  by (simp_all add: evict_full_def Let_def)

lemma evict_full_subset: "set (buckets (evict_full fl now l)) \<subseteq> set (buckets l)"
  by (auto simp: evict_full_def Let_def)

lemma evict_full_length [simp]: "length (buckets (evict_full fl now l)) < MAX_TRACKED_KEYS"
  by (simp add: evict_full_def Let_def MAX_TRACKED_KEYS_def)

lemma evict_full_distinct:
  "distinct (map fst (buckets l)) \<Longrightarrow> distinct (map fst (buckets (evict_full fl now l)))"
  by (simp add: evict_full_def Let_def distinct_map_filter)


section \<open>The invariant\<close>

definition float_ok :: "(rat \<Rightarrow> rat) \<Rightarrow> int \<Rightarrow> bool" where
  "float_ok fl n \<longleftrightarrow> mono fl \<and> (\<forall>i. 0 \<le> i \<and> i \<le> n \<longrightarrow> fl (of_int i) = of_int i)"

lemma float_ok_id: "float_ok id n"
  by (simp add: float_ok_def mono_def)

lemma float_ok_int: "float_ok fl n \<Longrightarrow> 0 \<le> i \<Longrightarrow> i \<le> n \<Longrightarrow> fl (of_int i) = of_int i"
  by (simp add: float_ok_def)

lemma float_ok_bounds:
  assumes "float_ok fl n" and "0 \<le> n"
  shows "0 \<le> x \<Longrightarrow> 0 \<le> fl x" and "x \<le> of_int n \<Longrightarrow> fl x \<le> of_int n"
proof -
  have m: "mono fl" and z: "fl 0 = 0" and n: "fl (of_int n) = of_int n"
    using assms float_ok_int [OF assms(1), of 0] float_ok_int [OF assms(1), of n]
    by (simp_all add: float_ok_def)
  show "0 \<le> fl x" if "0 \<le> x" using monoD [OF m that] z by simp
  show "fl x \<le> of_int n" if "x \<le> of_int n" using monoD [OF m that] n by simp
qed

text \<open>\<open>limiter_ok n now l\<close>: \<open>l\<close> was built for \<open>n\<close> requests a minute and last used no later than
  \<open>now\<close>; it tracks each key once and at most \<open>MAX_TRACKED_KEYS\<close> of them, and every bucket holds
  between 0 and \<open>n\<close> tokens.\<close>

definition limiter_ok :: "int \<Rightarrow> rat \<Rightarrow> limiter \<Rightarrow> bool" where
  "limiter_ok n now l \<longleftrightarrow>
     1 \<le> n \<and> capacity l = of_int n \<and> 0 \<le> refill_per_second l \<and>
     distinct (map fst (buckets l)) \<and> length (buckets l) \<le> MAX_TRACKED_KEYS \<and>
     list_all (\<lambda>(_, b). 0 \<le> tokens b \<and> tokens b \<le> of_int n \<and> updated b \<le> now) (buckets l)"

lemma limiter_ok_new:
  assumes "float_ok fl n" and "1 \<le> n"
  shows "limiter_ok n now (rate_limiter fl n)"
  using assms float_ok_int [OF assms(1), of n] float_ok_bounds(1) [OF assms(1), of "of_int n / 60"]
  by (simp add: limiter_ok_def rate_limiter_def)

lemma limiter_ok_evict:
  "limiter_ok n now l \<Longrightarrow> limiter_ok n now (evict_full fl t l)"
  using evict_full_subset [of fl t l] evict_full_length [of fl t l] evict_full_distinct [of l fl t]
  by (fastforce simp: limiter_ok_def list_all_iff less_imp_le)

lemma set_dict_set: "set (dict_set key b bs) \<subseteq> insert (key, b) (set bs)"
  by (induction key b bs rule: dict_set.induct) auto

lemma list_all_dict_set: "P (key, b) \<Longrightarrow> list_all P bs \<Longrightarrow> list_all P (dict_set key b bs)"
  using set_dict_set [of key b bs] by (auto simp: list_all_iff)

lemma limiter_ok_store:
  assumes l: "limiter_ok n now' l" and "now' \<le> now" and "0 \<le> t" and "t \<le> of_int n"
    and key: "key \<in> fst ` set (buckets l) \<or> length (buckets l) < MAX_TRACKED_KEYS"
  shows "limiter_ok n now (l\<lparr>buckets := dict_set key \<lparr>tokens = t, updated = now\<rparr> (buckets l)\<rparr>)"
proof -
  let ?P = "\<lambda>(_ :: pystr, b). 0 \<le> tokens b \<and> tokens b \<le> of_int n \<and> updated b \<le> now"
  have "list_all ?P (buckets l)"
    using l assms(2) by (fastforce simp: limiter_ok_def list_all_iff)
  then have "list_all ?P (dict_set key \<lparr>tokens = t, updated = now\<rparr> (buckets l))"
    using assms(3,4) by (intro list_all_dict_set) auto
  then show ?thesis
    using l key by (auto simp: limiter_ok_def distinct_dict_set length_dict_set Suc_le_eq)
qed

lemma refilled_bounds:
  assumes "float_ok fl n" and "limiter_ok n now' l" and "now' \<le> now" and "(key, b) \<in> set (buckets l)"
  shows "0 \<le> refilled fl now l b \<and> refilled fl now l b \<le> of_int n"
proof -
  from assms have b: "0 \<le> tokens b" "updated b \<le> now" "0 \<le> n" "0 \<le> refill_per_second l"
    "capacity l = of_int n"
    by (auto simp: limiter_ok_def list_all_iff)
  note fl = float_ok_bounds [OF assms(1) b(3)]
  have "0 \<le> fl (now - updated b) * refill_per_second l"
    using b fl(1) by simp
  then have "0 \<le> fl (tokens b + fl (fl (now - updated b) * refill_per_second l))"
    using b fl(1) by simp
  then show ?thesis using b by (simp add: refilled_def)
qed

lemma allow_limiter_ok:
  assumes "float_ok fl n" and "limiter_ok n now' l" and "now' \<le> now"
  shows "limiter_ok n now (snd (allow fl now key l))"
proof -
  from assms(2) have n: "0 \<le> n" "capacity l = of_int n" by (auto simp: limiter_ok_def)
  have fl: "0 \<le> fl (t - 1) \<and> fl (t - 1) \<le> of_int n" if "\<not> t < 1" "t \<le> of_int n" for t :: rat
    using float_ok_bounds [OF assms(1) n(1), of "t - 1"] that by auto
  show ?thesis
  proof (cases "map_of (buckets l) key")
    case None
    let ?l = "if length (buckets l) \<ge> MAX_TRACKED_KEYS then evict_full fl now l else l"
    have "limiter_ok n now' ?l" using assms(2) limiter_ok_evict by auto
    moreover have "length (buckets ?l) < MAX_TRACKED_KEYS" by simp
    ultimately show ?thesis
      using None n fl [of "capacity l"] limiter_ok_store [of n now' ?l now _ key] assms(3)
      by (auto simp: allow_def Let_def)
  next
    case (Some b)
    then have b: "(key, b) \<in> set (buckets l)" by (rule map_of_SomeD)
    then have "key \<in> fst ` set (buckets l)" by force
    then show ?thesis
      using Some refilled_bounds [OF assms b] fl [of "refilled fl now l b"]
        limiter_ok_store [OF assms(2,3)]
      by (auto simp: allow_def Let_def)
  qed
qed

lemma limiter_ok_later: "limiter_ok n now l \<Longrightarrow> now \<le> now' \<Longrightarrow> limiter_ok n now' l"
  by (fastforce simp: limiter_ok_def list_all_iff)

text \<open>Clock readings that never go back, from \<open>t0\<close> on (\<open>time.monotonic\<close>).\<close>

fun clocked :: "rat \<Rightarrow> (rat \<times> pystr) list \<Rightarrow> bool" where
  "clocked t0 [] = True"
| "clocked t0 ((now, _) # cs) = (t0 \<le> now \<and> clocked now cs)"

fun last_clock :: "rat \<Rightarrow> (rat \<times> pystr) list \<Rightarrow> rat" where
  "last_clock t0 [] = t0"
| "last_clock t0 ((now, _) # cs) = last_clock now cs"

lemma clocked_last: "clocked t0 cs \<Longrightarrow> t0 \<le> last_clock t0 cs"
  by (induction t0 cs rule: clocked.induct) auto

lemma allow_all_limiter_ok:
  "float_ok fl n \<Longrightarrow> limiter_ok n t0 l \<Longrightarrow> clocked t0 cs \<Longrightarrow>
   limiter_ok n (last_clock t0 cs) (snd (allow_all fl cs l))"
proof (induction cs arbitrary: t0 l)
  case (Cons c cs)
  obtain now key where c: "c = (now, key)" by (cases c)
  have "limiter_ok n now (snd (allow fl now key l))"
    using allow_limiter_ok [OF Cons.prems(1,2)] Cons.prems(3) by (simp add: c)
  from Cons.IH [OF Cons.prems(1) this] Cons.prems(3) show ?case
    by (simp add: c split: prod.splits) (metis snd_conv)
qed simp

text \<open>
  C36. The limiter's memory and its buckets stay bounded: after any run of calls at clock readings
  that do not go back, from a freshly built limiter of \<open>n\<close> requests a minute, it tracks at most
  \<open>MAX_TRACKED_KEYS\<close> keys, each once, and every bucket holds between 0 and \<open>n\<close> tokens and was
  refreshed no later than the last call. The floats are rounded by any \<open>fl\<close> that is monotone and
  exact on the integers up to \<open>n\<close>.
\<close>
theorem limiter_bounded:
  assumes "float_ok fl n" and "1 \<le> n" and "clocked t0 cs"
  shows "limiter_ok n (last_clock t0 cs) (snd (allow_all fl cs (rate_limiter fl n)))"
  using allow_all_limiter_ok [OF assms(1) limiter_ok_new [OF assms(1,2)] assms(3)] .

theorem limiter_bounded_witness:
  "limiter_ok 2 7 (snd (allow_all id [(5, ustr ''a''), (7, ustr ''b'')] (rate_limiter id 2)))"
  using limiter_bounded [of id 2 5 "[(5, ustr ''a''), (7, ustr ''b'')]"] by (simp add: float_ok_id)

section \<open>Burst\<close>

lemma allow_frozen:
  assumes "float_ok fl n" and "capacity l = of_int n" and "0 \<le> n" and "0 \<le> i" and "i \<le> n"
    and "map_of (buckets l) key = Some \<lparr>tokens = of_int i, updated = now\<rparr>"
  shows "fst (allow fl now key l) = (1 \<le> i)"
    and "capacity (snd (allow fl now key l)) = of_int n"
    and "map_of (buckets (snd (allow fl now key l))) key
           = Some \<lparr>tokens = of_int (if 1 \<le> i then i - 1 else i), updated = now\<rparr>"
proof -
  have fl: "fl 0 = 0" "fl (of_int i) = of_int i"
    using float_ok_int [OF assms(1), of 0] float_ok_int [OF assms(1), of i] assms(3-5) by simp_all
  have fl1: "fl (of_int i - 1) = of_int (i - 1)" if "1 \<le> i"
    using float_ok_int [OF assms(1), of "i - 1"] assms(5) that by simp
  have r: "refilled fl now l \<lparr>tokens = of_int i, updated = now\<rparr> = of_int i"
    using assms(2,5) fl by (simp add: refilled_def)
  have lt: "(of_int i < (1 :: rat)) = (\<not> 1 \<le> i)" by linarith
  show "fst (allow fl now key l) = (1 \<le> i)"
    and "capacity (snd (allow fl now key l)) = of_int n"
    and "map_of (buckets (snd (allow fl now key l))) key
           = Some \<lparr>tokens = of_int (if 1 \<le> i then i - 1 else i), updated = now\<rparr>"
    using assms(2,6) fl1 by (simp_all add: allow_def Let_def r lt map_of_dict_set)
qed

lemma burst_from:
  assumes "float_ok fl n" and "0 \<le> n"
  shows "capacity l = of_int n \<Longrightarrow> 0 \<le> i \<Longrightarrow> i \<le> n \<Longrightarrow>
    map_of (buckets l) key = Some \<lparr>tokens = of_int i, updated = now\<rparr> \<Longrightarrow>
    fst (allow_all fl (replicate m (now, key)) l) = map (\<lambda>j. int j < i) [0..<m]"
proof (induction m arbitrary: l i)
  case (Suc m)
  note a = allow_frozen [OF assms(1) Suc.prems(1) assms(2) Suc.prems(2-4)]
  let ?i = "if 1 \<le> i then i - 1 else i"
  have "fst (allow_all fl (replicate m (now, key)) (snd (allow fl now key l)))
      = map (\<lambda>j. int j < ?i) [0..<m]"
    using Suc.IH [OF a(2) _ _ a(3)] Suc.prems(2,3) by auto
  also have "\<dots> = map (\<lambda>j. int (Suc j) < i) [0..<m]"
    using Suc.prems(2) by auto
  finally have rest: "fst (allow_all fl (replicate m (now, key)) (snd (allow fl now key l)))
      = map (\<lambda>j. int (Suc j) < i) [0..<m]" .
  have "map (\<lambda>j. int j < i) [0..<Suc m] = (1 \<le> i) # map (\<lambda>j. int (Suc j) < i) [0..<m]"
    by (simp add: upt_conv_Cons map_Suc_upt [symmetric] o_def del: upt_Suc) linarith
  then show ?case
    using rest a(1) by (simp add: case_prod_beta del: upt_Suc)
qed simp

text \<open>
  Bursts: a client that is not tracked yet and sends \<open>m\<close> requests at one clock reading gets its
  first \<open>n\<close> requests (the configured number per minute) answered and every further one refused;
  rounding loses no token.
\<close>
theorem burst_exact:
  assumes "float_ok fl n" and "limiter_ok n now l" and "key \<notin> fst ` set (buckets l)"
  shows "fst (allow_all fl (replicate m (now, key)) l) = map (\<lambda>j. int j < n) [0..<m]"
proof (cases m)
  case (Suc m')
  have n: "1 \<le> n" "0 \<le> n" and cap: "capacity l = of_int n" using assms(2) by (auto simp: limiter_ok_def)
  have none: "map_of (buckets l) key = None" using assms(3) by (simp add: map_of_eq_None_iff)
  have fl1: "fl (of_int n - 1) = of_int (n - 1)"
    using float_ok_int [OF assms(1), of "n - 1"] n by simp
  let ?l = "snd (allow fl now key l)"
  have first: "fst (allow fl now key l)"
    and next_cap: "capacity ?l = of_int n"
    and next_b: "map_of (buckets ?l) key = Some \<lparr>tokens = of_int (n - 1), updated = now\<rparr>"
    using none cap n fl1 by (auto simp: allow_def Let_def map_of_dict_set)
  have "fst (allow_all fl (replicate m' (now, key)) ?l) = map (\<lambda>j. int j < n - 1) [0..<m']"
    using burst_from [OF assms(1) n(2) next_cap _ _ next_b] n by simp
  moreover have "map (\<lambda>j. int j < n) [0..<Suc m'] = True # map (\<lambda>j. int j < n - 1) [0..<m']"
    using n by (auto simp: upt_conv_Cons map_Suc_upt [symmetric] simp del: upt_Suc)
  ultimately show ?thesis using first Suc by (simp add: case_prod_beta del: upt_Suc)
qed simp

theorem burst_exact_witness:
  "fst (allow_all id (replicate 3 (5, ustr ''a'')) (rate_limiter id 2)) = [True, True, False]"
  using burst_exact [of id 2 5 "rate_limiter id 2" "ustr ''a''" 3]
  by (simp add: float_ok_id limiter_ok_new rate_limiter_def limiter_ok_def upt_rec)

section \<open>Sustained rate\<close>

text \<open>What a client could spend at \<open>now\<close>, in exact arithmetic: an untracked one has a full bucket.\<close>

definition avail :: "rat \<Rightarrow> limiter \<Rightarrow> pystr \<Rightarrow> rat" where
  "avail now l key =
     (case map_of (buckets l) key of None \<Rightarrow> capacity l | Some b \<Rightarrow> refilled id now l b)"

text \<open>How many of the calls \<open>cs\<close> with answers \<open>oks\<close> were a granted request of \<open>key\<close>.\<close>

definition granted :: "pystr \<Rightarrow> (rat \<times> pystr) list \<Rightarrow> bool list \<Rightarrow> nat" where
  "granted key cs oks = length (filter (\<lambda>((_, k), ok). k = key \<and> ok) (zip cs oks))"

lemma granted_simps [simp]:
  "granted key [] oks = 0"
  "granted key (c # cs) (ok # oks) = (if snd c = key \<and> ok then 1 else 0) + granted key cs oks"
  by (auto simp: granted_def split: prod.splits)







section \<open>Eviction\<close>

lemma map_of_filter_val:
  "distinct (map fst xs) \<Longrightarrow> map_of (filter (\<lambda>(_, b). \<not> P b) xs) k
     = (case map_of xs k of None \<Rightarrow> None | Some b \<Rightarrow> if P b then None else Some b)"
  by (induction xs) (force split: option.splits dest: map_of_SomeD)+

text \<open>
  Forgetting refilled clients changes no answer: when dropping the clients whose bucket has had
  time to refill makes room, every client gets from then on the answer it would have got from the
  limiter that still tracked all of them (in exact arithmetic, at any later clock reading).
\<close>
theorem evict_unnoticed:
  assumes "limiter_ok n now l" and "0 < refill_per_second l" and "now \<le> t"
    and "\<exists>b \<in> snd ` set (buckets l). now - updated b \<ge> capacity l / refill_per_second l"
  shows "avail t (evict_full id now l) key = avail t l key"
proof -
  let ?stale = "\<lambda>b. now - updated b \<ge> capacity l / refill_per_second l"
  have len: "length (buckets l) \<le> MAX_TRACKED_KEYS" and dist: "distinct (map fst (buckets l))"
    using assms(1) by (auto simp: limiter_ok_def)
  let ?left = "filter (\<lambda>(_, b). \<not> ?stale b) (buckets l)"
  have "length ?left < length (buckets l)"
  proof -
    obtain p where "p \<in> set (buckets l)" "?stale (snd p)" using assms(4) by auto
    then show ?thesis by (intro length_filter_less [of p]) (auto simp: case_prod_beta)
  qed
  then have ev: "buckets (evict_full id now l) = ?left"
    using len by (simp add: evict_full_def Let_def)
  have full: "refilled id t l b = capacity l" if "(k, b) \<in> set (buckets l)" "?stale b" for k b
  proof -
    have "capacity l / refill_per_second l \<le> t - updated b" using that(2) assms(3) by linarith
    then have "capacity l \<le> (t - updated b) * refill_per_second l"
      using assms(2) by (simp add: pos_divide_le_eq)
    moreover have "0 \<le> tokens b" using assms(1) that(1) by (auto simp: limiter_ok_def list_all_iff)
    ultimately show ?thesis by (simp add: refilled_def)
  qed
  have "map_of ?left key
      = (case map_of (buckets l) key of None \<Rightarrow> None | Some b \<Rightarrow> if ?stale b then None else Some b)"
    by (rule map_of_filter_val [OF dist])
  then show ?thesis
    using full map_of_SomeD [of "buckets l" key] 
    by (auto simp: avail_def ev refilled_def split: option.splits if_splits)
qed

theorem evict_unnoticed_witness:
  "avail 70 (evict_full id 65 (snd (allow id 5 (ustr ''a'') (rate_limiter id 1)))) (ustr ''a'')
     = avail 70 (snd (allow id 5 (ustr ''a'') (rate_limiter id 1))) (ustr ''a'')"
  using evict_unnoticed [of 1 65 "snd (allow id 5 (ustr ''a'') (rate_limiter id 1))" 70 "ustr ''a''"]
  by (simp add: limiter_ok_def rate_limiter_def allow_def Let_def MAX_TRACKED_KEYS_def)

end
