(* ===== verification/Database.thy ===== *)
theory Database
  imports Uuids Hashing
begin

text \<open>
  \<open>db/models.py\<close>: the five tables as lists of rows, the column types and the constraints the
  database enforces at a commit, and the statements the services issue. An \<open>IN (...)\<close> check on a
  status column is the datatype of that column. Integers are unbounded here and their column widths
  are part of \<open>row types\<close> below; times are microseconds.
\<close>

datatype file_status = Uploading | Available | Deleted
datatype node_status = Healthy | Unreachable | Decommissioned
datatype shard_kind = Data | Parity
datatype audit_event_type =
  file_uploaded | link_generated | download_success | download_denied | file_deleted

record user_row =
  u_id :: uuid
  u_email :: pystr
  u_api_key_hash :: pystr
  u_created_at :: int

record file_row =
  f_id :: uuid
  f_owner_user_id :: uuid
  f_original_name :: pystr
  f_content_type :: pystr
  f_size_bytes :: nat
  f_checksum_sha256 :: pystr
  f_data_shards :: nat
  f_parity_shards :: nat
  f_link_version :: int
  f_status :: file_status
  f_uploaded_at :: int
  f_deleted_at :: "int option"

record node_row =
  n_id :: uuid
  n_address :: pystr
  n_status :: node_status
  n_last_seen_at :: "int option"
  n_created_at :: int

record shard_row =
  s_id :: uuid
  s_file_id :: uuid
  s_shard_index :: nat
  s_kind :: shard_kind
  s_node_id :: uuid
  s_checksum_sha256 :: pystr
  s_size_bytes :: nat
  s_created_at :: int

record audit_row =
  a_id :: uuid
  a_file_id :: "uuid option"
  a_actor_user_id :: "uuid option"
  a_event_type :: audit_event_type
  a_ttl_seconds :: "int option"
  a_ip_address :: "pystr option"
  a_created_at :: int

record db =
  users :: "user_row list"
  files :: "file_row list"
  nodes :: "node_row list"
  shards :: "shard_row list"
  audits :: "audit_row list"

definition empty_db :: db where
  "empty_db = \<lparr>users = [], files = [], nodes = [], shards = [], audits = []\<rparr>"

section \<open>Constraints\<close>

text \<open>What PostgreSQL stores as text: encodable, without NUL.\<close>

definition text_ok :: "pystr \<Rightarrow> bool" where
  "text_ok s \<longleftrightarrow> list_all encodable s \<and> 0 \<notin> set s"

definition user_ok :: "user_row \<Rightarrow> bool" where
  "user_ok u \<longleftrightarrow> text_ok (u_email u) \<and> text_ok (u_api_key_hash u) \<and> length (u_api_key_hash u) \<le> 64"

definition file_ok :: "file_row \<Rightarrow> bool" where
  "file_ok f \<longleftrightarrow>
     text_ok (f_original_name f) \<and> text_ok (f_content_type f) \<and> text_ok (f_checksum_sha256 f) \<and>
     length (f_checksum_sha256 f) \<le> 64 \<and> 0 < f_size_bytes f \<and> f_size_bytes f < 2 ^ 63 \<and>
     1 \<le> f_data_shards f \<and> f_data_shards f < 2 ^ 15 \<and> 1 \<le> f_parity_shards f \<and> f_parity_shards f < 2 ^ 15 \<and>
     - (2 ^ 31) \<le> f_link_version f \<and> f_link_version f < 2 ^ 31"

definition node_ok :: "node_row \<Rightarrow> bool" where
  "node_ok n \<longleftrightarrow> text_ok (n_address n)"

definition shard_ok :: "shard_row \<Rightarrow> bool" where
  "shard_ok s \<longleftrightarrow>
     s_shard_index s < 2 ^ 15 \<and> text_ok (s_checksum_sha256 s) \<and> length (s_checksum_sha256 s) \<le> 64 \<and>
     s_size_bytes s < 2 ^ 63"

definition audit_ok :: "audit_row \<Rightarrow> bool" where
  "audit_ok a \<longleftrightarrow> (case a_ttl_seconds a of None \<Rightarrow> True | Some t \<Rightarrow> - (2 ^ 31) \<le> t \<and> t < 2 ^ 31)"

definition row_types_ok :: "db \<Rightarrow> bool" where
  "row_types_ok d \<longleftrightarrow>
     list_all user_ok (users d) \<and> list_all file_ok (files d) \<and> list_all node_ok (nodes d) \<and>
     list_all shard_ok (shards d) \<and> list_all audit_ok (audits d)"

definition keys_unique :: "db \<Rightarrow> bool" where
  "keys_unique d \<longleftrightarrow>
     distinct (map u_id (users d)) \<and> distinct (map u_email (users d)) \<and>
     distinct (map u_api_key_hash (users d)) \<and> distinct (map f_id (files d)) \<and>
     distinct (map n_id (nodes d)) \<and> distinct (map n_address (nodes d)) \<and>
     distinct (map s_id (shards d)) \<and>
     distinct (map (\<lambda>s. (s_file_id s, s_shard_index s)) (shards d)) \<and>
     distinct (map a_id (audits d))"

definition references_ok :: "db \<Rightarrow> bool" where
  "references_ok d \<longleftrightarrow>
     list_all (\<lambda>f. f_owner_user_id f \<in> u_id ` set (users d)) (files d) \<and>
     list_all (\<lambda>s. s_file_id s \<in> f_id ` set (files d) \<and> s_node_id s \<in> n_id ` set (nodes d)) (shards d) \<and>
     list_all (\<lambda>a. (case a_file_id a of None \<Rightarrow> True | Some i \<Rightarrow> i \<in> f_id ` set (files d)) \<and>
                   (case a_actor_user_id a of None \<Rightarrow> True | Some i \<Rightarrow> i \<in> u_id ` set (users d))) (audits d)"

definition constraints_ok :: "db \<Rightarrow> bool" where
  "constraints_ok d \<longleftrightarrow> row_types_ok d \<and> keys_unique d \<and> references_ok d"

section \<open>Statements\<close>

text \<open>\<open>db.get(File, id)\<close>.\<close>

definition get_file :: "uuid \<Rightarrow> db \<Rightarrow> file_row option" where
  "get_file i d = find (\<lambda>f. f_id f = i) (files d)"

text \<open>Shards of a file joined with their nodes.\<close>

definition join_node :: "db \<Rightarrow> shard_row \<Rightarrow> (shard_row \<times> node_row) list" where
  "join_node d s = map (Pair s) (filter (\<lambda>n. n_id n = s_node_id s) (nodes d))"

definition placed_shards :: "uuid \<Rightarrow> db \<Rightarrow> (shard_row \<times> node_row) list" where
  "placed_shards i d = concat (map (join_node d) (filter (\<lambda>s. s_file_id s = i) (shards d)))"

definition add_file :: "file_row \<Rightarrow> db \<Rightarrow> db" where
  "add_file f d = d\<lparr>files := files d @ [f]\<rparr>"

definition add_shards :: "shard_row list \<Rightarrow> db \<Rightarrow> db" where
  "add_shards ss d = d\<lparr>shards := shards d @ ss\<rparr>"

definition add_audit :: "audit_row \<Rightarrow> db \<Rightarrow> db" where
  "add_audit a d = d\<lparr>audits := audits d @ [a]\<rparr>"

definition set_file :: "uuid \<Rightarrow> (file_row \<Rightarrow> file_row) \<Rightarrow> db \<Rightarrow> db" where
  "set_file i g d = d\<lparr>files := map (\<lambda>f. if f_id f = i then g f else f) (files d)\<rparr>"

definition set_node :: "uuid \<Rightarrow> (node_row \<Rightarrow> node_row) \<Rightarrow> db \<Rightarrow> db" where
  "set_node i g d = d\<lparr>nodes := map (\<lambda>n. if n_id n = i then g n else n) (nodes d)\<rparr>"

definition set_shard :: "uuid \<Rightarrow> (shard_row \<Rightarrow> shard_row) \<Rightarrow> db \<Rightarrow> db" where
  "set_shard i g d = d\<lparr>shards := map (\<lambda>s. if s_id s = i then g s else s) (shards d)\<rparr>"

definition delete_shard_row :: "uuid \<Rightarrow> db \<Rightarrow> db" where
  "delete_shard_row i d = d\<lparr>shards := filter (\<lambda>s. s_id s \<noteq> i) (shards d)\<rparr>"

text \<open>\<open>delete(File)\<close>: its shards go with it, its audit rows stay without the reference.\<close>

definition delete_file_row :: "uuid \<Rightarrow> db \<Rightarrow> db" where
  "delete_file_row i d =
     d\<lparr>files := filter (\<lambda>f. f_id f \<noteq> i) (files d),
       shards := filter (\<lambda>s. s_file_id s \<noteq> i) (shards d),
       audits := map (\<lambda>a. if a_file_id a = Some i then a\<lparr>a_file_id := None\<rparr> else a) (audits d)\<rparr>"

section \<open>Lemmas\<close>

lemma get_file_Some:
  "get_file i d = Some f \<Longrightarrow> f \<in> set (files d) \<and> f_id f = i"
  by (auto simp: get_file_def find_Some_iff)

lemma get_file_unique:
  assumes "distinct (map f_id (files d))" and "f \<in> set (files d)"
  shows "get_file (f_id f) d = Some f"
proof -
  have "\<exists>g. get_file (f_id f) d = Some g"
    using assms(2) by (auto simp: get_file_def find_None_iff simp flip: not_None_eq)
  then obtain g where g: "get_file (f_id f) d = Some g" by blast
  then have "g = f"
    using get_file_Some [OF g] assms by (auto simp: distinct_map inj_on_def)
  then show ?thesis using g by simp
qed

lemma placed_shards_iff:
  "(s, n) \<in> set (placed_shards i d) \<longleftrightarrow>
     s \<in> set (shards d) \<and> s_file_id s = i \<and> n \<in> set (nodes d) \<and> n_id n = s_node_id s"
  by (auto simp: placed_shards_def join_node_def)

lemma constraints_okD:
  "constraints_ok d \<Longrightarrow> row_types_ok d" "constraints_ok d \<Longrightarrow> keys_unique d" "constraints_ok d \<Longrightarrow> references_ok d"
  by (simp_all add: constraints_ok_def)

text \<open>A key names one row.\<close>

lemma keys_inj:
  assumes "constraints_ok d"
  shows "inj_on u_id (set (users d))" "inj_on u_api_key_hash (set (users d))" "inj_on f_id (set (files d))"
    "inj_on n_id (set (nodes d))" "inj_on n_address (set (nodes d))" "inj_on s_id (set (shards d))"
  using constraints_okD(2) [OF assms] by (simp_all add: keys_unique_def distinct_map)

lemma references_okD:
  assumes "references_ok d"
  shows "f \<in> set (files d) \<Longrightarrow> f_owner_user_id f \<in> u_id ` set (users d)"
    and "s \<in> set (shards d) \<Longrightarrow> s_file_id s \<in> f_id ` set (files d)"
    and "s \<in> set (shards d) \<Longrightarrow> s_node_id s \<in> n_id ` set (nodes d)"
    and "a \<in> set (audits d) \<Longrightarrow> a_file_id a = Some i \<Longrightarrow> i \<in> f_id ` set (files d)"
    and "a \<in> set (audits d) \<Longrightarrow> a_actor_user_id a = Some i \<Longrightarrow> i \<in> u_id ` set (users d)"
proof -
  note r = assms [unfolded references_ok_def list_all_iff]
  show "f \<in> set (files d) \<Longrightarrow> f_owner_user_id f \<in> u_id ` set (users d)"
    "s \<in> set (shards d) \<Longrightarrow> s_file_id s \<in> f_id ` set (files d)"
    "s \<in> set (shards d) \<Longrightarrow> s_node_id s \<in> n_id ` set (nodes d)"
    using r by blast+
  show "a \<in> set (audits d) \<Longrightarrow> a_file_id a = Some i \<Longrightarrow> i \<in> f_id ` set (files d)"
    "a \<in> set (audits d) \<Longrightarrow> a_actor_user_id a = Some i \<Longrightarrow> i \<in> u_id ` set (users d)"
    using bspec [OF conjunct2 [OF conjunct2 [OF r]]] by fastforce+
qed

lemma references_okI:
  assumes "\<And>f. f \<in> set (files d) \<Longrightarrow> f_owner_user_id f \<in> u_id ` set (users d)"
    and "\<And>s. s \<in> set (shards d) \<Longrightarrow> s_file_id s \<in> f_id ` set (files d)"
    and "\<And>s. s \<in> set (shards d) \<Longrightarrow> s_node_id s \<in> n_id ` set (nodes d)"
    and "\<And>a i. a \<in> set (audits d) \<Longrightarrow> a_file_id a = Some i \<Longrightarrow> i \<in> f_id ` set (files d)"
    and "\<And>a i. a \<in> set (audits d) \<Longrightarrow> a_actor_user_id a = Some i \<Longrightarrow> i \<in> u_id ` set (users d)"
  shows "references_ok d"
  using assms by (simp add: references_ok_def list_all_iff split: option.split)

lemma references_delete_file:
  assumes "references_ok d"
  shows "references_ok (delete_file_row i d)"
proof (rule references_okI)
  fix a j
  assume "a \<in> set (audits (delete_file_row i d))"
  then obtain b where b: "b \<in> set (audits d)" "a = (if a_file_id b = Some i then b\<lparr>a_file_id := None\<rparr> else b)"
    by (auto simp: delete_file_row_def)
  show "a_file_id a = Some j \<Longrightarrow> j \<in> f_id ` set (files (delete_file_row i d))"
    using references_okD(4) [OF assms b(1)] b(2) by (auto simp: delete_file_row_def split: if_splits)
  show "a_actor_user_id a = Some j \<Longrightarrow> j \<in> u_id ` set (users (delete_file_row i d))"
    using references_okD(5) [OF assms b(1)] b(2) by (auto simp: delete_file_row_def split: if_splits)
next
  fix s
  assume "s \<in> set (shards (delete_file_row i d))"
  then have "s \<in> set (shards d)" "s_file_id s \<noteq> i" by (simp_all add: delete_file_row_def)
  then show "s_file_id s \<in> f_id ` set (files (delete_file_row i d))"
    "s_node_id s \<in> n_id ` set (nodes (delete_file_row i d))"
    using references_okD(2,3) [OF assms] by (auto simp: delete_file_row_def)
qed (use references_okD(1) [OF assms] in \<open>simp add: delete_file_row_def\<close>)

lemma constraints_delete_file:
  assumes "constraints_ok d"
  shows "constraints_ok (delete_file_row i d)"
proof -
  have "a_id \<circ> (\<lambda>a :: audit_row. if a_file_id a = Some i then a\<lparr>a_file_id := None\<rparr> else a) = a_id"
    by (rule ext) simp
  then have "keys_unique (delete_file_row i d)"
    using assms by (simp add: constraints_ok_def keys_unique_def delete_file_row_def distinct_map_filter)
  moreover have "row_types_ok (delete_file_row i d)"
    using assms by (auto simp: constraints_ok_def row_types_ok_def delete_file_row_def list_all_iff audit_ok_def)
  ultimately show ?thesis
    using assms references_delete_file by (simp add: constraints_ok_def)
qed

end
