(* ===== verification/Schema.thy ===== *)
theory Schema
  imports Database
begin

text \<open>
  \<open>migrations/versions/7d5619c519c1_initial_schema.py\<close>: the tables as the migration creates them in PostgreSQL, and what
  a database with these tables accepts. The statements run in one transaction: an error leaves nothing.
  The theorem ties the constraints of the model (\<open>Database\<close>) to the tables the database really has.
\<close>

section \<open>Tables and statements\<close>

datatype sql_type = SUuid | SText "nat option" | SInteger nat | STimestamp | SInet

datatype sql_check =
    Is_in string "string list"
  | Is_greater string int
  | Is_at_least string int
  | Both sql_check sql_check

datatype on_delete = No_action | Cascade | Set_null

datatype table_constraint =
    Primary_key "string list"
  | Unique "string list"
  | Foreign_key "string list" string "string list" on_delete
  | Check sql_check

record sql_column =
  c_name :: string
  c_type :: sql_type
  c_default :: "string option"
  c_nullable :: bool

record sql_table =
  t_name :: string
  t_columns :: "sql_column list"
  t_constraints :: "table_constraint list"

record sql_index =
  i_name :: string
  i_table :: string
  i_columns :: "string list"

datatype op = Create_table sql_table | Create_index sql_index | Drop_table string | Drop_index string string

record schema =
  sc_tables :: "sql_table list"
  sc_indexes :: "sql_index list"

definition empty_schema :: schema where
  "empty_schema = \<lparr>sc_tables = [], sc_indexes = []\<rparr>"

definition find_table :: "schema \<Rightarrow> string \<Rightarrow> sql_table option" where
  "find_table S n = find (\<lambda>t. t_name t = n) (sc_tables S)"

definition has_columns :: "sql_table \<Rightarrow> string list \<Rightarrow> bool" where
  "has_columns t cs \<longleftrightarrow> list_all (\<lambda>c. c \<in> c_name ` set (t_columns t)) cs"

fun check_columns :: "sql_check \<Rightarrow> string list" where
  "check_columns (Is_in c vs) = [c]"
| "check_columns (Is_greater c n) = [c]"
| "check_columns (Is_at_least c n) = [c]"
| "check_columns (Both a b) = check_columns a @ check_columns b"

text \<open>A foreign key refers to a key of an existing table.\<close>

fun constraint_valid :: "schema \<Rightarrow> sql_table \<Rightarrow> table_constraint \<Rightarrow> bool" where
  "constraint_valid S t (Primary_key cs) = has_columns t cs"
| "constraint_valid S t (Unique cs) = has_columns t cs"
| "constraint_valid S t (Check k) = has_columns t (check_columns k)"
| "constraint_valid S t (Foreign_key cs r rcs act) =
     (has_columns t cs \<and>
      (case find_table S r of None \<Rightarrow> False
       | Some u \<Rightarrow> Primary_key rcs \<in> set (t_constraints u) \<or> Unique rcs \<in> set (t_constraints u)))"

fun refers_to :: "string \<Rightarrow> table_constraint \<Rightarrow> bool" where
  "refers_to n (Foreign_key cs r rcs act) = (r = n)"
| "refers_to n _ = False"

fun run_op :: "op \<Rightarrow> schema \<Rightarrow> schema option" where
  "run_op (Create_table t) S =
     (if find_table S (t_name t) = None \<and> distinct (map c_name (t_columns t)) \<and>
         list_all (constraint_valid S t) (t_constraints t)
      then Some (S\<lparr>sc_tables := sc_tables S @ [t]\<rparr>) else None)"
| "run_op (Create_index i) S =
     (case find_table S (i_table i) of
        None \<Rightarrow> None
      | Some t \<Rightarrow> if has_columns t (i_columns i) \<and> i_name i \<notin> i_name ` set (sc_indexes S)
                  then Some (S\<lparr>sc_indexes := sc_indexes S @ [i]\<rparr>) else None)"
| "run_op (Drop_table n) S =
     (if find_table S n = None \<or>
         list_ex (\<lambda>t. t_name t \<noteq> n \<and> list_ex (refers_to n) (t_constraints t)) (sc_tables S)
      then None
      else Some \<lparr>sc_tables = filter (\<lambda>t. t_name t \<noteq> n) (sc_tables S),
                 sc_indexes = filter (\<lambda>i. i_table i \<noteq> n) (sc_indexes S)\<rparr>)"
| "run_op (Drop_index n t) S =
     (if list_ex (\<lambda>i. i_name i = n \<and> i_table i = t) (sc_indexes S)
      then Some (S\<lparr>sc_indexes := filter (\<lambda>i. i_name i \<noteq> n) (sc_indexes S)\<rparr>) else None)"

fun migrate :: "op list \<Rightarrow> schema \<Rightarrow> schema option" where
  "migrate [] S = Some S"
| "migrate (p # ps) S = (case run_op p S of None \<Rightarrow> None | Some S' \<Rightarrow> migrate ps S')"

section \<open>The migration\<close>

definition column :: "string \<Rightarrow> sql_type \<Rightarrow> sql_column" where
  "column n ty = \<lparr>c_name = n, c_type = ty, c_default = None, c_nullable = False\<rparr>"

definition null_column :: "string \<Rightarrow> sql_type \<Rightarrow> sql_column" where
  "null_column n ty = (column n ty)\<lparr>c_nullable := True\<rparr>"

definition default_column :: "string \<Rightarrow> sql_type \<Rightarrow> string \<Rightarrow> sql_column" where
  "default_column n ty e = (column n ty)\<lparr>c_default := Some e\<rparr>"

definition storage_nodes_table :: sql_table where
  "storage_nodes_table =
     \<lparr>t_name = ''storage_nodes'',
      t_columns =
        [column ''id'' SUuid,
         column ''address'' (SText None),
         default_column ''status'' (SText None) ''healthy'',
         null_column ''last_seen_at'' STimestamp,
         default_column ''created_at'' STimestamp ''now()''],
      t_constraints =
        [Check (Is_in ''status'' [''healthy'', ''unreachable'', ''decommissioned'']),
         Primary_key [''id''],
         Unique [''address'']]\<rparr>"

definition users_table :: sql_table where
  "users_table =
     \<lparr>t_name = ''users'',
      t_columns =
        [column ''id'' SUuid,
         column ''email'' (SText None),
         column ''api_key_hash'' (SText (Some 64)),
         default_column ''created_at'' STimestamp ''now()''],
      t_constraints =
        [Primary_key [''id''],
         Unique [''api_key_hash''],
         Unique [''email'']]\<rparr>"

definition files_table :: sql_table where
  "files_table =
     \<lparr>t_name = ''files'',
      t_columns =
        [column ''id'' SUuid,
         column ''owner_user_id'' SUuid,
         column ''original_name'' (SText None),
         column ''content_type'' (SText None),
         column ''size_bytes'' (SInteger 64),
         column ''checksum_sha256'' (SText (Some 64)),
         column ''data_shards'' (SInteger 16),
         column ''parity_shards'' (SInteger 16),
         default_column ''link_version'' (SInteger 32) ''1'',
         default_column ''status'' (SText None) ''uploading'',
         default_column ''uploaded_at'' STimestamp ''now()'',
         null_column ''deleted_at'' STimestamp],
      t_constraints =
        [Check (Is_in ''status'' [''uploading'', ''available'', ''deleted'']),
         Check (Both (Is_at_least ''data_shards'' 1) (Is_at_least ''parity_shards'' 1)),
         Check (Is_greater ''size_bytes'' 0),
         Foreign_key [''owner_user_id''] ''users'' [''id''] No_action,
         Primary_key [''id'']]\<rparr>"

definition audit_events_table :: sql_table where
  "audit_events_table =
     \<lparr>t_name = ''audit_events'',
      t_columns =
        [column ''id'' SUuid,
         null_column ''file_id'' SUuid,
         null_column ''actor_user_id'' SUuid,
         column ''event_type'' (SText None),
         null_column ''ttl_seconds'' (SInteger 32),
         null_column ''ip_address'' SInet,
         default_column ''created_at'' STimestamp ''now()''],
      t_constraints =
        [Check (Is_in ''event_type''
           [''file_uploaded'', ''link_generated'', ''download_success'', ''download_denied'', ''file_deleted'']),
         Foreign_key [''actor_user_id''] ''users'' [''id''] No_action,
         Foreign_key [''file_id''] ''files'' [''id''] Set_null,
         Primary_key [''id'']]\<rparr>"

definition shards_table :: sql_table where
  "shards_table =
     \<lparr>t_name = ''shards'',
      t_columns =
        [column ''id'' SUuid,
         column ''file_id'' SUuid,
         column ''shard_index'' (SInteger 16),
         column ''kind'' (SText None),
         column ''node_id'' SUuid,
         column ''checksum_sha256'' (SText (Some 64)),
         column ''size_bytes'' (SInteger 64),
         default_column ''created_at'' STimestamp ''now()''],
      t_constraints =
        [Check (Is_in ''kind'' [''data'', ''parity'']),
         Check (Is_at_least ''shard_index'' 0),
         Foreign_key [''file_id''] ''files'' [''id''] Cascade,
         Foreign_key [''node_id''] ''storage_nodes'' [''id''] No_action,
         Primary_key [''id''],
         Unique [''file_id'', ''shard_index'']]\<rparr>"

definition upgrade :: "op list" where
  "upgrade =
     [Create_table storage_nodes_table,
      Create_table users_table,
      Create_table files_table,
      Create_index \<lparr>i_name = ''idx_files_owner'', i_table = ''files'', i_columns = [''owner_user_id'']\<rparr>,
      Create_table audit_events_table,
      Create_index \<lparr>i_name = ''idx_audit_created_at'', i_table = ''audit_events'', i_columns = [''created_at'']\<rparr>,
      Create_index \<lparr>i_name = ''idx_audit_file'', i_table = ''audit_events'', i_columns = [''file_id'']\<rparr>,
      Create_table shards_table,
      Create_index \<lparr>i_name = ''idx_shards_node'', i_table = ''shards'', i_columns = [''node_id'']\<rparr>]"

definition downgrade :: "op list" where
  "downgrade =
     [Drop_index ''idx_shards_node'' ''shards'',
      Drop_table ''shards'',
      Drop_index ''idx_audit_file'' ''audit_events'',
      Drop_index ''idx_audit_created_at'' ''audit_events'',
      Drop_table ''audit_events'',
      Drop_index ''idx_files_owner'' ''files'',
      Drop_table ''files'',
      Drop_table ''users'',
      Drop_table ''storage_nodes'']"

section \<open>What a database with these tables accepts\<close>

datatype sql_value = Null | VUuid uuid | VText pystr | VInt int | VTime int

type_synonym sql_row = "(string \<times> sql_value) list"
type_synonym sql_data = "string \<Rightarrow> sql_row list"

definition sql_get :: "sql_row \<Rightarrow> string \<Rightarrow> sql_value" where
  "sql_get r c = (case map_of r c of None \<Rightarrow> Null | Some v \<Rightarrow> v)"

definition key_of :: "string list \<Rightarrow> sql_row \<Rightarrow> sql_value list" where
  "key_of cs r = map (sql_get r) cs"

fun value_ok :: "sql_type \<Rightarrow> sql_value \<Rightarrow> bool" where
  "value_ok SUuid (VUuid u) = True"
| "value_ok (SText n) (VText s) = (text_ok s \<and> (case n of None \<Rightarrow> True | Some n \<Rightarrow> length s \<le> n))"
| "value_ok (SInteger b) (VInt i) = (- (2 ^ (b - 1)) \<le> i \<and> i < 2 ^ (b - 1))"
| "value_ok STimestamp (VTime t) = True"
| "value_ok SInet (VText s) = True"
| "value_ok _ _ = False"

definition cell_ok :: "sql_row \<Rightarrow> sql_column \<Rightarrow> bool" where
  "cell_ok r c = (let v = sql_get r (c_name c) in if v = Null then c_nullable c else value_ok (c_type c) v)"

text \<open>A check that is not false: a comparison with \<open>NULL\<close> is not.\<close>

fun check_passes :: "sql_check \<Rightarrow> sql_row \<Rightarrow> bool" where
  "check_passes (Is_in c vs) r =
     (case sql_get r c of Null \<Rightarrow> True | VText s \<Rightarrow> s \<in> ustr ` set vs | _ \<Rightarrow> False)"
| "check_passes (Is_greater c n) r = (case sql_get r c of Null \<Rightarrow> True | VInt i \<Rightarrow> n < i | _ \<Rightarrow> False)"
| "check_passes (Is_at_least c n) r = (case sql_get r c of Null \<Rightarrow> True | VInt i \<Rightarrow> n \<le> i | _ \<Rightarrow> False)"
| "check_passes (Both a b) r = (check_passes a r \<and> check_passes b r)"

fun constraint_holds :: "sql_data \<Rightarrow> sql_row list \<Rightarrow> table_constraint \<Rightarrow> bool" where
  "constraint_holds D rows (Primary_key cs) =
     (distinct (map (key_of cs) rows) \<and> list_all (\<lambda>r. Null \<notin> set (key_of cs r)) rows)"
| "constraint_holds D rows (Unique cs) = distinct (map (key_of cs) (filter (\<lambda>r. Null \<notin> set (key_of cs r)) rows))"
| "constraint_holds D rows (Check k) = list_all (check_passes k) rows"
| "constraint_holds D rows (Foreign_key cs t rcs act) =
     list_all (\<lambda>r. Null \<in> set (key_of cs r) \<or> key_of cs r \<in> key_of rcs ` set (D t)) rows"

definition table_accepts :: "sql_data \<Rightarrow> sql_table \<Rightarrow> bool" where
  "table_accepts D t \<longleftrightarrow>
     list_all (\<lambda>r. list_all (cell_ok r) (t_columns t)) (D (t_name t)) \<and>
     list_all (constraint_holds D (D (t_name t))) (t_constraints t)"

definition accepts :: "schema \<Rightarrow> sql_data \<Rightarrow> bool" where
  "accepts S D \<longleftrightarrow> list_all (table_accepts D) (sc_tables S)"

text \<open>Deleting the row of table \<open>n\<close> with the given id: what the foreign keys of the other
  tables make of it. No table refers to one whose rows go this way, so one step is all.\<close>

fun follow :: "string \<Rightarrow> sql_value \<Rightarrow> sql_row list \<Rightarrow> table_constraint \<Rightarrow> sql_row list" where
  "follow n v rows (Foreign_key [c] t rcs act) =
     (if t \<noteq> n then rows
      else
        (case act of
           No_action \<Rightarrow> rows
         | Cascade \<Rightarrow> filter (\<lambda>r. sql_get r c \<noteq> v) rows
         | Set_null \<Rightarrow> map (\<lambda>r. if sql_get r c = v then dict_set c Null r else r) rows))"
| "follow n v rows _ = rows"

definition delete_id :: "schema \<Rightarrow> string \<Rightarrow> sql_value \<Rightarrow> sql_data \<Rightarrow> sql_data" where
  "delete_id S n v D = (\<lambda>m.
     case find_table S m of
       None \<Rightarrow> D m
     | Some t \<Rightarrow> foldl (follow n v) (if m = n then filter (\<lambda>r. sql_get r ''id'' \<noteq> v) (D m) else D m) (t_constraints t))"

section \<open>The rows of the model\<close>

definition opt :: "('a \<Rightarrow> sql_value) \<Rightarrow> 'a option \<Rightarrow> sql_value" where
  "opt f x = (case x of None \<Rightarrow> Null | Some y \<Rightarrow> f y)"

fun file_status_text :: "file_status \<Rightarrow> string" where
  "file_status_text Uploading = ''uploading''"
| "file_status_text Available = ''available''"
| "file_status_text Deleted = ''deleted''"

fun node_status_text :: "node_status \<Rightarrow> string" where
  "node_status_text Healthy = ''healthy''"
| "node_status_text Unreachable = ''unreachable''"
| "node_status_text Decommissioned = ''decommissioned''"

fun shard_kind_text :: "shard_kind \<Rightarrow> string" where
  "shard_kind_text Data = ''data''"
| "shard_kind_text Parity = ''parity''"

fun event_text :: "audit_event_type \<Rightarrow> string" where
  "event_text file_uploaded = ''file_uploaded''"
| "event_text link_generated = ''link_generated''"
| "event_text download_success = ''download_success''"
| "event_text download_denied = ''download_denied''"
| "event_text file_deleted = ''file_deleted''"

definition user_sql :: "user_row \<Rightarrow> sql_row" where
  "user_sql u =
     [(''id'', VUuid (u_id u)), (''email'', VText (u_email u)), (''api_key_hash'', VText (u_api_key_hash u)),
      (''created_at'', VTime (u_created_at u))]"

definition node_sql :: "node_row \<Rightarrow> sql_row" where
  "node_sql n =
     [(''id'', VUuid (n_id n)), (''address'', VText (n_address n)),
      (''status'', VText (ustr (node_status_text (n_status n)))),
      (''last_seen_at'', opt VTime (n_last_seen_at n)), (''created_at'', VTime (n_created_at n))]"

definition file_sql :: "file_row \<Rightarrow> sql_row" where
  "file_sql f =
     [(''id'', VUuid (f_id f)), (''owner_user_id'', VUuid (f_owner_user_id f)),
      (''original_name'', VText (f_original_name f)), (''content_type'', VText (f_content_type f)),
      (''size_bytes'', VInt (int (f_size_bytes f))), (''checksum_sha256'', VText (f_checksum_sha256 f)),
      (''data_shards'', VInt (int (f_data_shards f))), (''parity_shards'', VInt (int (f_parity_shards f))),
      (''link_version'', VInt (f_link_version f)), (''status'', VText (ustr (file_status_text (f_status f)))),
      (''uploaded_at'', VTime (f_uploaded_at f)), (''deleted_at'', opt VTime (f_deleted_at f))]"

definition audit_sql :: "audit_row \<Rightarrow> sql_row" where
  "audit_sql a =
     [(''id'', VUuid (a_id a)), (''file_id'', opt VUuid (a_file_id a)),
      (''actor_user_id'', opt VUuid (a_actor_user_id a)), (''event_type'', VText (ustr (event_text (a_event_type a)))),
      (''ttl_seconds'', opt VInt (a_ttl_seconds a)), (''ip_address'', opt VText (a_ip_address a)),
      (''created_at'', VTime (a_created_at a))]"

definition shard_sql :: "shard_row \<Rightarrow> sql_row" where
  "shard_sql s =
     [(''id'', VUuid (s_id s)), (''file_id'', VUuid (s_file_id s)), (''shard_index'', VInt (int (s_shard_index s))),
      (''kind'', VText (ustr (shard_kind_text (s_kind s)))), (''node_id'', VUuid (s_node_id s)),
      (''checksum_sha256'', VText (s_checksum_sha256 s)), (''size_bytes'', VInt (int (s_size_bytes s))),
      (''created_at'', VTime (s_created_at s))]"

definition db_sql :: "db \<Rightarrow> sql_data" where
  "db_sql d = (\<lambda>t.
     if t = ''users'' then map user_sql (users d)
     else if t = ''storage_nodes'' then map node_sql (nodes d)
     else if t = ''files'' then map file_sql (files d)
     else if t = ''shards'' then map shard_sql (shards d)
     else if t = ''audit_events'' then map audit_sql (audits d)
     else [])"

section \<open>Cells and constraints of the rows\<close>

named_theorems sql_rows

lemma cells [sql_rows]:
  "sql_get (user_sql u) ''id'' = VUuid (u_id u)" "sql_get (user_sql u) ''email'' = VText (u_email u)"
  "sql_get (user_sql u) ''api_key_hash'' = VText (u_api_key_hash u)" "sql_get (user_sql u) ''created_at'' = VTime (u_created_at u)"
  "sql_get (node_sql n) ''id'' = VUuid (n_id n)" "sql_get (node_sql n) ''address'' = VText (n_address n)"
  "sql_get (node_sql n) ''status'' = VText (ustr (node_status_text (n_status n)))"
  "sql_get (node_sql n) ''last_seen_at'' = opt VTime (n_last_seen_at n)" "sql_get (node_sql n) ''created_at'' = VTime (n_created_at n)"
  by (simp_all add: sql_get_def user_sql_def node_sql_def)

lemma file_cells [sql_rows]:
  "sql_get (file_sql f) ''id'' = VUuid (f_id f)" "sql_get (file_sql f) ''owner_user_id'' = VUuid (f_owner_user_id f)"
  "sql_get (file_sql f) ''original_name'' = VText (f_original_name f)" "sql_get (file_sql f) ''content_type'' = VText (f_content_type f)"
  "sql_get (file_sql f) ''size_bytes'' = VInt (int (f_size_bytes f))"
  "sql_get (file_sql f) ''checksum_sha256'' = VText (f_checksum_sha256 f)"
  "sql_get (file_sql f) ''data_shards'' = VInt (int (f_data_shards f))"
  "sql_get (file_sql f) ''parity_shards'' = VInt (int (f_parity_shards f))"
  "sql_get (file_sql f) ''link_version'' = VInt (f_link_version f)"
  "sql_get (file_sql f) ''status'' = VText (ustr (file_status_text (f_status f)))"
  "sql_get (file_sql f) ''uploaded_at'' = VTime (f_uploaded_at f)" "sql_get (file_sql f) ''deleted_at'' = opt VTime (f_deleted_at f)"
  by (simp_all add: sql_get_def file_sql_def)

lemma audit_cells [sql_rows]:
  "sql_get (audit_sql a) ''id'' = VUuid (a_id a)" "sql_get (audit_sql a) ''file_id'' = opt VUuid (a_file_id a)"
  "sql_get (audit_sql a) ''actor_user_id'' = opt VUuid (a_actor_user_id a)"
  "sql_get (audit_sql a) ''event_type'' = VText (ustr (event_text (a_event_type a)))"
  "sql_get (audit_sql a) ''ttl_seconds'' = opt VInt (a_ttl_seconds a)"
  "sql_get (audit_sql a) ''ip_address'' = opt VText (a_ip_address a)" "sql_get (audit_sql a) ''created_at'' = VTime (a_created_at a)"
  by (simp_all add: sql_get_def audit_sql_def)

lemma shard_cells [sql_rows]:
  "sql_get (shard_sql s) ''id'' = VUuid (s_id s)" "sql_get (shard_sql s) ''file_id'' = VUuid (s_file_id s)"
  "sql_get (shard_sql s) ''shard_index'' = VInt (int (s_shard_index s))"
  "sql_get (shard_sql s) ''kind'' = VText (ustr (shard_kind_text (s_kind s)))" "sql_get (shard_sql s) ''node_id'' = VUuid (s_node_id s)"
  "sql_get (shard_sql s) ''checksum_sha256'' = VText (s_checksum_sha256 s)"
  "sql_get (shard_sql s) ''size_bytes'' = VInt (int (s_size_bytes s))" "sql_get (shard_sql s) ''created_at'' = VTime (s_created_at s)"
  by (simp_all add: sql_get_def shard_sql_def)

lemma tables [sql_rows]:
  "db_sql d ''users'' = map user_sql (users d)" "db_sql d ''storage_nodes'' = map node_sql (nodes d)"
  "db_sql d ''files'' = map file_sql (files d)" "db_sql d ''shards'' = map shard_sql (shards d)"
  "db_sql d ''audit_events'' = map audit_sql (audits d)"
  by (simp_all add: db_sql_def)

lemma check_in:
  assumes "sql_get r c = VText (ustr v)" and "v \<in> set vs"
  shows "check_passes (Is_in c vs) r"
  using assms by simp

lemma status_checks:
  "check_passes (Is_in ''status'' [''healthy'', ''unreachable'', ''decommissioned'']) (node_sql n)"
  "check_passes (Is_in ''status'' [''uploading'', ''available'', ''deleted'']) (file_sql f)"
  "check_passes (Is_in ''kind'' [''data'', ''parity'']) (shard_sql s)"
  "check_passes (Is_in ''event_type''
     [''file_uploaded'', ''link_generated'', ''download_success'', ''download_denied'', ''file_deleted'']) (audit_sql a)"
proof -
  show "check_passes (Is_in ''status'' [''healthy'', ''unreachable'', ''decommissioned'']) (node_sql n)"
    by (rule check_in, rule sql_rows) (cases "n_status n", simp_all)
  show "check_passes (Is_in ''status'' [''uploading'', ''available'', ''deleted'']) (file_sql f)"
    by (rule check_in, rule sql_rows) (cases "f_status f", simp_all)
  show "check_passes (Is_in ''kind'' [''data'', ''parity'']) (shard_sql s)"
    by (rule check_in, rule sql_rows) (cases "s_kind s", simp_all)
  show "check_passes (Is_in ''event_type''
     [''file_uploaded'', ''link_generated'', ''download_success'', ''download_denied'', ''file_deleted'']) (audit_sql a)"
    by (rule check_in, rule sql_rows) (cases "a_event_type a", simp_all)
qed

lemma opt_Null [sql_rows]: "opt VUuid x = Null \<longleftrightarrow> x = None" "opt VTime t = Null \<longleftrightarrow> t = None"
  "opt VText s = Null \<longleftrightarrow> s = None" "opt VInt i = Null \<longleftrightarrow> i = None"
  by (simp_all add: opt_def split: option.split)

text \<open>One column, or two, as a key.\<close>

lemma distinct_inj: "inj g \<Longrightarrow> distinct (map g xs) = distinct xs"
  by (auto simp: distinct_map intro: inj_on_subset)

text \<open>A column as a key, two columns as a key, a column as a reference.\<close>

lemma key_holds:
  assumes "\<And>r. sql_get (f r) c = g (k r)" and "inj g" and "\<And>x. g x \<noteq> Null"
  shows "constraint_holds D (map f rs) (Primary_key [c]) = distinct (map k rs)"
    and "constraint_holds D (map f rs) (Unique [c]) = distinct (map k rs)"
proof -
  have "map (key_of [c]) (map f rs) = map (\<lambda>x. [g x]) (map k rs)" using assms(1) by (simp add: key_of_def)
  moreover have "inj (\<lambda>x. [g x])" using assms(2) by (auto simp: inj_def)
  ultimately have d: "distinct (map (key_of [c]) (map f rs)) = distinct (map k rs)" by (simp only: distinct_inj)
  have full: "Null \<notin> set (key_of [c] r)" if "r \<in> set (map f rs)" for r
    using that assms(1,3) by (auto simp: key_of_def) metis
  then have "filter (\<lambda>r. Null \<notin> set (key_of [c] r)) (map f rs) = map f rs" by (rule filter_True [OF ballI])
  then show "constraint_holds D (map f rs) (Unique [c]) = distinct (map k rs)" by (simp only: constraint_holds.simps d)
  show "constraint_holds D (map f rs) (Primary_key [c]) = distinct (map k rs)"
    using full by (simp only: constraint_holds.simps d list_all_iff) blast
qed

lemma key2_holds:
  assumes "\<And>r. sql_get (f r) c = g (k r) \<and> sql_get (f r) c' = g' (k' r)" and "inj g" and "inj g'"
    and "\<And>x. g x \<noteq> Null" and "\<And>x. g' x \<noteq> Null"
  shows "constraint_holds D (map f rs) (Unique [c, c']) = distinct (map (\<lambda>r. (k r, k' r)) rs)"
proof -
  have "map (key_of [c, c']) (map f rs) = map (\<lambda>(x, y). [g x, g' y]) (map (\<lambda>r. (k r, k' r)) rs)"
    using assms(1) by (simp add: key_of_def)
  moreover have "inj (\<lambda>(x, y). [g x, g' y])" using assms(2,3) by (auto simp: inj_def)
  ultimately have d: "distinct (map (key_of [c, c']) (map f rs)) = distinct (map (\<lambda>r. (k r, k' r)) rs)"
    by (simp only: distinct_inj)
  have "Null \<notin> set (key_of [c, c'] r)" if "r \<in> set (map f rs)" for r
    using that assms(1,4,5) by (auto simp: key_of_def) metis+
  then have "filter (\<lambda>r. Null \<notin> set (key_of [c, c'] r)) (map f rs) = map f rs" by (rule filter_True [OF ballI])
  then show ?thesis by (simp only: constraint_holds.simps d)
qed

lemma reference_holds:
  assumes "\<And>r. sql_get (f r) c = opt VUuid (k r)" and "D t = map g rs'" and "\<And>r. sql_get (g r) ''id'' = VUuid (k' r)"
  shows "constraint_holds D (map f rs) (Foreign_key [c] t [''id''] act) =
    list_all (\<lambda>r. case k r of None \<Rightarrow> True | Some i \<Rightarrow> i \<in> k' ` set rs') rs"
proof -
  have "key_of [''id''] ` set (D t) = (\<lambda>i. [VUuid i]) ` k' ` set rs'"
    by (simp add: assms(2) image_image key_of_def assms(3))
  then have "[VUuid i] \<in> key_of [''id''] ` set (D t) \<longleftrightarrow> i \<in> k' ` set rs'" for i by auto
  then show ?thesis
    by (auto simp: key_of_def [of "[c]"] assms(1) opt_def list_all_iff split: option.split)
qed

lemma sure_reference_holds:
  assumes "\<And>r. sql_get (f r) c = VUuid (k r)" and "D t = map g rs'" and "\<And>r. sql_get (g r) ''id'' = VUuid (k' r)"
  shows "constraint_holds D (map f rs) (Foreign_key [c] t [''id''] act) = list_all (\<lambda>r. k r \<in> k' ` set rs') rs"
  using reference_holds [of f c "\<lambda>r. Some (k r)" D t g rs' k' rs act] assms by (simp add: opt_def)

lemma inj_values: "inj VUuid" "inj VText" "inj VInt" "inj (\<lambda>n. VInt (int n))"
proof -
  show "inj VUuid" by (rule injI) (erule sql_value.inject [THEN iffD1])
  show "inj VText" by (rule injI) (erule sql_value.inject [THEN iffD1])
  show "inj VInt" by (rule injI) (erule sql_value.inject [THEN iffD1])
  then show "inj (\<lambda>n. VInt (int n))" by (auto simp: inj_def)
qed

lemma text_cell [sql_rows]: "value_ok (SText (Some n)) (VText s) \<longleftrightarrow> text_ok s \<and> length s \<le> n"
  "value_ok (SText None) (VText s) \<longleftrightarrow> text_ok s"
  by simp_all

lemma status_text_ok [sql_rows]: "text_ok (ustr (node_status_text n))" "text_ok (ustr (file_status_text f))"
  "text_ok (ustr (shard_kind_text k))" "text_ok (ustr (event_text e))"
proof -
  show "text_ok (ustr (node_status_text n))" by (cases n) (simp_all add: text_ok_def encodable_def)
  show "text_ok (ustr (file_status_text f))" by (cases f) (simp_all add: text_ok_def encodable_def)
  show "text_ok (ustr (shard_kind_text k))" by (cases k) (simp_all add: text_ok_def encodable_def)
  show "text_ok (ustr (event_text e))" by (cases e) (simp_all add: text_ok_def encodable_def)
qed

section \<open>Each table\<close>

lemma users_accepted:
  "table_accepts (db_sql d) users_table \<longleftrightarrow>
     list_all user_ok (users d) \<and> distinct (map u_id (users d)) \<and> distinct (map u_email (users d)) \<and>
     distinct (map u_api_key_hash (users d))"
proof -
  note keys = key_holds(1) [of user_sql "''id''" VUuid u_id] key_holds(2) [of user_sql "''email''" VText u_email]
    key_holds(2) [of user_sql "''api_key_hash''" VText u_api_key_hash]
  have "list_all (cell_ok (user_sql u)) (t_columns users_table) = user_ok u" for u
    by (auto simp: users_table_def cell_ok_def column_def default_column_def sql_rows user_ok_def)
  then show ?thesis
    by (auto simp: table_accepts_def users_table_def sql_rows list_all_iff keys inj_values simp del: constraint_holds.simps map_map)
qed

lemma nodes_accepted:
  "table_accepts (db_sql d) storage_nodes_table \<longleftrightarrow>
     list_all node_ok (nodes d) \<and> distinct (map n_id (nodes d)) \<and> distinct (map n_address (nodes d))"
proof -
  note keys = key_holds(1) [of node_sql "''id''" VUuid n_id] key_holds(2) [of node_sql "''address''" VText n_address]
  have "list_all (cell_ok (node_sql n)) (t_columns storage_nodes_table) = node_ok n" for n
    by (auto simp: storage_nodes_table_def cell_ok_def column_def null_column_def default_column_def sql_rows node_ok_def opt_def
        split: option.split)
  moreover have "constraint_holds D (map node_sql ns) (Check (Is_in ''status'' [''healthy'', ''unreachable'', ''decommissioned'']))" for D ns
    by (simp add: list_all_iff status_checks del: check_passes.simps)
  ultimately show ?thesis
    by (auto simp: table_accepts_def storage_nodes_table_def sql_rows list_all_iff keys inj_values simp del: constraint_holds.simps map_map)
qed

lemma files_accepted:
  "table_accepts (db_sql d) files_table \<longleftrightarrow>
     list_all file_ok (files d) \<and> distinct (map f_id (files d)) \<and>
     list_all (\<lambda>f. f_owner_user_id f \<in> u_id ` set (users d)) (files d)"
proof -
  note keys = key_holds(1) [of file_sql "''id''" VUuid f_id]
    sure_reference_holds [of file_sql "''owner_user_id''" f_owner_user_id "db_sql d" "''users''" user_sql "users d" u_id]
  have "list_all (cell_ok (file_sql f)) (t_columns files_table) \<and>
      check_passes (Both (Is_at_least ''data_shards'' 1) (Is_at_least ''parity_shards'' 1)) (file_sql f) \<and>
      check_passes (Is_greater ''size_bytes'' 0) (file_sql f) \<longleftrightarrow> file_ok f" for f
    by (auto simp: files_table_def cell_ok_def column_def null_column_def default_column_def sql_rows file_ok_def opt_def
        split: option.split)
  moreover have "check_passes (Is_in ''status'' [''uploading'', ''available'', ''deleted'']) (file_sql f)" for f
    by (rule status_checks)
  moreover have "constraint_holds D (map file_sql fs) (Check k) \<longleftrightarrow> (\<forall>f \<in> set fs. check_passes k (file_sql f))" for D fs k
    by (simp add: list_all_iff)
  ultimately show ?thesis
    by (simp add: table_accepts_def files_table_def sql_rows list_all_iff keys inj_values
        del: constraint_holds.simps map_map check_passes.simps) blast
qed

lemma audits_accepted:
  "table_accepts (db_sql d) audit_events_table \<longleftrightarrow>
     list_all audit_ok (audits d) \<and> distinct (map a_id (audits d)) \<and>
     list_all (\<lambda>a. case a_actor_user_id a of None \<Rightarrow> True | Some i \<Rightarrow> i \<in> u_id ` set (users d)) (audits d) \<and>
     list_all (\<lambda>a. case a_file_id a of None \<Rightarrow> True | Some i \<Rightarrow> i \<in> f_id ` set (files d)) (audits d)"
proof -
  note keys = key_holds(1) [of audit_sql "''id''" VUuid a_id]
    reference_holds [of audit_sql "''actor_user_id''" a_actor_user_id "db_sql d" "''users''" user_sql "users d" u_id]
    reference_holds [of audit_sql "''file_id''" a_file_id "db_sql d" "''files''" file_sql "files d" f_id]
  have "list_all (cell_ok (audit_sql a)) (t_columns audit_events_table) \<longleftrightarrow> audit_ok a" for a
    by (auto simp: audit_events_table_def cell_ok_def column_def null_column_def default_column_def sql_rows audit_ok_def opt_def
        split: option.split)
  moreover have "constraint_holds D (map audit_sql as) (Check (Is_in ''event_type''
      [''file_uploaded'', ''link_generated'', ''download_success'', ''download_denied'', ''file_deleted'']))" for D as
    by (simp add: list_all_iff status_checks del: check_passes.simps)
  ultimately show ?thesis
    by (simp add: table_accepts_def audit_events_table_def sql_rows list_all_iff keys inj_values
        del: constraint_holds.simps map_map check_passes.simps) blast
qed

lemma shards_accepted:
  "table_accepts (db_sql d) shards_table \<longleftrightarrow>
     list_all shard_ok (shards d) \<and> distinct (map s_id (shards d)) \<and>
     distinct (map (\<lambda>s. (s_file_id s, s_shard_index s)) (shards d)) \<and>
     list_all (\<lambda>s. s_file_id s \<in> f_id ` set (files d) \<and> s_node_id s \<in> n_id ` set (nodes d)) (shards d)"
proof -
  note keys = key_holds(1) [of shard_sql "''id''" VUuid s_id]
    key2_holds [of shard_sql "''file_id''" VUuid s_file_id "''shard_index''" "\<lambda>n. VInt (int n)" s_shard_index]
    sure_reference_holds [of shard_sql "''file_id''" s_file_id "db_sql d" "''files''" file_sql "files d" f_id]
    sure_reference_holds [of shard_sql "''node_id''" s_node_id "db_sql d" "''storage_nodes''" node_sql "nodes d" n_id]
  have "list_all (cell_ok (shard_sql s)) (t_columns shards_table) \<longleftrightarrow> shard_ok s" for s
    by (auto simp: shards_table_def cell_ok_def column_def null_column_def default_column_def sql_rows shard_ok_def opt_def
        split: option.split)
  moreover have "constraint_holds D (map shard_sql ss) (Check (Is_in ''kind'' [''data'', ''parity'']))" for D ss
    by (simp add: list_all_iff status_checks del: check_passes.simps)
  moreover have "constraint_holds D (map shard_sql ss) (Check (Is_at_least ''shard_index'' 0))" for D ss
    by (simp add: list_all_iff sql_rows)
  ultimately show ?thesis
    by (simp add: table_accepts_def shards_table_def sql_rows list_all_iff keys inj_values
        del: constraint_holds.simps map_map check_passes.simps) blast
qed

section \<open>The migrated database\<close>

definition migrated :: schema where
  "migrated = \<lparr>sc_tables = [storage_nodes_table, users_table, files_table, audit_events_table, shards_table],
     sc_indexes =
       [\<lparr>i_name = ''idx_files_owner'', i_table = ''files'', i_columns = [''owner_user_id'']\<rparr>,
        \<lparr>i_name = ''idx_audit_created_at'', i_table = ''audit_events'', i_columns = [''created_at'']\<rparr>,
        \<lparr>i_name = ''idx_audit_file'', i_table = ''audit_events'', i_columns = [''file_id'']\<rparr>,
        \<lparr>i_name = ''idx_shards_node'', i_table = ''shards'', i_columns = [''node_id'']\<rparr>]\<rparr>"

lemma upgrade_migrates: "migrate upgrade empty_schema = Some migrated"
  by code_simp

lemma downgrade_drops: "migrate downgrade migrated = Some empty_schema"
  by code_simp

lemma migrated_accepts: "accepts migrated (db_sql d) \<longleftrightarrow> constraints_ok d"
  by (auto simp: accepts_def migrated_def users_accepted nodes_accepted files_accepted audits_accepted shards_accepted
      constraints_ok_def row_types_ok_def keys_unique_def references_ok_def list_all_iff)

lemma audit_set_null:
  "(if sql_get (audit_sql a) ''file_id'' = VUuid i then dict_set ''file_id'' Null (audit_sql a) else audit_sql a) =
     audit_sql (if a_file_id a = Some i then a\<lparr>a_file_id := None\<rparr> else a)"
  by (simp add: sql_rows opt_def split: option.split) (simp add: audit_sql_def opt_def)

lemma file_deletion: "delete_id migrated ''files'' (VUuid i) (db_sql d) = db_sql (delete_file_row i d)"
proof (rule ext)
  fix m
  let ?tables = "{''storage_nodes'', ''users'', ''files'', ''audit_events'', ''shards''}"
  have other: "delete_id migrated ''files'' (VUuid i) (db_sql d) m = db_sql (delete_file_row i d) m" if "m \<notin> ?tables"
    using that by (simp add: delete_id_def find_table_def migrated_def storage_nodes_table_def users_table_def files_table_def
        audit_events_table_def shards_table_def db_sql_def eq_commute [of _ m])
  have "delete_id migrated ''files'' (VUuid i) (db_sql d) ''storage_nodes'' = db_sql (delete_file_row i d) ''storage_nodes''"
    by (simp add: delete_id_def find_table_def migrated_def storage_nodes_table_def sql_rows delete_file_row_def)
  moreover have "delete_id migrated ''files'' (VUuid i) (db_sql d) ''users'' = db_sql (delete_file_row i d) ''users''"
    by (simp add: delete_id_def find_table_def migrated_def storage_nodes_table_def users_table_def sql_rows delete_file_row_def)
  moreover have "delete_id migrated ''files'' (VUuid i) (db_sql d) ''files'' = db_sql (delete_file_row i d) ''files''"
    by (simp add: delete_id_def find_table_def migrated_def storage_nodes_table_def users_table_def files_table_def sql_rows
        delete_file_row_def filter_map comp_def)
  moreover have "delete_id migrated ''files'' (VUuid i) (db_sql d) ''shards'' = db_sql (delete_file_row i d) ''shards''"
    by (simp add: delete_id_def find_table_def migrated_def storage_nodes_table_def users_table_def files_table_def
        audit_events_table_def shards_table_def sql_rows delete_file_row_def filter_map comp_def)
  moreover have "delete_id migrated ''files'' (VUuid i) (db_sql d) ''audit_events'' = db_sql (delete_file_row i d) ''audit_events''"
    by (simp add: delete_id_def find_table_def migrated_def storage_nodes_table_def users_table_def files_table_def
        audit_events_table_def sql_rows(28-) delete_file_row_def audit_set_null)
  ultimately show "delete_id migrated ''files'' (VUuid i) (db_sql d) m = db_sql (delete_file_row i d) m"
    using other by blast
qed

section \<open>Property\<close>

text \<open>
  C20. The migration builds the database the model assumes. Run on an empty database, \<open>upgrade\<close> succeeds (each table comes
  after those it refers to); the tables it creates accept exactly the rows that satisfy the constraints of the
  model; deleting a file there cascades to its shards and clears its audit rows' reference, as in the
  model; and \<open>downgrade\<close> takes everything away again.
\<close>
theorem migration_enforces_model:
  "\<exists>S. migrate upgrade empty_schema = Some S \<and>
     (\<forall>d. accepts S (db_sql d) = constraints_ok d) \<and>
     (\<forall>d i. delete_id S ''files'' (VUuid i) (db_sql d) = db_sql (delete_file_row i d)) \<and>
     migrate downgrade S = Some empty_schema"
  by (rule exI [of _ migrated]) (simp add: upgrade_migrates migrated_accepts file_deletion downgrade_drops)

end
