(* ===== verification/Runs.thy ===== *)
theory Runs
  imports Prelude
begin

text \<open>
  Runs of a labelled step relation, and the two ways its properties are carried from one step to a run: an
  invariant with a relation between the first and the last state (\<open>step_system\<close>), and a budget that some of
  the events use up (\<open>counted_system\<close>). The worker pool and the whole service interpret them.
\<close>

inductive runs :: "('e \<Rightarrow> 's \<Rightarrow> 's \<Rightarrow> bool) \<Rightarrow> 's \<Rightarrow> 'e list \<Rightarrow> 's \<Rightarrow> bool" for step where
  stop: "runs step s [] s"
| go: "step ev s t \<Longrightarrow> runs step t evs u \<Longrightarrow> runs step s (ev # evs) u"

inductive_simps runs_Nil [simp]: "runs step s [] t"
inductive_simps runs_Cons: "runs step s (ev # evs) t"

lemma runs_append: "runs step s (xs @ ys) t \<longleftrightarrow> (\<exists>u. runs step s xs u \<and> runs step u ys t)"
  by (induction xs arbitrary: s) (auto simp: runs_Cons)

locale step_system =
  fixes step :: "'e \<Rightarrow> 's \<Rightarrow> 's \<Rightarrow> bool" and inv :: "'s \<Rightarrow> bool" and allowed :: "'e \<Rightarrow> bool"
    and rel :: "'s \<Rightarrow> 's \<Rightarrow> bool"
  assumes step_inv: "inv s \<Longrightarrow> allowed ev \<Longrightarrow> step ev s t \<Longrightarrow> inv t"
    and step_rel: "inv s \<Longrightarrow> allowed ev \<Longrightarrow> step ev s t \<Longrightarrow> rel s t"
    and rel_refl: "rel s s"
    and rel_trans: "rel s t \<Longrightarrow> rel t u \<Longrightarrow> rel s u"
begin

lemma run_step_system: "runs step s evs t \<Longrightarrow> inv s \<Longrightarrow> \<forall>ev \<in> set evs. allowed ev \<Longrightarrow> inv t \<and> rel s t"
proof (induction rule: runs.induct)
  case (go ev s t evs u)
  then have "inv t" "rel s t" using step_inv [of s ev t] step_rel [of s ev t] by simp_all
  then show ?case using go.IH go.prems(2) rel_trans by simp
qed (simp add: rel_refl)

end

locale counted_system = step_system +
  fixes budget :: "'b \<Rightarrow> nat" and spends :: "'a \<Rightarrow> bool"
  assumes step_budget: "inv s \<Longrightarrow> allowed ev \<Longrightarrow> step ev s t \<Longrightarrow> budget t + (if spends ev then 1 else 0) \<le> budget s"
begin

lemma run_counted_system:
  "runs step s evs t \<Longrightarrow> inv s \<Longrightarrow> \<forall>ev \<in> set evs. allowed ev \<Longrightarrow> length (filter spends evs) + budget t \<le> budget s"
proof (induction rule: runs.induct)
  case (go ev s t evs u)
  have "inv t" "budget t + (if spends ev then 1 else 0) \<le> budget s"
    using step_inv [of s ev t] step_budget [of s ev t] go.hyps(1) go.prems by simp_all
  then show ?case using go.IH go.prems(2) by (simp split: if_splits)
qed simp

end

end
