(* ===== verification/Storage.thy ===== *)
theory Storage
  imports Uuids Hashing
begin

text \<open>
  \<open>storage_node/storage.py\<close>: the on-disk shard store, over a model of one directory of a POSIX
  file system.

  A directory maps names to inodes; an inode has the content readers see, and \<open>d_safe\<close> says
  that \<open>fsync\<close> put this content on the medium. \<open>d_old\<close> are the directory's contents since its last
  \<open>fsync\<close>, any of which the medium may hold. Each system call takes one step: it may find the power
  gone (\<open>d_power\<close> counts the calls left), fail with an error the environment picks (\<open>d_fault\<close>, by
  call number; a failing \<open>write\<close> may have written part of its data), or do its work. All of the
  theory's results hold for every such environment. The directory is there: an absent one reads as
  empty, and \<open>mkdir\<close> only can fail.
\<close>

definition DIGEST_SIZE :: nat where
  "DIGEST_SIZE = 32"

definition TEMP_PREFIX :: pystr where
  "TEMP_PREFIX = ustr ''.tmp-''"

datatype errno = ENOENT | EEXIST | ENOSPC | EDQUOT | EOTHER nat

text \<open>Failures the environment may inject: a missing or an existing name is never reported wrongly.\<close>

datatype os_fault = NoSpace | QuotaExceeded | OtherFault nat

fun fault_errno :: "os_fault \<Rightarrow> errno" where
  "fault_errno NoSpace = ENOSPC"
| "fault_errno QuotaExceeded = EDQUOT"
| "fault_errno (OtherFault n) = EOTHER n"

lemma fault_errno_ne [simp]: "fault_errno f \<noteq> ENOENT" "fault_errno f \<noteq> EEXIST"
  by (cases f; simp)+

datatype storage_exn =
    OSError errno
  | ShardNotFoundError
  | ShardExistsError
  | ShardCorruptedError
  | StorageFullError
  | PowerLoss

record disk =
  d_dir :: "pystr \<Rightarrow> nat option"
  d_old :: "(pystr \<Rightarrow> nat option) list"
  d_data :: "nat \<Rightarrow> bytes"
  d_safe :: "nat \<Rightarrow> bool"
  d_next :: nat
  d_calls :: nat
  d_fault :: "nat \<Rightarrow> (os_fault \<times> nat) option"
  d_power :: "nat option"
  d_suffix :: "nat \<Rightarrow> pystr"
  d_draws :: nat

type_synonym 'a sio = "(disk, storage_exn, 'a) io"

section \<open>System calls\<close>

definition syscall :: "(nat \<Rightarrow> disk \<Rightarrow> disk) \<Rightarrow> (disk \<Rightarrow> (errno + 'a) \<times> disk) \<Rightarrow> 'a sio" where
  "syscall part f = (\<lambda>d.
     if d_power d = Some 0 then (Inl PowerLoss, d)
     else
       (let d' = d\<lparr>d_calls := Suc (d_calls d), d_power := map_option (\<lambda>p. p - 1) (d_power d)\<rparr>
        in (case d_fault d (d_calls d) of
              Some (flt, n) \<Rightarrow> (Inl (OSError (fault_errno flt)), part n d')
            | None \<Rightarrow> (case f d' of (Inl e, d'') \<Rightarrow> (Inl (OSError e), d'')
                                  | (Inr x, d'') \<Rightarrow> (Inr x, d'')))))"

definition no_part :: "nat \<Rightarrow> disk \<Rightarrow> disk" where
  "no_part n d = d"

definition set_dir :: "pystr \<Rightarrow> nat option \<Rightarrow> disk \<Rightarrow> disk" where
  "set_dir name i d = d\<lparr>d_dir := (d_dir d)(name := i), d_old := d_dir d # d_old d\<rparr>"

definition append_data :: "nat \<Rightarrow> bytes \<Rightarrow> disk \<Rightarrow> disk" where
  "append_data i bs d =
     d\<lparr>d_data := (d_data d)(i := d_data d i @ bs), d_safe := (d_safe d)(i := False)\<rparr>"

definition sys_mkdir :: "unit sio" where
  "sys_mkdir = syscall no_part (\<lambda>d. (Inr (), d))"

text \<open>\<open>open(name, O_CREAT | O_EXCL)\<close>: the new, empty inode.\<close>

definition sys_open_excl :: "pystr \<Rightarrow> nat sio" where
  "sys_open_excl name = syscall no_part (\<lambda>d.
     if d_dir d name \<noteq> None then (Inl EEXIST, d)
     else (let i = d_next d
           in (Inr i, (set_dir name (Some i) d)
                 \<lparr>d_data := (d_data d)(i := []), d_safe := (d_safe d)(i := False), d_next := Suc i\<rparr>)))"

definition sys_write :: "nat \<Rightarrow> bytes \<Rightarrow> unit sio" where
  "sys_write i bs =
     syscall (\<lambda>n. append_data i (take n bs)) (\<lambda>d. (Inr (), append_data i bs d))"

definition sys_fsync :: "nat \<Rightarrow> unit sio" where
  "sys_fsync i = syscall no_part (\<lambda>d. (Inr (), d\<lparr>d_safe := (d_safe d)(i := True)\<rparr>))"

definition sys_link :: "pystr \<Rightarrow> pystr \<Rightarrow> unit sio" where
  "sys_link old new = syscall no_part (\<lambda>d.
     case d_dir d old of
       None \<Rightarrow> (Inl ENOENT, d)
     | Some i \<Rightarrow> if d_dir d new \<noteq> None then (Inl EEXIST, d) else (Inr (), set_dir new (Some i) d))"

definition sys_unlink :: "pystr \<Rightarrow> unit sio" where
  "sys_unlink name = syscall no_part (\<lambda>d.
     case d_dir d name of None \<Rightarrow> (Inl ENOENT, d) | Some _ \<Rightarrow> (Inr (), set_dir name None d))"

definition sys_open_dir :: "unit sio" where
  "sys_open_dir = syscall no_part (\<lambda>d. (Inr (), d))"

definition sys_fsync_dir :: "unit sio" where
  "sys_fsync_dir = syscall no_part (\<lambda>d. (Inr (), d\<lparr>d_old := []\<rparr>))"

definition sys_close :: "unit sio" where
  "sys_close = syscall no_part (\<lambda>d. (Inr (), d))"

definition sys_read :: "pystr \<Rightarrow> bytes sio" where
  "sys_read name = syscall no_part (\<lambda>d.
     case d_dir d name of None \<Rightarrow> (Inl ENOENT, d) | Some i \<Rightarrow> (Inr (d_data d i), d))"

section \<open>The shard store\<close>

definition validate_shard_id :: "ucd \<Rightarrow> pystr \<Rightarrow> pystr option" where
  "validate_shard_id U shard_id =
     (case uuid_parse U shard_id of
        None \<Rightarrow> None
      | Some u \<Rightarrow> (let canonical = uuid_str u
                   in if canonical \<noteq> py_lower U shard_id then None else Some canonical))"

text \<open>\<open>tempfile.mkstemp\<close>: up to \<open>TMP_MAX\<close> random names, until one is free.\<close>

definition TMP_MAX :: nat where
  "TMP_MAX = 10000"

definition next_name :: "pystr sio" where
  "next_name = (\<lambda>d. (Inr (TEMP_PREFIX @ d_suffix d (d_draws d)), d\<lparr>d_draws := Suc (d_draws d)\<rparr>))"

fun mkstemp :: "nat \<Rightarrow> (pystr \<times> nat) sio" where
  "mkstemp 0 = raise (OSError EEXIST)"
| "mkstemp (Suc k) =
     bnd next_name (\<lambda>name.
     catching (bnd (sys_open_excl name) (\<lambda>i. ret (name, i)))
       (\<lambda>e. if e = OSError EEXIST then mkstemp k else raise e))"

definition unlink_missing_ok :: "pystr \<Rightarrow> unit sio" where
  "unlink_missing_ok name =
     catching (sys_unlink name) (\<lambda>e. if e = OSError ENOENT then ret () else raise e)"

definition fsync_dir :: "unit sio" where
  "fsync_dir = seq sys_open_dir (ensuring sys_fsync_dir sys_close)"

definition fill_temp :: "nat \<Rightarrow> bytes \<Rightarrow> bytes \<Rightarrow> unit sio" where
  "fill_temp i digest data =
     ensuring (seq (sys_write i digest) (seq (sys_write i data) (sys_fsync i))) sys_close"

definition write_error :: "storage_exn \<Rightarrow> storage_exn" where
  "write_error e =
     (if e = OSError EEXIST then ShardExistsError
      else if e = OSError ENOSPC \<or> e = OSError EDQUOT then StorageFullError
      else e)"

definition write_shard :: "pystr \<Rightarrow> bytes \<Rightarrow> pystr sio" where
  "write_shard shard_id data =
     seq sys_mkdir
     (let digest = sha256 data
      in bnd (mkstemp TMP_MAX) (\<lambda>(tmp_name, fd).
         seq (ensuring
                (catching (seq (fill_temp fd digest data) (sys_link tmp_name shard_id))
                   (\<lambda>e. raise (write_error e)))
                (unlink_missing_ok tmp_name))
         (seq fsync_dir
         (ret (bytes_hex digest)))))"

definition read_shard :: "pystr \<Rightarrow> bytes sio" where
  "read_shard shard_id =
     bnd (catching (sys_read shard_id)
            (\<lambda>e. if e = OSError ENOENT then raise ShardNotFoundError else raise e)) (\<lambda>raw.
     let stored_digest = take DIGEST_SIZE raw; data = drop DIGEST_SIZE raw
     in if length stored_digest \<noteq> DIGEST_SIZE \<or> sha256 data \<noteq> stored_digest
        then raise ShardCorruptedError
        else ret data)"

definition delete_shard :: "pystr \<Rightarrow> bool sio" where
  "delete_shard shard_id =
     bnd (catching (seq (sys_unlink shard_id) (ret True))
            (\<lambda>e. if e = OSError ENOENT then ret False else raise e)) (\<lambda>deleted.
     if \<not> deleted then ret False else seq fsync_dir (ret True))"

section \<open>What is stored, and what a power loss may leave\<close>

definition is_temp :: "pystr \<Rightarrow> bool" where
  "is_temp n \<longleftrightarrow> take 5 n = TEMP_PREFIX"

text \<open>The content readers see under a name.\<close>

definition stored :: "disk \<Rightarrow> pystr \<Rightarrow> bytes option" where
  "stored d n = map_option (d_data d) (d_dir d n)"

text \<open>What the medium may hold for a directory entry, and for a name: any entry since the last
  \<open>fsync\<close> of the directory, and for an inode that was not synced any content.\<close>

definition outcome :: "disk \<Rightarrow> nat option \<Rightarrow> bytes option set" where
  "outcome d v =
     (case v of None \<Rightarrow> {None} | Some i \<Rightarrow> if d_safe d i then {Some (d_data d i)} else - {None})"

definition outs :: "disk \<Rightarrow> pystr \<Rightarrow> bytes option set" where
  "outs d n = (\<Union>m \<in> set (d_dir d # d_old d). outcome d (m n))"

text \<open>The directory after a power loss and a restart: each name on its own is what the medium may
  hold.\<close>

definition crashed :: "disk \<Rightarrow> disk \<Rightarrow> bool" where
  "crashed d d' \<longleftrightarrow>
     (\<forall>n. \<exists>m \<in> set (d_dir d # d_old d). d_dir d' n = m n) \<and>
     (\<forall>i. d_safe d i \<longrightarrow> d_data d' i = d_data d i) \<and> d_next d' = d_next d"

lemma crashed_outs: "crashed d d' \<Longrightarrow> stored d' n \<in> outs d n"
  unfolding crashed_def outs_def stored_def outcome_def
  by (elim conjE allE [of _ n]) (fastforce split: option.splits)

definition disk_ok :: "disk \<Rightarrow> bool" where
  "disk_ok d \<longleftrightarrow> (\<forall>m \<in> set (d_dir d # d_old d). \<forall>n i. m n = Some i \<longrightarrow> i < d_next d)"

text \<open>The inode is not linked under any shard's name, now or on the medium.\<close>

definition hidden :: "nat \<Rightarrow> disk \<Rightarrow> bool" where
  "hidden i d \<longleftrightarrow> (\<forall>m \<in> set (d_dir d # d_old d). \<forall>n. \<not> is_temp n \<longrightarrow> m n \<noteq> Some i)"

text \<open>All shards but \<open>X\<close> are as in \<open>d0\<close>, and no crash can do more to them.\<close>

definition kept :: "disk \<Rightarrow> pystr set \<Rightarrow> disk \<Rightarrow> bool" where
  "kept d0 X d \<longleftrightarrow> disk_ok d \<and>
     (\<forall>n. \<not> is_temp n \<and> n \<notin> X \<longrightarrow> stored d n = stored d0 n \<and> outs d n \<subseteq> outs d0 n)"

definition temp_at :: "pystr \<Rightarrow> nat \<Rightarrow> disk \<Rightarrow> bool" where
  "temp_at t i d \<longleftrightarrow> is_temp t \<and> d_dir d t = Some i \<and> hidden i d"

definition wrote :: "disk \<Rightarrow> pystr \<Rightarrow> bytes \<Rightarrow> disk \<Rightarrow> bool" where
  "wrote d0 sid raw d \<longleftrightarrow> kept d0 {sid} d \<and> stored d0 sid = None \<and> stored d sid = Some raw \<and>
     outcome d (d_dir d sid) = {Some raw} \<and> outs d sid \<subseteq> insert (Some raw) (outs d0 sid)"

lemma counters_outcome [simp]: "outcome (d\<lparr>d_calls := c, d_power := p\<rparr>) v = outcome d v"
  by (simp add: outcome_def split: option.split)

lemma counters_stored [simp]: "stored (d\<lparr>d_calls := c, d_power := p\<rparr>) n = stored d n"
  by (simp add: stored_def)

lemma counters_outs [simp]: "outs (d\<lparr>d_calls := c, d_power := p\<rparr>) n = outs d n"
  by (simp add: outs_def)

lemma counters_simps [simp]:
  "disk_ok (d\<lparr>d_calls := c, d_power := p\<rparr>) = disk_ok d"
  "hidden i (d\<lparr>d_calls := c, d_power := p\<rparr>) = hidden i d"
  "kept d0 X (d\<lparr>d_calls := c, d_power := p\<rparr>) = kept d0 X d"
  "temp_at t i (d\<lparr>d_calls := c, d_power := p\<rparr>) = temp_at t i d"
  "wrote d0 sid raw (d\<lparr>d_calls := c, d_power := p\<rparr>) = wrote d0 sid raw d"
  by (simp_all add: disk_ok_def hidden_def kept_def temp_at_def wrote_def)

lemma draws_outcome [simp]: "outcome (d\<lparr>d_draws := k\<rparr>) v = outcome d v"
  by (simp add: outcome_def split: option.split)

lemma draws_stored [simp]: "stored (d\<lparr>d_draws := k\<rparr>) n = stored d n"
  by (simp add: stored_def)

lemma draws_outs [simp]: "outs (d\<lparr>d_draws := k\<rparr>) n = outs d n"
  by (simp add: outs_def)

lemma draws_simps [simp]:
  "disk_ok (d\<lparr>d_draws := k\<rparr>) = disk_ok d"
  "hidden i (d\<lparr>d_draws := k\<rparr>) = hidden i d"
  "kept d0 X (d\<lparr>d_draws := k\<rparr>) = kept d0 X d"
  "temp_at t i (d\<lparr>d_draws := k\<rparr>) = temp_at t i d"
  "wrote d0 sid raw (d\<lparr>d_draws := k\<rparr>) = wrote d0 sid raw d"
  by (simp_all add: disk_ok_def hidden_def kept_def temp_at_def wrote_def)

lemma next_outcome [simp]: "outcome (d\<lparr>d_next := k\<rparr>) v = outcome d v"
  by (simp add: outcome_def split: option.split)

lemma next_simps [simp]:
  "stored (d\<lparr>d_next := k\<rparr>) n = stored d n" "outs (d\<lparr>d_next := k\<rparr>) n = outs d n"
  by (simp_all add: stored_def outs_def)

lemma stored_set_dir:
  "stored (set_dir name v d) n = (if n = name then map_option (d_data d) v else stored d n)"
  by (simp add: stored_def set_dir_def)

lemma outcome_set_dir [simp]: "outcome (set_dir name w d) v = outcome d v"
  by (simp add: set_dir_def outcome_def split: option.split)

lemma outs_set_dir:
  "outs (set_dir name v d) n = (if n = name then outcome d v \<union> outs d n else outs d n)"
  by (simp add: outs_def) (simp add: set_dir_def)

lemma disk_ok_set_dir:
  "disk_ok d \<Longrightarrow> (\<And>i. v = Some i \<Longrightarrow> i < d_next d) \<Longrightarrow> disk_ok (set_dir name v d)"
  by (auto simp: disk_ok_def set_dir_def)

lemma set_dir_fields [simp]:
  "d_data (set_dir name v d) = d_data d" "d_safe (set_dir name v d) = d_safe d"
  "d_next (set_dir name v d) = d_next d" "d_dir (set_dir name v d) = (d_dir d)(name := v)"
  "d_old (set_dir name v d) = d_dir d # d_old d"
  by (simp_all add: set_dir_def)

text \<open>Changing the content of a hidden inode changes no shard.\<close>

lemma hidden_data:
  assumes "hidden i d" and "\<not> is_temp n"
  shows "stored (d\<lparr>d_data := (d_data d)(i := x), d_safe := (d_safe d)(i := b)\<rparr>) n = stored d n"
    and "outs (d\<lparr>d_data := (d_data d)(i := x), d_safe := (d_safe d)(i := b)\<rparr>) n = outs d n"
proof -
  have m: "m n \<noteq> Some i" if "m \<in> set (d_dir d # d_old d)" for m
    using assms that by (auto simp: hidden_def)
  show "stored (d\<lparr>d_data := (d_data d)(i := x), d_safe := (d_safe d)(i := b)\<rparr>) n = stored d n"
    using m [of "d_dir d"] by (cases "d_dir d n") (auto simp: stored_def)
  have "outcome (d\<lparr>d_data := (d_data d)(i := x), d_safe := (d_safe d)(i := b)\<rparr>) (m n)
      = outcome d (m n)" if "m \<in> set (d_dir d # d_old d)" for m
    using m [OF that] by (cases "m n") (auto simp: outcome_def)
  then show "outs (d\<lparr>d_data := (d_data d)(i := x), d_safe := (d_safe d)(i := b)\<rparr>) n = outs d n"
    by (auto simp: outs_def)
qed

lemma hidden_append [simp]: "hidden i (append_data j bs d) = hidden i d"
  "temp_at t i (append_data j bs d) = temp_at t i d"
  "disk_ok (append_data j bs d) = disk_ok d"
  by (simp_all add: hidden_def temp_at_def disk_ok_def append_data_def)

lemma kept_append: "hidden i d \<Longrightarrow> kept d0 X d \<Longrightarrow> kept d0 X (append_data i bs d)"
  using hidden_data [of i d] by (simp add: kept_def) (simp add: append_data_def)

lemma kept_safe:
  assumes "hidden i d" and "kept d0 X d"
  shows "kept d0 X (d\<lparr>d_safe := (d_safe d)(i := b)\<rparr>)"
proof -
  have e: "d\<lparr>d_safe := (d_safe d)(i := b)\<rparr>
      = d\<lparr>d_data := (d_data d)(i := d_data d i), d_safe := (d_safe d)(i := b)\<rparr>" by simp
  show ?thesis
    unfolding e using hidden_data [OF assms(1)] assms(2)
    by (simp add: kept_def del: fun_upd_triv) (simp add: disk_ok_def)
qed

lemma kept_refl: "disk_ok d \<Longrightarrow> kept d X d"
  by (simp add: kept_def)

lemma kept_mono: "kept d0 X d \<Longrightarrow> X \<subseteq> Y \<Longrightarrow> kept d0 Y d"
  by (auto simp: kept_def)

lemma kept_set_temp:
  "kept d0 X d \<Longrightarrow> is_temp t \<Longrightarrow> (\<And>i. v = Some i \<Longrightarrow> i < d_next d) \<Longrightarrow> kept d0 X (set_dir t v d)"
  by (auto simp: kept_def disk_ok_set_dir stored_set_dir outs_set_dir)

lemma kept_set_None: "kept d0 X d \<Longrightarrow> is_temp t \<Longrightarrow> kept d0 X (set_dir t None d)"
  by (rule kept_set_temp) auto

lemma outcome_old [simp]: "outcome (d\<lparr>d_old := x\<rparr>) v = outcome d v"
  by (simp add: outcome_def split: option.split)

lemma outs_fsync_dir: "outs (d\<lparr>d_old := []\<rparr>) n = outcome d (d_dir d n)"
  by (simp add: outs_def)

lemma outs_fsync_dir_less: "outs (d\<lparr>d_old := []\<rparr>) n \<subseteq> outs d n"
  by (auto simp: outs_def)

lemma old_simps [simp]:
  "stored (d\<lparr>d_old := x\<rparr>) n = stored d n" "disk_ok d \<Longrightarrow> disk_ok (d\<lparr>d_old := []\<rparr>)"
  by (simp_all add: stored_def disk_ok_def)

lemma kept_fsync_dir: "kept d0 X d \<Longrightarrow> kept d0 X (d\<lparr>d_old := []\<rparr>)"
  using outs_fsync_dir_less [of d] by (simp add: kept_def) (meson subset_trans)

section \<open>Hoare rules of the system calls\<close>

lemma syscall_triple:
  assumes "\<And>d c p. P d \<Longrightarrow> P (d\<lparr>d_calls := c, d_power := p\<rparr>)"
    and "\<And>d. P d \<Longrightarrow> E PowerLoss d"
    and "\<And>d e n. P d \<Longrightarrow> e \<noteq> ENOENT \<Longrightarrow> e \<noteq> EEXIST \<Longrightarrow> E (OSError e) (part n d)"
    and "\<And>d e d'. P d \<Longrightarrow> f d = (Inl e, d') \<Longrightarrow> E (OSError e) d'"
    and "\<And>d x d'. P d \<Longrightarrow> f d = (Inr x, d') \<Longrightarrow> Q x d'"
  shows "triple P (syscall part f) Q E"
  unfolding triple_def
proof (intro allI impI)
  fix d
  assume P: "P d"
  let ?d = "d\<lparr>d_calls := Suc (d_calls d), d_power := map_option (\<lambda>p. p - 1) (d_power d)\<rparr>"
  have P': "P ?d" using assms(1) [OF P] .
  show "case syscall part f d of (Inl e, t) \<Rightarrow> E e t | (Inr x, t) \<Rightarrow> Q x t"
  proof (cases "d_power d = Some 0")
    case True
    then show ?thesis using assms(2) [OF P] by (simp add: syscall_def)
  next
    case power: False
    show ?thesis
    proof (cases "d_fault d (d_calls d)")
      case (Some en)
      then show ?thesis
        using power assms(3) [OF P'] by (cases en) (simp add: syscall_def)
    next
      case None
      show ?thesis
      proof (cases "f ?d")
        case (Pair r d')
        then show ?thesis
          using power None assms(4,5) [OF P'] by (cases r) (simp_all add: syscall_def)
      qed
    qed
  qed
qed

text \<open>Calls that leave the directory and the data alone.\<close>

lemma idle_triple:
  assumes "\<And>d c p. P d \<Longrightarrow> P (d\<lparr>d_calls := c, d_power := p\<rparr>)"
  shows "triple P sys_mkdir (\<lambda>_. P) (\<lambda>_. P)" "triple P sys_open_dir (\<lambda>_. P) (\<lambda>_. P)"
    "triple P sys_close (\<lambda>_. P) (\<lambda>_. P)"
    "triple P (sys_read name) (\<lambda>x d. P d \<and> stored d name = Some x) (\<lambda>_. P)"
  unfolding sys_mkdir_def sys_open_dir_def sys_close_def sys_read_def
  using assms by (auto intro!: syscall_triple simp: no_part_def stored_def split: option.splits)

lemma unlink_missing_ok_triple:
  assumes "\<And>d c p. P d \<Longrightarrow> P (d\<lparr>d_calls := c, d_power := p\<rparr>)"
    and "\<And>d. P d \<Longrightarrow> P (set_dir name None d)"
  shows "triple P (unlink_missing_ok name) (\<lambda>_. P) (\<lambda>_. P)"
proof -
  have "triple P (sys_unlink name) (\<lambda>_. P) (\<lambda>_. P)"
    unfolding sys_unlink_def
    using assms by (auto intro!: syscall_triple simp: no_part_def split: option.splits)
  then show ?thesis
    unfolding unlink_missing_ok_def
    by (rule triple_catching) (auto intro: triple_if triple_ret triple_raise)
qed

lemma fsync_dir_triple:
  assumes "\<And>d c p. P d \<Longrightarrow> P (d\<lparr>d_calls := c, d_power := p\<rparr>)"
    and "\<And>d c p. Q d \<Longrightarrow> Q (d\<lparr>d_calls := c, d_power := p\<rparr>)"
    and "\<And>d. P d \<Longrightarrow> Q (d\<lparr>d_old := []\<rparr>)" and "\<And>d. Q d \<Longrightarrow> P d"
  shows "triple P fsync_dir (\<lambda>_. Q) (\<lambda>_. P)"
proof -
  have s: "triple P sys_fsync_dir (\<lambda>_. Q) (\<lambda>_. P)"
    unfolding sys_fsync_dir_def using assms by (auto intro!: syscall_triple simp: no_part_def)
  have "triple Q sys_close (\<lambda>_. Q) (\<lambda>_. P)"
    unfolding sys_close_def using assms(2,4) by (auto intro!: syscall_triple simp: no_part_def)
  moreover have "triple P sys_close (\<lambda>_. P) (\<lambda>_. P)"
    using idle_triple(3) [of P] assms(1) by blast
  ultimately have c: "triple Q sys_close (\<lambda>_. Q) (\<lambda>_. P)" "triple P sys_close (\<lambda>_. P) (\<lambda>_. P)"
    by blast+
  show ?thesis
    unfolding fsync_dir_def
    by (rule triple_bnd [where R = "\<lambda>_. P"], rule idle_triple(2), erule assms(1),
        rule triple_ensuring [OF s c(1) c(2)])
qed

section \<open>Writing a shard\<close>

lemma temp_prefix [simp]: "is_temp (TEMP_PREFIX @ x)"
  by (simp add: is_temp_def TEMP_PREFIX_def ustr_def)

lemma open_excl_temp:
  assumes k: "kept d0 {} d" and t: "is_temp t" and free: "d_dir d t = None"
    and d': "d' = (set_dir t (Some (d_next d)) d)\<lparr>d_data := (d_data d)(d_next d := []),
      d_safe := (d_safe d)(d_next d := False), d_next := Suc (d_next d)\<rparr>"
  shows "kept d0 {} d' \<and> temp_at t (d_next d) d' \<and> d_data d' (d_next d) = []"
proof -
  have ok: "disk_ok d" using k by (simp add: kept_def)
  let ?e = "set_dir t (Some (d_next d)) d"
  have h: "hidden (d_next d) ?e"
    using ok t by (fastforce simp: hidden_def disk_ok_def)
  have same: "stored ?e n = stored d n" "outs ?e n = outs d n" if "\<not> is_temp n" for n
    using that t by (auto simp: stored_set_dir outs_set_dir)
  let ?f = "?e\<lparr>d_data := (d_data ?e)(d_next d := []), d_safe := (d_safe ?e)(d_next d := False)\<rparr>"
  have e: "d' = ?f\<lparr>d_next := Suc (d_next d)\<rparr>" by (simp add: d')
  have view: "stored d' n = stored ?f n" "outs d' n = outs ?f n" for n
    by (simp_all only: e next_simps)
  have "disk_ok d'" using ok by (fastforce simp: d' disk_ok_def)
  moreover have "\<forall>n. \<not> is_temp n \<longrightarrow> stored d' n = stored d0 n \<and> outs d' n \<subseteq> outs d0 n"
    using hidden_data [OF h] same view k by (simp add: kept_def)
  moreover have "hidden (d_next d) d'" using h by (simp add: d' hidden_def)
  ultimately show ?thesis using t by (simp add: kept_def temp_at_def d')
qed

lemma mkstemp_triple:
  "triple (kept d0 {}) (mkstemp k)
     (\<lambda>(t, i) d. kept d0 {} d \<and> temp_at t i d \<and> d_data d i = []) (\<lambda>_. kept d0 {})"
proof (induction k)
  case 0
  show ?case by (simp add: triple_raise)
next
  case (Suc k)
  have name: "triple (kept d0 {}) next_name (\<lambda>t d. kept d0 {} d \<and> is_temp t) (\<lambda>_. kept d0 {})"
    by (simp add: triple_def next_name_def)
  have opn: "triple (\<lambda>d. kept d0 {} d \<and> is_temp t) (sys_open_excl t)
      (\<lambda>i d. kept d0 {} d \<and> temp_at t i d \<and> d_data d i = []) (\<lambda>_. kept d0 {})" for t
    unfolding sys_open_excl_def
  proof (rule syscall_triple)
    fix d x d'
    assume "kept d0 {} d \<and> is_temp t"
      "(if d_dir d t \<noteq> None then (Inl EEXIST, d) else (let i = d_next d in (Inr i,
          (set_dir t (Some i) d)\<lparr>d_data := (d_data d)(i := []), d_safe := (d_safe d)(i := False),
             d_next := Suc i\<rparr>))) = (Inr x, d')"
    then show "kept d0 {} d' \<and> temp_at t x d' \<and> d_data d' x = []"
      using open_excl_temp [of d0 d t d'] by (auto simp: Let_def split: if_splits)
  qed (auto simp: no_part_def Let_def split: if_splits)
  show ?case
    unfolding mkstemp.simps
    by (rule triple_bnd [OF name], rule triple_catching [OF triple_bnd [OF opn]],
        auto intro!: triple_ret triple_if Suc triple_raise)
qed

text \<open>The life of a temporary file: \<open>filling\<close> while it is private and holds the bytes \<open>x\<close>.\<close>

definition filling :: "disk \<Rightarrow> pystr \<Rightarrow> nat \<Rightarrow> bytes \<Rightarrow> disk \<Rightarrow> bool" where
  "filling d0 t i x d \<longleftrightarrow> kept d0 {} d \<and> temp_at t i d \<and> d_data d i = x"

lemma filling_counters [simp]: "filling d0 t i x (d\<lparr>d_calls := c, d_power := p\<rparr>) = filling d0 t i x d"
  by (simp add: filling_def)

lemma filling_append: "filling d0 t i x d \<Longrightarrow> filling d0 t i (x @ y) (append_data i y d)"
  using kept_append [of i d d0 "{}" y]
  by (simp add: filling_def temp_at_def) (simp add: append_data_def)

lemma sys_write_triple:
  "triple (filling d0 t i x) (sys_write i y) (\<lambda>_. filling d0 t i (x @ y)) (\<lambda>_ d. \<exists>z. filling d0 t i z d)"
  unfolding sys_write_def
  by (rule syscall_triple) (auto intro: filling_append)

lemma filling_safe: "filling d0 t i x d \<Longrightarrow> filling d0 t i x (d\<lparr>d_safe := (d_safe d)(i := b)\<rparr>)"
  using kept_safe [of i d d0 "{}" b] by (simp add: filling_def temp_at_def) (simp add: hidden_def)

lemma sys_fsync_triple:
  "triple (filling d0 t i x) (sys_fsync i) (\<lambda>_ d. filling d0 t i x d \<and> d_safe d i)
     (\<lambda>_ d. \<exists>z. filling d0 t i z d)"
  unfolding sys_fsync_def
  by (rule syscall_triple) (auto intro: filling_safe simp: no_part_def)

lemma fill_temp_triple:
  "triple (filling d0 t i []) (fill_temp i digest data)
     (\<lambda>_ d. filling d0 t i (digest @ data) d \<and> d_safe d i) (\<lambda>_ d. \<exists>z. filling d0 t i z d)"
proof -
  let ?E = "\<lambda>_ :: storage_exn. \<lambda>d. \<exists>z. filling d0 t i z d"
  let ?Q = "\<lambda>d. filling d0 t i (digest @ data) d \<and> d_safe d i"
  have close: "triple ?Q sys_close (\<lambda>_. ?Q) ?E"
    by (rule triple_conseq [OF idle_triple(3) [of ?Q]]) auto
  have close': "triple (\<lambda>d. \<exists>z. filling d0 t i z d) sys_close (\<lambda>_ d. \<exists>z. filling d0 t i z d) ?E"
    by (rule idle_triple(3)) auto
  have body: "triple (filling d0 t i [])
      (seq (sys_write i digest) (seq (sys_write i data) (sys_fsync i))) (\<lambda>_. ?Q) ?E"
    by (rule triple_bnd [OF sys_write_triple [where x = "[]", simplified]],
        rule triple_bnd [OF sys_write_triple sys_fsync_triple])
  show ?thesis
    unfolding fill_temp_def by (rule triple_ensuring [OF body close close'])
qed

lemma sys_link_triple:
  assumes "\<not> is_temp sid"
  shows "triple (\<lambda>d. filling d0 t i raw d \<and> d_safe d i) (sys_link t sid)
    (\<lambda>_ d. wrote d0 sid raw d) (\<lambda>_ d. kept d0 {} d)"
  unfolding sys_link_def
proof (rule syscall_triple)
  fix d x d'
  assume f: "filling d0 t i raw d \<and> d_safe d i"
    and "(case d_dir d t of None \<Rightarrow> (Inl ENOENT, d)
        | Some i \<Rightarrow> if d_dir d sid \<noteq> None then (Inl EEXIST, d) else (Inr (), set_dir sid (Some i) d))
      = (Inr x, d')"
  then have d': "d' = set_dir sid (Some i) d" and free: "d_dir d sid = None" and dir: "d_dir d t = Some i"
    by (auto simp: filling_def temp_at_def split: if_splits option.splits)
  have lt: "i < d_next d" using f dir by (auto simp: filling_def kept_def disk_ok_def)
  have k: "disk_ok d" "\<And>n. \<not> is_temp n \<Longrightarrow> stored d n = stored d0 n \<and> outs d n \<subseteq> outs d0 n"
    using f by (auto simp: filling_def kept_def)
  have "stored d0 sid = None" using k(2) [OF assms] free by (simp add: stored_def)
  moreover have "outcome d (Some i) = {Some raw}" using f by (simp add: filling_def outcome_def)
  moreover have "disk_ok d'" unfolding d' using k(1) lt by (auto intro: disk_ok_set_dir)
  ultimately show "wrote d0 sid raw d'"
    using k(2) f assms
    by (auto simp: wrote_def kept_def d' stored_set_dir outs_set_dir filling_def)
qed (auto simp: filling_def no_part_def split: if_splits option.splits)

lemma wrote_set_temp: "wrote d0 sid raw d \<Longrightarrow> \<not> is_temp sid \<Longrightarrow> is_temp t \<Longrightarrow>
    wrote d0 sid raw (set_dir t None d)"
  by (auto simp: wrote_def kept_set_None stored_set_dir outs_set_dir)

lemma wrote_fsync_dir: "wrote d0 sid raw d \<Longrightarrow>
    wrote d0 sid raw (d\<lparr>d_old := []\<rparr>) \<and> outs (d\<lparr>d_old := []\<rparr>) sid = {Some raw}"
  using outs_fsync_dir_less [of d sid]
  by (auto simp: wrote_def kept_fsync_dir outs_fsync_dir)

lemma write_shard_triple:
  assumes sid: "\<not> is_temp sid"
  shows "triple (kept d0 {}) (write_shard sid data)
    (\<lambda>h d. h = sha256_hex data \<and> wrote d0 sid (sha256 data @ data) d
       \<and> outs d sid = {Some (sha256 data @ data)})
    (\<lambda>_ d. kept d0 {} d \<or> wrote d0 sid (sha256 data @ data) d)"
proof -
  let ?raw = "sha256 data @ data"
  let ?W = "wrote d0 sid ?raw"
  let ?E = "\<lambda>_ :: storage_exn. \<lambda>d. kept d0 {} d \<or> ?W d"
  have mkdir: "triple (kept d0 {}) sys_mkdir (\<lambda>_. kept d0 {}) ?E"
    by (rule triple_conseq [OF idle_triple(1) [of "kept d0 {}"]]) auto
  have mk: "triple (kept d0 {}) (mkstemp TMP_MAX) (\<lambda>(t, i). filling d0 t i []) ?E"
    by (rule triple_conseq [OF mkstemp_triple]) (auto simp: filling_def)
  have body: "triple (filling d0 t i [])
      (ensuring (catching (seq (fill_temp i (sha256 data) data) (sys_link t sid))
         (\<lambda>e. raise (write_error e))) (unlink_missing_ok t)) (\<lambda>_. ?W) ?E" for t i
  proof (cases "is_temp t")
    case t: True
    have "triple (filling d0 t i []) (seq (fill_temp i (sha256 data) data) (sys_link t sid))
        (\<lambda>_. ?W) (\<lambda>_. kept d0 {})"
    proof (rule triple_bnd)
      show "triple (filling d0 t i []) (fill_temp i (sha256 data) data)
          (\<lambda>_ d. filling d0 t i ?raw d \<and> d_safe d i) (\<lambda>_. kept d0 {})"
        by (rule triple_conseq [OF fill_temp_triple]) (auto simp: filling_def)
    qed (rule sys_link_triple [OF sid])
    then have "triple (filling d0 t i [])
        (catching (seq (fill_temp i (sha256 data) data) (sys_link t sid)) (\<lambda>e. raise (write_error e)))
        (\<lambda>_. ?W) (\<lambda>_. kept d0 {})"
      by (rule triple_catching) (simp add: triple_raise)
    moreover have "triple ?W (unlink_missing_ok t) (\<lambda>_. ?W) ?E"
      by (rule triple_conseq [OF unlink_missing_ok_triple [of ?W]]) (auto simp: wrote_set_temp sid t)
    moreover have "triple (kept d0 {}) (unlink_missing_ok t) (\<lambda>_. ?E PowerLoss) ?E"
      by (rule triple_conseq [OF unlink_missing_ok_triple [of "kept d0 {}"]])
        (auto simp: kept_set_None t)
    ultimately show ?thesis by (rule triple_ensuring)
  next
    case False
    then show ?thesis by (simp add: triple_def filling_def temp_at_def)
  qed
  have sync: "triple ?W fsync_dir (\<lambda>_ d. ?W d \<and> outs d sid = {Some ?raw}) ?E"
    by (rule triple_conseq [OF fsync_dir_triple [of ?W "\<lambda>d. ?W d \<and> outs d sid = {Some ?raw}"]])
      (auto simp: wrote_fsync_dir)
  have rest: "triple ?W (seq fsync_dir (ret (bytes_hex (sha256 data))))
      (\<lambda>h d. h = sha256_hex data \<and> ?W d \<and> outs d sid = {Some ?raw}) ?E"
    by (rule triple_bnd [OF sync]) (simp add: triple_ret sha256_hex_def)
  show ?thesis
    unfolding write_shard_def Let_def
    by (rule triple_bnd [OF mkdir], rule triple_bnd [OF mk])
      (auto intro: triple_bnd [OF body rest])
qed

lemma write_shard_kept:
  assumes "disk_ok d" and "\<not> is_temp sid" and "write_shard sid data d = (r, d1)"
  shows "kept d {} d1 \<or> wrote d sid (sha256 data @ data) d1"
proof -
  note t = write_shard_triple [OF assms(2), of d data] and k = kept_refl [OF assms(1), of "{}"]
  show ?thesis
  proof (cases r)
    case (Inl e)
    then show ?thesis using triple_InlD [OF t k, of e d1] assms(3) by simp
  next
    case (Inr h)
    then show ?thesis using triple_InrD [OF t k, of h d1] assms(3) by simp
  qed
qed

lemma write_shard_disk_ok:
  "disk_ok d \<Longrightarrow> \<not> is_temp sid \<Longrightarrow> disk_ok (snd (write_shard sid data d))"
  using write_shard_kept [of d sid data "fst (write_shard sid data d)" "snd (write_shard sid data d)"]
  by (auto simp: kept_def wrote_def)

text \<open>Every crash now would leave each shard as it is.\<close>

definition settled :: "disk \<Rightarrow> bool" where
  "settled d \<longleftrightarrow> disk_ok d \<and> (\<forall>n. \<not> is_temp n \<longrightarrow> outs d n = {stored d n})"

lemma stored_in_outs: "stored d n \<in> outs d n \<or> d_dir d n \<noteq> None"
  by (auto simp: stored_def outs_def outcome_def)



definition empty_disk :: disk where
  "empty_disk = \<lparr>d_dir = (\<lambda>_. None), d_old = [], d_data = (\<lambda>_. []), d_safe = (\<lambda>_. False), d_next = 0,
     d_calls = 0, d_fault = (\<lambda>_. None), d_power = None, d_suffix = dec_nat, d_draws = 0\<rparr>"

lemma settled_empty: "settled (empty_disk\<lparr>d_power := p\<rparr>)"
  by (simp add: settled_def empty_disk_def disk_ok_def outs_def outcome_def stored_def)

lemma crashed_refl: "crashed d d"
  by (auto simp: crashed_def)

lemma not_temp_example: "\<not> is_temp (ustr ''s'')"
  by (simp add: is_temp_def TEMP_PREFIX_def)


section \<open>Reading and deleting\<close>

lemma read_shard_triple:
  "triple (kept d0 {}) (read_shard sid)
     (\<lambda>data d. kept d0 {} d \<and> (is_temp sid \<or> stored d0 sid = Some (sha256 data @ data)))
     (\<lambda>e d. kept d0 {} d \<and> (e = ShardNotFoundError \<and> \<not> is_temp sid \<longrightarrow> stored d0 sid = None))"
proof -
  let ?E = "\<lambda>e d. kept d0 {} d \<and> (e = ShardNotFoundError \<and> \<not> is_temp sid \<longrightarrow> stored d0 sid = None)"
  have r: "triple (kept d0 {}) (sys_read sid) (\<lambda>raw d. kept d0 {} d \<and> stored d sid = Some raw)
      (\<lambda>e d. kept d0 {} d \<and> e \<noteq> ShardNotFoundError \<and>
         (e = OSError ENOENT \<and> \<not> is_temp sid \<longrightarrow> stored d0 sid = None))"
    unfolding sys_read_def
    by (rule syscall_triple) (auto simp: no_part_def stored_def kept_def split: option.splits)
  have c: "triple (kept d0 {}) (catching (sys_read sid)
        (\<lambda>e. if e = OSError ENOENT then raise ShardNotFoundError else raise e))
      (\<lambda>raw d. kept d0 {} d \<and> stored d sid = Some raw) ?E"
    by (rule triple_catching [OF r]) (auto intro!: triple_if triple_raise)
  have raw: "\<not> is_temp sid \<Longrightarrow> kept d0 {} d \<Longrightarrow> stored d sid = Some raw \<Longrightarrow>
      length (take DIGEST_SIZE raw) = DIGEST_SIZE \<Longrightarrow>
      sha256 (drop DIGEST_SIZE raw) = take DIGEST_SIZE raw \<Longrightarrow>
      stored d0 sid = Some (sha256 (drop DIGEST_SIZE raw) @ drop DIGEST_SIZE raw)" for d raw
    by (simp add: kept_def)
  show ?thesis
    unfolding read_shard_def Let_def
    by (rule triple_bnd [OF c], intro triple_if) (auto intro!: triple_ret triple_raise raw)
qed

definition gone :: "disk \<Rightarrow> pystr \<Rightarrow> disk \<Rightarrow> bool" where
  "gone d0 sid d \<longleftrightarrow> kept d0 {sid} d \<and> d_dir d sid = None \<and> outs d sid \<subseteq> insert None (outs d0 sid)"

lemma gone_counters [simp]: "gone d0 sid (d\<lparr>d_calls := c, d_power := p\<rparr>) = gone d0 sid d"
  by (simp add: gone_def)

lemma delete_shard_triple:
  assumes sid: "\<not> is_temp sid"
  shows "triple (kept d0 {}) (delete_shard sid)
    (\<lambda>b d. if b then gone d0 sid d \<and> outs d sid = {None} else kept d0 {} d \<and> stored d0 sid = None)
    (\<lambda>_ d. kept d0 {} d \<or> gone d0 sid d)"
proof -
  let ?E = "\<lambda>_ :: storage_exn. \<lambda>d. kept d0 {} d \<or> gone d0 sid d"
  have "triple (kept d0 {}) (sys_unlink sid) (\<lambda>_. gone d0 sid)
      (\<lambda>e d. kept d0 {} d \<and> (e = OSError ENOENT \<longrightarrow> stored d0 sid = None))"
    unfolding sys_unlink_def
  proof (rule syscall_triple)
    fix d x d'
    assume k: "kept d0 {} d"
      and "(case d_dir d sid of None \<Rightarrow> (Inl ENOENT, d) | Some _ \<Rightarrow> (Inr (), set_dir sid None d)) = (Inr x, d')"
    then have d': "d' = set_dir sid None d" by (auto split: option.splits)
    have "disk_ok d'" unfolding d' using k by (auto intro: disk_ok_set_dir simp: kept_def)
    then show "gone d0 sid d'"
      using k sid by (auto simp: gone_def kept_def d' stored_set_dir outs_set_dir outcome_def)
  qed (auto simp: no_part_def stored_def kept_def sid dest!: spec [where x = sid] split: option.splits)
  then have "triple (kept d0 {}) (catching (seq (sys_unlink sid) (ret True))
        (\<lambda>e. if e = OSError ENOENT then ret False else raise e))
      (\<lambda>b d. if b then gone d0 sid d else kept d0 {} d \<and> stored d0 sid = None) ?E"
    by (intro triple_catching [OF triple_bnd])
      (auto intro!: triple_ret triple_if triple_raise)
  moreover have "triple (gone d0 sid) fsync_dir (\<lambda>_ d. gone d0 sid d \<and> outs d sid = {None}) ?E"
    by (rule triple_conseq [OF fsync_dir_triple [of "gone d0 sid" "\<lambda>d. gone d0 sid d \<and> outs d sid = {None}"]])
      (auto simp: gone_def kept_fsync_dir outs_fsync_dir outcome_def)
  ultimately show ?thesis
    unfolding delete_shard_def
    by (elim triple_bnd) (auto intro!: triple_if triple_ret triple_bnd [where R = "\<lambda>_ d. gone d0 sid d \<and> outs d sid = {None}"]
      intro: triple_pre)
qed

text \<open>
  C33. Deleting a shard is atomic and durable as well: wherever \<open>delete_shard\<close> stops, after a power
  loss every other shard is unchanged and this one is as before or gone; when the call returned
  True it is gone for good, and when it returned False there was none and there is none.
\<close>
theorem delete_shard_crash_safe:
  assumes "settled d" and "\<not> is_temp sid" and "delete_shard sid d = (r, d1)" and "crashed d1 d2"
  shows "(\<forall>n. \<not> is_temp n \<and> n \<noteq> sid \<longrightarrow> stored d2 n = stored d n) \<and>
     (stored d2 sid = stored d sid \<or> stored d2 sid = None) \<and>
     (r = Inr True \<longrightarrow> stored d2 sid = None) \<and>
     (r = Inr False \<longrightarrow> stored d sid = None \<and> stored d2 sid = None)"
proof -
  have d: "disk_ok d" "\<And>n. \<not> is_temp n \<Longrightarrow> outs d n = {stored d n}"
    using assms(1) by (auto simp: settled_def)
  note t = delete_shard_triple [OF assms(2), of d] and k = kept_refl [OF d(1), of "{}"]
  have post: "if r = Inr True then gone d sid d1 \<and> outs d1 sid = {None}
      else if r = Inr False then kept d {} d1 \<and> stored d sid = None else kept d {} d1 \<or> gone d sid d1"
  proof (cases r)
    case (Inl e)
    then show ?thesis using triple_InlD [OF t k, of e d1] assms(3) by simp
  next
    case (Inr b)
    then show ?thesis using triple_InrD [OF t k, of b d1] assms(3) by (cases b) simp_all
  qed
  then have "(\<forall>n. \<not> is_temp n \<and> n \<noteq> sid \<longrightarrow> outs d1 n \<subseteq> outs d n) \<and>
      outs d1 sid \<subseteq> insert None (outs d sid) \<and> (r = Inr True \<longrightarrow> outs d1 sid = {None}) \<and>
      (r = Inr False \<longrightarrow> outs d1 sid \<subseteq> outs d sid \<and> stored d sid = None)"
    using assms(2) by (auto simp: kept_def gone_def split: if_splits)
  then have o: "\<not> is_temp n \<and> n \<noteq> sid \<Longrightarrow> outs d1 n \<subseteq> outs d n"
      "outs d1 sid \<subseteq> insert None (outs d sid)" "r = Inr True \<Longrightarrow> outs d1 sid = {None}"
      "r = Inr False \<Longrightarrow> outs d1 sid \<subseteq> outs d sid \<and> stored d sid = None" for n
    by blast+
  note out = crashed_outs [OF assms(4)]
  show ?thesis
  proof (intro conjI allI impI)
    fix n
    assume n: "\<not> is_temp n \<and> n \<noteq> sid"
    then show "stored d2 n = stored d n" using o(1) [OF n] out [of n] d(2) [of n] by auto
  qed (use o(2-4) out [of sid] d(2) [OF assms(2)] in auto)
qed

theorem delete_shard_crash_safe_witness:
  "let d = empty_disk\<lparr>d_power := Some 1\<rparr>
   in settled d \<and> stored (snd (delete_shard (ustr ''s'') d)) (ustr ''s'') = None"
  using delete_shard_crash_safe [OF settled_empty not_temp_example _ crashed_refl,
      of "Some 1" "fst (delete_shard (ustr ''s'') (empty_disk\<lparr>d_power := Some 1\<rparr>))"
      "snd (delete_shard (ustr ''s'') (empty_disk\<lparr>d_power := Some 1\<rparr>))"]
    settled_empty [of "Some 1"]
  by (simp only: Let_def prod.collapse simp_thms) (auto simp: stored_def empty_disk_def)

text \<open>
  A read returns verified data only: on any disk, under any failing system calls, what
  \<open>read_shard\<close> returns is the payload of the stored file, and the file is this payload's SHA-256
  digest followed by the payload. So a damaged or cut-off shard is never returned as data. No shard
  is changed by reading.
\<close>
theorem read_shard_verified:
  assumes "disk_ok d" and "\<not> is_temp sid" and "read_shard sid d = (r, d1)"
  shows "(\<forall>data. r = Inr data \<longrightarrow> stored d sid = Some (sha256 data @ data)) \<and>
     (\<forall>n. \<not> is_temp n \<longrightarrow> stored d1 n = stored d n)"
proof -
  note t = read_shard_triple [of d sid] and k = kept_refl [OF assms(1), of "{}"]
  show ?thesis
  proof (cases r)
    case (Inl e)
    then show ?thesis using triple_InlD [OF t k, of e d1] assms(3) by (simp add: kept_def)
  next
    case (Inr x)
    then show ?thesis using triple_InrD [OF t k, of x d1] assms(2,3) by (simp add: kept_def)
  qed
qed

theorem read_shard_verified_witness:
  "let d = snd (write_shard (ustr ''s'') [1, 2] empty_disk)
   in \<forall>data. fst (read_shard (ustr ''s'') d) = Inr data \<longrightarrow> stored d (ustr ''s'') = Some (sha256 data @ data)"
proof -
  have "disk_ok empty_disk" using settled_empty [of None] by (simp add: settled_def empty_disk_def)
  note ok = write_shard_disk_ok [OF this not_temp_example, of "[1, 2]"]
  show ?thesis
    using read_shard_verified [OF ok not_temp_example prod.collapse [symmetric]] by (simp add: Let_def)
qed

section \<open>The store refines a map\<close>

text \<open>A working disk: no failing call, power on, no temporary file left behind.\<close>

definition calm :: "disk \<Rightarrow> bool" where
  "calm d \<longleftrightarrow> disk_ok d \<and> d_power d = None \<and> (\<forall>k. d_fault d k = None) \<and>
     (\<forall>n. is_temp n \<longrightarrow> d_dir d n = None)"

definition shard_map :: "disk \<Rightarrow> pystr \<Rightarrow> bytes option" where
  "shard_map d n = (if is_temp n then None else stored d n)"

text \<open>What the store promises: a map from shard ids to files, written once, read back verified.\<close>

definition spec_write :: "pystr \<Rightarrow> bytes \<Rightarrow> (pystr \<Rightarrow> bytes option, storage_exn, pystr) io" where
  "spec_write sid data = (\<lambda>m.
     if m sid \<noteq> None then (Inl ShardExistsError, m)
     else (Inr (sha256_hex data), m(sid \<mapsto> sha256 data @ data)))"

definition spec_read :: "pystr \<Rightarrow> (pystr \<Rightarrow> bytes option, storage_exn, bytes) io" where
  "spec_read sid = (\<lambda>m.
     case m sid of
       None \<Rightarrow> (Inl ShardNotFoundError, m)
     | Some raw \<Rightarrow> if take 32 raw = sha256 (drop 32 raw) then (Inr (drop 32 raw), m)
                   else (Inl ShardCorruptedError, m))"

definition spec_delete :: "pystr \<Rightarrow> (pystr \<Rightarrow> bytes option, storage_exn, bool) io" where
  "spec_delete sid = (\<lambda>m. (Inr (m sid \<noteq> None), m(sid := None)))"

lemma calm_syscall:
  "d_power d = None \<Longrightarrow> (\<And>k. d_fault d k = None) \<Longrightarrow>
   syscall part f d = (case f (d\<lparr>d_calls := Suc (d_calls d), d_power := None\<rparr>) of
      (Inl e, d') \<Rightarrow> (Inl (OSError e), d') | (Inr x, d') \<Rightarrow> (Inr x, d'))"
  by (simp add: syscall_def Let_def)

lemma calm_mkstemp_Suc:
  assumes "calm d"
  shows "mkstemp (Suc k) d =
    (Inr (TEMP_PREFIX @ d_suffix d (d_draws d), d_next d),
     (set_dir (TEMP_PREFIX @ d_suffix d (d_draws d)) (Some (d_next d)) d)
       \<lparr>d_data := (d_data d)(d_next d := []), d_safe := (d_safe d)(d_next d := False),
        d_next := Suc (d_next d), d_calls := Suc (d_calls d), d_power := None,
        d_draws := Suc (d_draws d)\<rparr>)"
  using assms
  by (simp add: io_simps next_name_def sys_open_excl_def calm_syscall calm_def set_dir_def Let_def)

lemma TMP_MAX_Suc: "TMP_MAX = Suc 9999"
  by (simp add: TMP_MAX_def)

lemmas calm_mkstemp = calm_mkstemp_Suc [where k = 9999, folded TMP_MAX_Suc]

lemma calm_write:
  assumes "calm d" and sid: "\<not> is_temp sid"
  shows "fst (write_shard sid data d)
      = (if d_dir d sid = None then Inr (sha256_hex data) else Inl ShardExistsError)
    \<and> calm (snd (write_shard sid data d))
    \<and> d_dir (snd (write_shard sid data d))
      = (if d_dir d sid = None then (d_dir d)(sid \<mapsto> d_next d) else d_dir d)
    \<and> d_data (snd (write_shard sid data d)) = (d_data d)(d_next d := sha256 data @ data)"
proof -
  let ?t = "TEMP_PREFIX @ d_suffix d (d_draws d)"
  have free: "d_dir d ?t = None" and ne: "?t \<noteq> sid"
    using assms temp_prefix [of "d_suffix d (d_draws d)"] by (auto simp: calm_def)
  have flags: "d_power d = None" "\<And>k. d_fault d k = None" using assms(1) by (simp_all add: calm_def)
  note calls = sys_write_def sys_fsync_def sys_close_def sys_link_def sys_unlink_def
    sys_open_dir_def sys_fsync_dir_def sys_mkdir_def
  have c: "calm (d\<lparr>d_calls := k, d_power := None\<rparr>)" for k
    using assms(1) flags by (simp add: calm_def disk_ok_def)
  have cleared: "(d_dir d)(?t := None) = d_dir d" "(d_dir d)(sid := v, ?t := None) = (d_dir d)(sid := v)" for v
    using free ne by (auto simp: fun_eq_iff)
  have bound: "m n = Some j \<Longrightarrow> m \<in> set (d_dir d # d_old d) \<Longrightarrow> j < Suc (d_next d)" for m n j
    using assms(1) by (fastforce simp: calm_def disk_ok_def)
  note run = write_shard_def Let_def io_simps calm_mkstemp [OF c] calm_syscall flags calls fill_temp_def
    unlink_missing_ok_def fsync_dir_def append_data_def set_dir_def sha256_hex_def write_error_def cleared
  show ?thesis
  proof (cases "d_dir d sid")
    case None
    have "calm (d\<lparr>d_next := Suc (d_next d), d_draws := n, d_data := x, d_safe := y,
        d_dir := (d_dir d)(sid \<mapsto> d_next d), d_old := [], d_calls := k, d_power := None\<rparr>)" for n x y k
      using assms bound by (auto simp: calm_def disk_ok_def)
    then show ?thesis using None free ne by (simp add: run)
  next
    case (Some i)
    have "calm (d\<lparr>d_next := Suc (d_next d), d_draws := n, d_data := x, d_safe := y, d_dir := d_dir d,
        d_calls := k, d_power := None, d_old := [(d_dir d)(?t \<mapsto> d_next d), d_dir d] @ d_old d\<rparr>)" for n x y k
      using assms bound by (fastforce simp: calm_def disk_ok_def)
    then show ?thesis using Some free ne by (simp add: run)
  qed
qed
lemma calm_read:
  assumes "calm d"
  shows "read_shard sid d =
    (case stored d sid of
       None \<Rightarrow> (Inl ShardNotFoundError, d\<lparr>d_calls := Suc (d_calls d), d_power := None\<rparr>)
     | Some raw \<Rightarrow>
         (if take 32 raw = sha256 (drop 32 raw) then Inr (drop 32 raw) else Inl ShardCorruptedError,
          d\<lparr>d_calls := Suc (d_calls d), d_power := None\<rparr>))"
proof -
  have flags: "d_power d = None" "\<And>k. d_fault d k = None" using assms by (simp_all add: calm_def)
  have t: "take 32 raw = sha256 (drop 32 raw) \<Longrightarrow> 32 \<le> length raw" for raw
    using length_sha256 [of "drop 32 raw"] by (metis length_take min.absorb_iff2 nle_le)
  show ?thesis
    using t
    by (auto simp: read_shard_def io_simps sys_read_def calm_syscall flags stored_def Let_def
        DIGEST_SIZE_def split: option.split)
qed

lemma calm_counters: "calm d \<Longrightarrow> calm (d\<lparr>d_calls := k, d_power := None\<rparr>)"
  by (simp add: calm_def)

lemma calm_delete:
  assumes "calm d" and "\<not> is_temp sid"
  shows "fst (delete_shard sid d) = Inr (d_dir d sid \<noteq> None)
    \<and> calm (snd (delete_shard sid d))
    \<and> d_dir (snd (delete_shard sid d)) = (d_dir d)(sid := None)
    \<and> d_data (snd (delete_shard sid d)) = d_data d"
proof -
  have flags: "d_power d = None" "\<And>k. d_fault d k = None" using assms by (simp_all add: calm_def)
  have c: "calm (d\<lparr>d_dir := (d_dir d)(sid := None), d_old := [], d_calls := k, d_power := None\<rparr>)" for k
    using assms by (auto simp: calm_def disk_ok_def)
  show ?thesis
  proof (cases "d_dir d sid")
    case None
    then have "(d_dir d)(sid := None) = d_dir d" by auto
    then show ?thesis
      using None calm_counters [OF assms(1)]
      by (simp add: delete_shard_def io_simps sys_unlink_def calm_syscall flags)
  next
    case (Some i)
    then show ?thesis
      using c by (simp add: delete_shard_def io_simps sys_unlink_def calm_syscall flags fsync_dir_def
          set_dir_def sys_open_dir_def sys_fsync_dir_def sys_close_def)
  qed
qed

text \<open>The interface the node's handlers use: a state with an abstract view, on which each operation
  has the effect of its specification.\<close>

locale shard_store =
  fixes inv :: "'d \<Rightarrow> bool" and view :: "'d \<Rightarrow> pystr \<Rightarrow> bytes option" and good_id :: "pystr \<Rightarrow> bool"
    and wr :: "pystr \<Rightarrow> bytes \<Rightarrow> ('d, storage_exn, pystr) io"
    and rd :: "pystr \<Rightarrow> ('d, storage_exn, bytes) io"
    and dl :: "pystr \<Rightarrow> ('d, storage_exn, bool) io"
  assumes wr_spec: "inv d \<Longrightarrow> good_id sid \<Longrightarrow> wr sid x d = (r, d') \<Longrightarrow>
      inv d' \<and> spec_write sid x (view d) = (r, view d')"
    and rd_spec: "inv d \<Longrightarrow> good_id sid \<Longrightarrow> rd sid d = (y, d') \<Longrightarrow>
      inv d' \<and> spec_read sid (view d) = (y, view d')"
    and dl_spec: "inv d \<Longrightarrow> good_id sid \<Longrightarrow> dl sid d = (b, d') \<Longrightarrow>
      inv d' \<and> spec_delete sid (view d) = (b, view d')"

datatype store_op = PutOp pystr bytes | GetOp pystr | DelOp pystr

datatype store_res = PutRes "storage_exn + pystr" | GetRes "storage_exn + bytes" | DelRes "storage_exn + bool"

fun op_id :: "store_op \<Rightarrow> pystr" where
  "op_id (PutOp sid x) = sid" | "op_id (GetOp sid) = sid" | "op_id (DelOp sid) = sid"

fun run_ops ::
  "(pystr \<Rightarrow> bytes \<Rightarrow> ('d, storage_exn, pystr) io) \<Rightarrow> (pystr \<Rightarrow> ('d, storage_exn, bytes) io) \<Rightarrow>
   (pystr \<Rightarrow> ('d, storage_exn, bool) io) \<Rightarrow> store_op list \<Rightarrow> 'd \<Rightarrow> store_res list \<times> 'd" where
  "run_ops wr rd dl [] d = ([], d)"
| "run_ops wr rd dl (PutOp sid x # ops) d =
     (case wr sid x d of (r, d') \<Rightarrow> (case run_ops wr rd dl ops d' of (rs, d'') \<Rightarrow> (PutRes r # rs, d'')))"
| "run_ops wr rd dl (GetOp sid # ops) d =
     (case rd sid d of (r, d') \<Rightarrow> (case run_ops wr rd dl ops d' of (rs, d'') \<Rightarrow> (GetRes r # rs, d'')))"
| "run_ops wr rd dl (DelOp sid # ops) d =
     (case dl sid d of (r, d') \<Rightarrow> (case run_ops wr rd dl ops d' of (rs, d'') \<Rightarrow> (DelRes r # rs, d'')))"

context shard_store
begin

lemma ops_simulated:
  "inv d \<Longrightarrow> (\<And>op. op \<in> set ops \<Longrightarrow> good_id (op_id op)) \<Longrightarrow> run_ops wr rd dl ops d = (rs, d') \<Longrightarrow>
   inv d' \<and> run_ops spec_write spec_read spec_delete ops (view d) = (rs, view d')"
proof (induction ops arbitrary: d rs)
  case (Cons op ops)
  show ?case
  proof (cases op)
    case (PutOp sid x)
    then show ?thesis
      using Cons.prems Cons.IH wr_spec [of d sid x] by (force split: prod.splits)
  next
    case (GetOp sid)
    then show ?thesis
      using Cons.prems Cons.IH rd_spec [of d sid] by (force split: prod.splits)
  next
    case (DelOp sid)
    then show ?thesis
      using Cons.prems Cons.IH dl_spec [of d sid] by (force split: prod.splits)
  qed
qed simp

lemma read_own_write:
  assumes "inv d" and "good_id sid" and "wr sid x d = (Inr h, d')"
  shows "fst (rd sid d') = Inr x" and "fst (wr sid y d') = Inl ShardExistsError"
proof -
  have s: "inv d'" "spec_write sid x (view d) = (Inr h, view d')"
    using wr_spec [OF assms] by auto
  then have "view d' = (view d)(sid \<mapsto> sha256 x @ x)" by (auto simp: spec_write_def split: if_splits)
  then have v: "view d' sid = Some (sha256 x @ x)" by simp
  show "fst (rd sid d') = Inr x"
    using rd_spec [OF s(1) assms(2) prod.collapse [symmetric]] v by (auto simp: spec_read_def)
  show "fst (wr sid y d') = Inl ShardExistsError"
    using wr_spec [OF s(1) assms(2) prod.collapse [symmetric]] v by (auto simp: spec_write_def)
qed

end

lemma calm_shard_store:
  "shard_store calm shard_map (\<lambda>sid. \<not> is_temp sid) write_shard read_shard delete_shard"
proof
  fix d sid x r d'
  assume c: "calm d" and sid: "\<not> is_temp sid"
  have none: "shard_map d sid = None \<longleftrightarrow> d_dir d sid = None"
    using sid by (simp add: shard_map_def stored_def)
  {
    assume w: "write_shard sid x d = (r, d')"
    then have d': "d_data d' = (d_data d)(d_next d := sha256 x @ x)" "calm d'"
      "r = (if d_dir d sid = None then Inr (sha256_hex x) else Inl ShardExistsError)"
      "d_dir d' = (if d_dir d sid = None then (d_dir d)(sid \<mapsto> d_next d) else d_dir d)"
      using calm_write [OF c sid, of x] by auto
    have "map_option (d_data d') (d_dir d n) = map_option (d_data d) (d_dir d n)" for n
      using c by (cases "d_dir d n") (auto simp: d' calm_def disk_ok_def)
    then show "calm d' \<and> spec_write sid x (shard_map d) = (r, shard_map d')"
      using none sid d' by (auto simp: spec_write_def shard_map_def stored_def intro!: ext)
  }
next
  fix d sid y d'
  assume c: "calm d" and sid: "\<not> is_temp sid" and "read_shard sid d = (y, d')"
  then show "calm d' \<and> spec_read sid (shard_map d) = (y, shard_map d')"
    using calm_read [OF c, of sid] calm_counters [OF c]
    by (auto simp: spec_read_def shard_map_def fun_eq_iff split: option.splits)
next
  fix d sid b d'
  assume c: "calm d" and sid: "\<not> is_temp sid" and "delete_shard sid d = (b, d')"
  then show "calm d' \<and> spec_delete sid (shard_map d) = (b, shard_map d')"
    using calm_delete [OF c sid]
    by (auto simp: spec_delete_def shard_map_def stored_def intro!: ext)
qed

interpretation store: shard_store calm shard_map "\<lambda>sid. \<not> is_temp sid" write_shard read_shard delete_shard
  by (rule calm_shard_store)

text \<open>
  C27. On a working disk the shard store is a write-once map: any sequence of \<open>write_shard\<close>,
  \<open>read_shard\<close> and \<open>delete_shard\<close> gives the results of the same sequence on a map from shard ids to
  digest-prefixed files, and leaves the shards this map holds. So a write of an existing id is
  refused, a read gives what was written, a file whose digest does not match is reported corrupt,
  and no operation touches another shard.
\<close>
theorem store_refines_map:
  assumes "calm d" and "\<And>op. op \<in> set ops \<Longrightarrow> \<not> is_temp (op_id op)"
    and "run_ops write_shard read_shard delete_shard ops d = (rs, d')"
  shows "run_ops spec_write spec_read spec_delete ops (shard_map d) = (rs, shard_map d')"
  using store.ops_simulated [OF assms] by blast

theorem store_refines_map_witness:
  "let s = ustr ''s''; ops = [PutOp s [1], PutOp s [2], GetOp s, DelOp s, GetOp s]
   in fst (run_ops write_shard read_shard delete_shard ops empty_disk)
      = [PutRes (Inr (sha256_hex [1])), PutRes (Inl ShardExistsError), GetRes (Inr [1]),
         DelRes (Inr True), GetRes (Inl ShardNotFoundError)]"
proof -
  have c: "calm empty_disk" by (simp add: calm_def empty_disk_def disk_ok_def)
  let ?ops = "[PutOp (ustr ''s'') [1], PutOp (ustr ''s'') [2], GetOp (ustr ''s''), DelOp (ustr ''s''),
    GetOp (ustr ''s'')]"
  have "run_ops spec_write spec_read spec_delete ?ops (shard_map empty_disk)
      = (fst (run_ops write_shard read_shard delete_shard ?ops empty_disk),
         shard_map (snd (run_ops write_shard read_shard delete_shard ?ops empty_disk)))"
    by (rule store_refines_map [OF c _ prod.collapse [symmetric]]) (auto simp: not_temp_example simp del: ustr_Cons)
  moreover have "shard_map empty_disk (ustr ''s'') = None"
    by (simp add: shard_map_def stored_def empty_disk_def)
  ultimately show ?thesis
    by (simp add: Let_def spec_write_def spec_read_def spec_delete_def prod_eq_iff del: ustr_Cons)
qed

end
