(* ===== verification/NodeApi.thy ===== *)
theory NodeApi
  imports Storage
begin

text \<open>
  \<open>storage_node/router.py\<close>, \<open>storage_node/main.py\<close> and \<open>storage_node/config.py\<close>: the HTTP interface of
  a storage node over the shard store. A request carries the path parameter, the headers the
  handlers read (decoded, so any code points up to 255) and the chunks of its body. Dependencies run
  in FastAPI's order: the router's token check, the shard id, then the validation of the headers.
  An exception that is no \<open>HTTPException\<close> becomes a 500 answer; a power loss gives no answer.
\<close>

datatype http_method = PUT | GET | DELETE

record node_settings =
  ns_token :: pystr
  ns_max_shard_bytes :: int

text \<open>\<open>Settings\<close>: the length of the token and the sign of the limit are validated at start.\<close>

definition node_settings_ok :: "node_settings \<Rightarrow> bool" where
  "node_settings_ok st \<longleftrightarrow> 32 \<le> length (ns_token st) \<and> 0 < ns_max_shard_bytes st"

record node_req =
  q_method :: http_method
  q_shard_id :: pystr
  q_token :: "pystr option"
  q_checksum :: "pystr option"
  q_length :: "pystr option"
  q_body :: "bytes list"

datatype node_content = NoContent | Raw bytes | ShardInfo pystr pystr nat

record node_resp =
  p_status :: nat
  p_corrupt :: bool
  p_checksum :: "pystr option"
  p_content :: node_content

datatype node_exn = HttpError nat bool | TypeError | ValueError | StoreError storage_exn

type_synonym 'a nio = "(disk, node_exn, 'a) io"

definition on_disk :: "'a sio \<Rightarrow> 'a nio" where
  "on_disk m = (\<lambda>d. case m d of (Inl e, d') \<Rightarrow> (Inl (StoreError e), d') | (Inr x, d') \<Rightarrow> (Inr x, d'))"

definition http_exception :: "nat \<Rightarrow> 'a nio" where
  "http_exception s = raise (HttpError s False)"

section \<open>Dependencies\<close>

text \<open>\<open>hmac.compare_digest\<close> raises \<open>TypeError\<close> on text that is not ASCII.\<close>

definition compare_header :: "pystr \<Rightarrow> pystr \<Rightarrow> bool nio" where
  "compare_header a b =
     (case compare_digest_str a b of None \<Rightarrow> raise TypeError | Some eq \<Rightarrow> ret eq)"

definition require_node_token :: "node_settings \<Rightarrow> pystr option \<Rightarrow> unit nio" where
  "require_node_token st x_node_token =
     (case x_node_token of
        None \<Rightarrow> http_exception 401
      | Some t \<Rightarrow> bnd (compare_header t (ns_token st)) (\<lambda>eq.
          if \<not> eq then http_exception 401 else ret ()))"

definition valid_shard_id :: "ucd \<Rightarrow> pystr \<Rightarrow> pystr nio" where
  "valid_shard_id U shard_id =
     (case validate_shard_id U shard_id of None \<Rightarrow> http_exception 400 | Some c \<Rightarrow> ret c)"

text \<open>\<open>str.isdigit\<close> on a header (the superscripts count), and \<open>int\<close> of such a text: it raises
  \<open>ValueError\<close> on superscripts and beyond CPython's limit of 4300 digits.\<close>

definition header_isdigit :: "pystr \<Rightarrow> bool" where
  "header_isdigit s \<longleftrightarrow> s \<noteq> [] \<and> list_all (\<lambda>c. is_digit c \<or> c \<in> {178, 179, 185}) s"

definition int_of_digits :: "pystr \<Rightarrow> int option" where
  "int_of_digits s =
     (if list_all is_digit s \<and> s \<noteq> [] \<and> length s \<le> 4300 then Some (int (dec_value s)) else None)"

fun read_chunks :: "int \<Rightarrow> nat \<Rightarrow> bytes list \<Rightarrow> bytes list \<Rightarrow> bytes nio" where
  "read_chunks limit received chunks [] = ret (concat chunks)"
| "read_chunks limit received chunks (chunk # stream) =
     (let received' = received + length chunk
      in if int received' > limit then http_exception 413
         else read_chunks limit received' (chunks @ [chunk]) stream)"

definition read_body_capped :: "pystr option \<Rightarrow> bytes list \<Rightarrow> int \<Rightarrow> bytes nio" where
  "read_body_capped declared stream limit =
     (let read = read_chunks limit 0 [] stream
      in (case declared of
            None \<Rightarrow> read
          | Some s \<Rightarrow>
              if header_isdigit s
              then (case int_of_digits s of
                      None \<Rightarrow> raise ValueError
                    | Some n \<Rightarrow> if n > limit then http_exception 413 else read)
              else read))"

section \<open>Endpoints\<close>

definition put_shard :: "ucd \<Rightarrow> node_settings \<Rightarrow> node_req \<Rightarrow> node_resp nio" where
  "put_shard U st q =
     seq (require_node_token st (q_token q))
     (bnd (valid_shard_id U (q_shard_id q)) (\<lambda>shard_id.
      (case q_checksum q of
         None \<Rightarrow> http_exception 422
       | Some x_checksum \<Rightarrow>
      bnd (read_body_capped (q_length q) (q_body q) (ns_max_shard_bytes st)) (\<lambda>data.
      if data = [] then http_exception 400
      else
      bnd (compare_header (sha256_hex data) (py_lower U x_checksum)) (\<lambda>eq.
      if \<not> eq then http_exception 400
      else
      bnd (catching (on_disk (write_shard shard_id data))
             (\<lambda>e. if e = StoreError ShardExistsError then http_exception 409
                  else if e = StoreError StorageFullError then http_exception 507
                  else raise e)) (\<lambda>checksum.
      ret \<lparr>p_status = 201, p_corrupt = False, p_checksum = None,
           p_content = ShardInfo shard_id checksum (length data)\<rparr>))))))"

definition get_shard :: "ucd \<Rightarrow> node_settings \<Rightarrow> node_req \<Rightarrow> node_resp nio" where
  "get_shard U st q =
     seq (require_node_token st (q_token q))
     (bnd (valid_shard_id U (q_shard_id q)) (\<lambda>shard_id.
      bnd (catching (on_disk (read_shard shard_id))
             (\<lambda>e. if e = StoreError ShardNotFoundError then http_exception 404
                  else if e = StoreError ShardCorruptedError then raise (HttpError 500 True)
                  else raise e)) (\<lambda>data.
      ret \<lparr>p_status = 200, p_corrupt = False, p_checksum = Some (sha256_hex data), p_content = Raw data\<rparr>)))"

definition delete_shard_endpoint :: "ucd \<Rightarrow> node_settings \<Rightarrow> node_req \<Rightarrow> node_resp nio" where
  "delete_shard_endpoint U st q =
     seq (require_node_token st (q_token q))
     (bnd (valid_shard_id U (q_shard_id q)) (\<lambda>shard_id.
      bnd (on_disk (delete_shard shard_id)) (\<lambda>deleted.
      if \<not> deleted then http_exception 404
      else ret \<lparr>p_status = 204, p_corrupt = False, p_checksum = None, p_content = NoContent\<rparr>)))"

definition healthz :: node_resp where
  "healthz = \<lparr>p_status = 200, p_corrupt = False, p_checksum = None, p_content = NoContent\<rparr>"

text \<open>The application: route the request, answer its exceptions. \<open>None\<close>: no answer.\<close>

definition error_answer :: "node_exn \<Rightarrow> node_resp option" where
  "error_answer e =
     (case e of
        HttpError s corrupt \<Rightarrow>
          Some \<lparr>p_status = s, p_corrupt = corrupt, p_checksum = None, p_content = NoContent\<rparr>
      | StoreError PowerLoss \<Rightarrow> None
      | _ \<Rightarrow> Some \<lparr>p_status = 500, p_corrupt = False, p_checksum = None, p_content = NoContent\<rparr>)"

definition node_app :: "ucd \<Rightarrow> node_settings \<Rightarrow> node_req \<Rightarrow> disk \<Rightarrow> node_resp option \<times> disk" where
  "node_app U st q d =
     (case (case q_method q of
              PUT \<Rightarrow> put_shard U st q
            | GET \<Rightarrow> get_shard U st q
            | DELETE \<Rightarrow> delete_shard_endpoint U st q) d of
        (Inl e, d') \<Rightarrow> (error_answer e, d')
      | (Inr p, d') \<Rightarrow> (Some p, d'))"

section \<open>Authentication\<close>

lemma validate_canonical: "validate_shard_id U s = map_option uuid_str (canonical_uuid U s)"
  by (auto simp: validate_shard_id_def canonical_uuid_def Let_def split: option.split)

lemma uuid_not_temp [simp]: "\<not> is_temp (uuid_str u)"
proof
  assume "is_temp (uuid_str u)"
  then have "46 \<in> set (take 5 (uuid_str u))" by (simp add: is_temp_def TEMP_PREFIX_def)
  then have "46 \<in> set (uuid_str u)" by (rule in_set_takeD)
  then show False by (simp add: uuid_str_no_dot)
qed

definition token_ok :: "node_settings \<Rightarrow> node_req \<Rightarrow> bool" where
  "token_ok st q \<longleftrightarrow> q_token q = Some (ns_token st) \<and> is_ascii (ns_token st)"

lemma require_node_token_iff:
  "require_node_token st (q_token q) d =
     (if token_ok st q then Inr ()
      else (case q_token q of
              None \<Rightarrow> Inl (HttpError 401 False)
            | Some t \<Rightarrow> if is_ascii t \<and> is_ascii (ns_token st) then Inl (HttpError 401 False)
                        else Inl TypeError), d)"
  by (auto simp: require_node_token_def token_ok_def compare_header_def compare_digest_str_def
      http_exception_def io_simps split: option.split)

text \<open>
  Only callers with the node token reach the store: without exactly the configured token (or if
  the comparison fails because a text is not ASCII) the request is answered 401 (or 500), whatever
  its method, path and body, and the disk is untouched.
\<close>
theorem node_token_required:
  assumes "\<not> token_ok st q"
  shows "snd (node_app U st q d) = d \<and>
     (\<exists>p. fst (node_app U st q d) = Some p \<and>
        p_status p = (if \<forall>t. q_token q = Some t \<longrightarrow> is_ascii t \<and> is_ascii (ns_token st) then 401 else 500) \<and>
        p_content p = NoContent)"
  using assms
  by (auto simp: node_app_def put_shard_def get_shard_def delete_shard_endpoint_def bnd_apply
      require_node_token_iff error_answer_def split: http_method.split option.split)

definition example_node :: node_settings where
  "example_node = \<lparr>ns_token = replicate 32 97, ns_max_shard_bytes = 1000\<rparr>"

definition example_put :: node_req where
  "example_put = \<lparr>q_method = PUT, q_shard_id = uuid_str 7, q_token = Some (replicate 32 97),
     q_checksum = Some (sha256_hex [1, 2]), q_length = Some (dec_nat 2), q_body = [[1], [2]]\<rparr>"

lemma no_token_example: "\<not> token_ok example_node (example_put\<lparr>q_token := None\<rparr>)"
  by (simp add: token_ok_def)

theorem node_token_required_witness:
  "snd (node_app ascii_ucd example_node (example_put\<lparr>q_token := None\<rparr>) empty_disk) = empty_disk"
  using node_token_required [OF no_token_example] by blast

section \<open>What an answer means for the disk\<close>

lemma triple_on_disk:
  assumes "triple P m Q (\<lambda>e. E (StoreError e))"
  shows "triple P (on_disk m) Q E"
  using assms by (fastforce simp: triple_def on_disk_def split: prod.splits sum.splits)

text \<open>Steps that do not touch the disk.\<close>

definition pure_io :: "'a nio \<Rightarrow> bool" where
  "pure_io m \<longleftrightarrow> (\<forall>d. snd (m d) = d)"

lemma pure_ioI:
  "pure_io (require_node_token st t)" "pure_io (valid_shard_id U s)" "pure_io (compare_header a b)"
  "pure_io (http_exception n)"
  by (auto simp: pure_io_def require_node_token_def valid_shard_id_def compare_header_def
      http_exception_def io_simps split: option.split prod.split sum.split)

lemma read_chunks_pure: "pure_io (read_chunks limit n acc stream)"
  by (induction limit n acc stream rule: read_chunks.induct)
    (auto simp: pure_io_def Let_def http_exception_def io_simps)

lemma read_body_pure: "pure_io (read_body_capped l stream limit)"
  using read_chunks_pure [of limit 0 "[]" stream]
  by (auto simp: read_body_capped_def pure_io_def Let_def http_exception_def io_simps split: option.split)

lemma read_chunks_result:
  "int n = int (length (concat acc)) \<Longrightarrow> n \<le> nat limit \<Longrightarrow>
   read_chunks limit n acc stream d =
     (if int (length (concat acc @ concat stream)) \<le> limit \<or> stream = []
      then (Inr (concat acc @ concat stream), d) else (Inl (HttpError 413 False), d))"
proof (induction limit n acc stream rule: read_chunks.induct)
  case (1 limit n acc)
  then show ?case by (simp add: io_simps)
next
  case (2 limit n acc chunk stream)
  show ?case
  proof (cases "int (n + length chunk) > limit")
    case True
    then show ?thesis using 2 by (simp add: io_simps http_exception_def Let_def)
  next
    case False
    then show ?thesis using 2 by (auto simp add: io_simps Let_def)
  qed
qed

lemma triple_pure:
  "pure_io m \<Longrightarrow> triple P m (\<lambda>x d. P d \<and> m d = (Inr x, d)) (\<lambda>_. P)"
  by (auto simp: triple_def pure_io_def split: prod.split sum.split) (metis snd_conv)+

text \<open>The data of a request that \<open>put_shard\<close> accepts.\<close>

definition put_ok :: "ucd \<Rightarrow> node_settings \<Rightarrow> node_req \<Rightarrow> uuid \<Rightarrow> bool" where
  "put_ok U st q u \<longleftrightarrow> token_ok st q \<and> canonical_uuid U (q_shard_id q) = Some u \<and>
     concat (q_body q) \<noteq> [] \<and>
     int (length (concat (q_body q))) \<le> ns_max_shard_bytes st \<and>
     map_option (py_lower U) (q_checksum q) = Some (sha256_hex (concat (q_body q)))"

lemma bnd_pure:
  assumes "m d = (r, d)" and "bnd m f d = (s, d')"
  shows "(\<exists>e. r = Inl e \<and> s = Inl e \<and> d' = d) \<or> (\<exists>x. r = Inr x \<and> f x d = (s, d'))"
  using assms by (cases r) (auto simp: bnd_def)

lemma read_body_result:
  "read_body_capped l stream limit d = (Inr data, d') \<Longrightarrow> 0 \<le> limit \<Longrightarrow>
   data = concat stream \<and> int (length data) \<le> limit \<and> d' = d"
  using read_chunks_result [of 0 "[]" limit stream d]
  by (auto simp: read_body_capped_def Let_def http_exception_def io_simps split: option.splits if_splits)

definition refusals :: "node_exn set" where
  "refusals = {HttpError 400 False, HttpError 401 False, HttpError 413 False, HttpError 422 False,
     TypeError, ValueError}"

lemma put_shard_cases:
  assumes "put_shard U st q d = (r, d')" and "0 \<le> ns_max_shard_bytes st"
  shows "(\<exists>e. r = Inl e \<and> d' = d \<and> e \<in> refusals) \<or>
    (\<exists>u w. put_ok U st q u \<and>
       write_shard (uuid_str u) (concat (q_body q)) d = (w, d') \<and>
       r = (case w of
              Inl e \<Rightarrow> Inl (if e = ShardExistsError then HttpError 409 False
                            else if e = StorageFullError then HttpError 507 False else StoreError e)
            | Inr h \<Rightarrow> Inr \<lparr>p_status = 201, p_corrupt = False, p_checksum = None,
                p_content = ShardInfo (uuid_str u) h (length (concat (q_body q)))\<rparr>))"
proof -
  obtain b where b: "read_body_capped (q_length q) (q_body q) (ns_max_shard_bytes st) d = (b, d)"
    using read_body_pure [of "q_length q" "q_body q" "ns_max_shard_bytes st"]
    by (metis pure_io_def prod.collapse)
  show ?thesis
  proof (cases b)
    case (Inl e)
    have "e \<in> refusals"
      using b Inl read_chunks_result [of 0 "[]" "ns_max_shard_bytes st" "q_body q" d] assms(2)
      by (auto simp: read_body_capped_def Let_def http_exception_def io_simps refusals_def
          split: option.splits if_splits)
    then show ?thesis
      using assms(1) b Inl
      by (auto simp: refusals_def put_shard_def bnd_apply require_node_token_iff valid_shard_id_def http_exception_def
          io_simps split: option.splits if_splits)
  next
    case (Inr data)
    then have "data = concat (q_body q) \<and> int (length data) \<le> ns_max_shard_bytes st"
      using read_body_result b assms(2) by blast
    then have len: "int (length (concat (q_body q))) \<le> ns_max_shard_bytes st"
      and b': "read_body_capped (q_length q) (q_body q) (ns_max_shard_bytes st) d = (Inr (concat (q_body q)), d)"
      using b Inr by blast+
    show ?thesis
      using assms(1) len
      by (auto simp: refusals_def put_shard_def bnd_apply require_node_token_iff valid_shard_id_def
          validate_canonical compare_header_def compare_digest_str_def http_exception_def b' io_simps on_disk_def put_ok_def
          simp del: length_concat split: option.splits if_splits sum.splits prod.splits)
  qed
qed

lemma write_shard_Inr:
  assumes "disk_ok d" and "\<not> is_temp sid" and "write_shard sid data d = (Inr h, d')"
  shows "h = sha256_hex data \<and> wrote d sid (sha256 data @ data) d' \<and> outs d' sid = {Some (sha256 data @ data)}"
  using triple_InrD [OF write_shard_triple [OF assms(2)] kept_refl [OF assms(1)] assms(3)] by blast

abbreviation body_of :: "node_req \<Rightarrow> bytes" where
  "body_of q \<equiv> concat (q_body q)"

abbreviation shard_file :: "bytes \<Rightarrow> bytes" where
  "shard_file data \<equiv> sha256 data @ data"

lemma put_answer_facts:
  assumes "node_settings_ok st" and "disk_ok d" and "q_method q = PUT" and "node_app U st q d = (ans, d')"
  shows "(kept d {} d' \<or> (\<exists>u. put_ok U st q u \<and> wrote d (uuid_str u) (shard_file (body_of q)) d')) \<and>
    (\<forall>p. ans = Some p \<and> p_status p = 201 \<longrightarrow>
       (\<exists>u. put_ok U st q u \<and> wrote d (uuid_str u) (shard_file (body_of q)) d' \<and>
          outs d' (uuid_str u) = {Some (shard_file (body_of q))} \<and>
          p_content p = ShardInfo (uuid_str u) (sha256_hex (body_of q)) (length (body_of q))))"
proof -
  obtain r where r: "put_shard U st q d = (r, d')"
    "ans = (case r of Inl e \<Rightarrow> error_answer e | Inr p \<Rightarrow> Some p)"
    using assms(3,4) by (auto simp: node_app_def split: prod.splits sum.splits)
  have lim: "0 \<le> ns_max_shard_bytes st" using assms(1) by (simp add: node_settings_ok_def)
  from put_shard_cases [OF r(1) lim] show ?thesis
  proof (elim disjE exE conjE)
    fix e
    assume "r = Inl e" "d' = d" "e \<in> refusals"
    then show ?thesis using r(2) kept_refl [OF assms(2)] by (auto simp: refusals_def error_answer_def)
  next
    fix u w
    assume ok: "put_ok U st q u" and w: "write_shard (uuid_str u) (body_of q) d = (w, d')"
      and res: "r = (case w of
              Inl e \<Rightarrow> Inl (if e = ShardExistsError then HttpError 409 False
                            else if e = StorageFullError then HttpError 507 False else StoreError e)
            | Inr h \<Rightarrow> Inr \<lparr>p_status = 201, p_corrupt = False, p_checksum = None,
                p_content = ShardInfo (uuid_str u) h (length (body_of q))\<rparr>)"
    have "kept d {} d' \<or> wrote d (uuid_str u) (shard_file (body_of q)) d'"
      using write_shard_kept [OF assms(2) uuid_not_temp w] .
    moreover have "\<exists>h. w = Inr h" if "ans = Some p" "p_status p = 201" for p
      using that res r(2) by (auto simp: error_answer_def split: sum.splits if_splits storage_exn.splits)
    ultimately show ?thesis
      using ok write_shard_Inr [OF assms(2) uuid_not_temp] w res r(2)
      by (auto split: sum.splits if_splits simp del: length_concat)
  qed
qed

text \<open>
  C29. What an answer to a PUT means, on any disk and with any failing system call: the disk changed at
  most by the complete shard of a valid request (right token, canonical id, a non-empty body within
  the limit whose SHA-256 is the announced one) that did not exist; and an answer 201 means exactly
  this, with the shard on the medium for good and its id, checksum and size in the answer.
\<close>
theorem put_answer:
  assumes "node_settings_ok st" and "disk_ok d" and "q_method q = PUT" and "node_app U st q d = (ans, d')"
  shows "(kept d {} d' \<or> (\<exists>u. put_ok U st q u \<and> wrote d (uuid_str u) (shard_file (body_of q)) d')) \<and>
    (\<forall>p. ans = Some p \<and> p_status p = 201 \<longrightarrow>
       (\<exists>u. put_ok U st q u \<and> wrote d (uuid_str u) (shard_file (body_of q)) d' \<and>
          outs d' (uuid_str u) = {Some (shard_file (body_of q))} \<and>
          p_content p = ShardInfo (uuid_str u) (sha256_hex (body_of q)) (length (body_of q))))"
  by (rule put_answer_facts [OF assms])

text \<open>On a working disk a valid request succeeds unless the shard exists.\<close>

definition length_header_ok :: "node_settings \<Rightarrow> node_req \<Rightarrow> bool" where
  "length_header_ok st q \<longleftrightarrow>
     (case q_length q of
        None \<Rightarrow> True
      | Some s \<Rightarrow> \<not> header_isdigit s \<or>
          (case int_of_digits s of None \<Rightarrow> False | Some n \<Rightarrow> n \<le> ns_max_shard_bytes st))"

lemma put_shard_run:
  assumes "put_ok U st q u" and "length_header_ok st q"
  shows "put_shard U st q d =
    (case write_shard (uuid_str u) (body_of q) d of
       (Inl e, d') \<Rightarrow> (Inl (if e = ShardExistsError then HttpError 409 False
                       else if e = StorageFullError then HttpError 507 False else StoreError e), d')
     | (Inr h, d') \<Rightarrow> (Inr \<lparr>p_status = 201, p_corrupt = False, p_checksum = None,
                p_content = ShardInfo (uuid_str u) h (length (body_of q))\<rparr>, d'))"
proof -
  have "read_body_capped (q_length q) (q_body q) (ns_max_shard_bytes st) d = (Inr (body_of q), d)"
    using assms read_chunks_result [of 0 "[]" "ns_max_shard_bytes st" "q_body q" d]
    by (auto simp: read_body_capped_def put_ok_def length_header_ok_def Let_def
        simp del: length_concat split: option.splits)
  then show ?thesis
    using assms(1)
    by (auto simp: put_ok_def put_shard_def bnd_apply require_node_token_iff valid_shard_id_def
        validate_canonical compare_header_def compare_digest_str_def http_exception_def io_simps
        on_disk_def split: prod.splits sum.splits)
qed

lemma put_succeeds:
  assumes "calm d" and "q_method q = PUT" and "put_ok U st q u" and "length_header_ok st q"
    and "stored d (uuid_str u) = None"
  shows "fst (node_app U st q d) = Some \<lparr>p_status = 201, p_corrupt = False, p_checksum = None,
      p_content = ShardInfo (uuid_str u) (sha256_hex (body_of q)) (length (body_of q))\<rparr>"
proof -
  have "d_dir d (uuid_str u) = None" using assms(5) by (simp add: stored_def)
  then have "fst (write_shard (uuid_str u) (body_of q) d) = Inr (sha256_hex (body_of q))"
    using calm_write [OF assms(1) uuid_not_temp, of u "body_of q"] by simp
  then show ?thesis
    using put_shard_run [OF assms(3,4), of d] assms(2)
    by (auto simp: node_app_def split: prod.splits sum.splits)
qed

lemma example_put_ok:
  "put_ok ascii_ucd example_node example_put 7" "length_header_ok example_node example_put"
  "node_settings_ok example_node" "q_method example_put = PUT" "body_of example_put = [1, 2]"
proof -
  have "is_ascii (replicate 32 97)" by (simp add: is_ascii_def list_all_iff)
  then show "put_ok ascii_ucd example_node example_put 7"
    by (simp add: put_ok_def example_put_def example_node_def token_ok_def)
  have two: "dec_nat 2 = [50]" by (subst dec_nat.simps) simp
  have "header_isdigit (dec_nat 2)" "int_of_digits (dec_nat 2) = Some 2"
    by (simp_all add: two header_isdigit_def int_of_digits_def is_digit_def dec_value_def)
  then show "length_header_ok example_node example_put"
    by (simp add: length_header_ok_def example_put_def example_node_def)
qed (simp_all add: example_put_def example_node_def node_settings_ok_def)

lemma calm_empty: "calm empty_disk" and stored_empty: "stored empty_disk n = None"
  by (simp_all add: calm_def empty_disk_def disk_ok_def stored_def)

lemma calm_disk_ok: "calm d \<Longrightarrow> disk_ok d"
  by (simp add: calm_def)

theorem put_answer_witness:
  "outs (snd (node_app ascii_ucd example_node example_put empty_disk)) (uuid_str 7)
     = {Some (shard_file [1, 2])}"
proof -
  obtain p where p: "fst (node_app ascii_ucd example_node example_put empty_disk) = Some p" "p_status p = 201"
    using put_succeeds [OF calm_empty example_put_ok(4,1,2) stored_empty] by auto
  obtain u where "put_ok ascii_ucd example_node example_put u"
    "outs (snd (node_app ascii_ucd example_node example_put empty_disk)) (uuid_str u)
      = {Some (shard_file [1, 2])}"
    using put_answer [OF example_put_ok(3) calm_disk_ok [OF calm_empty] example_put_ok(4)
        prod.collapse [symmetric], of ascii_ucd] p example_put_ok(5) by auto
  then show ?thesis using example_put_ok(1) by (auto simp: put_ok_def)
qed

lemma get_answer_facts:
  assumes "disk_ok d" and "q_method q = GET" and "node_app U st q d = (ans, d')"
  shows "kept d {} d' \<and>
    (\<forall>p. ans = Some p \<and> p_status p = 200 \<longrightarrow>
       (\<exists>u data. token_ok st q \<and> canonical_uuid U (q_shard_id q) = Some u \<and>
          stored d (uuid_str u) = Some (shard_file data) \<and>
          p = \<lparr>p_status = 200, p_corrupt = False, p_checksum = Some (sha256_hex data), p_content = Raw data\<rparr>)) \<and>
    (\<forall>p. ans = Some p \<and> p_corrupt p \<longrightarrow> p_status p = 500) \<and>
    (\<forall>p. ans = Some p \<and> p_status p = 404 \<longrightarrow>
       (\<exists>u. canonical_uuid U (q_shard_id q) = Some u \<and> stored d (uuid_str u) = None))"
proof (cases "token_ok st q \<and> canonical_uuid U (q_shard_id q) \<noteq> None")
  case False
  then show ?thesis
    using assms(2,3) kept_refl [OF assms(1), of "{}"]
    by (auto simp: node_app_def get_shard_def bnd_apply require_node_token_iff valid_shard_id_def
        validate_canonical http_exception_def io_simps error_answer_def split: option.splits if_splits)
next
  case True
  then obtain u where u: "token_ok st q" "canonical_uuid U (q_shard_id q) = Some u" by auto
  obtain r where r: "read_shard (uuid_str u) d = (r, d')"
    "ans = (case r of
        Inl e \<Rightarrow> error_answer (if e = ShardNotFoundError then HttpError 404 False
                  else if e = ShardCorruptedError then HttpError 500 True else StoreError e)
      | Inr data \<Rightarrow> Some \<lparr>p_status = 200, p_corrupt = False, p_checksum = Some (sha256_hex data),
          p_content = Raw data\<rparr>)"
    using u assms(2,3)
    by (auto simp: node_app_def get_shard_def bnd_apply require_node_token_iff valid_shard_id_def
        validate_canonical http_exception_def io_simps on_disk_def split: prod.splits sum.splits if_splits)
  have triple: "triple (kept d {}) (read_shard (uuid_str u))
      (\<lambda>data d'. kept d {} d' \<and> stored d (uuid_str u) = Some (shard_file data))
      (\<lambda>e d'. kept d {} d' \<and> (e = ShardNotFoundError \<longrightarrow> stored d (uuid_str u) = None))"
    using read_shard_triple [of d "uuid_str u"] by simp
  note k = kept_refl [OF assms(1), of "{}"]
  show ?thesis
  proof (cases r)
    case (Inl e)
    then show ?thesis
      using r u triple_InlD [OF triple k, of e d'] by (cases e) (auto simp: error_answer_def)
  next
    case (Inr data)
    then show ?thesis using r u triple_InrD [OF triple k, of data d'] by auto
  qed
qed

text \<open>
  What an answer to a GET means, on any disk and with any failing system call: a 200 carries the
  payload of a shard whose file is the payload's digest followed by the payload, with this digest as
  the checksum header; only answers 500 carry the marker of a corrupt shard; a 404 means that there
  is no such shard. Nothing is changed.
\<close>
theorem get_answer:
  assumes "disk_ok d" and "q_method q = GET" and "node_app U st q d = (ans, d')"
  shows "kept d {} d' \<and>
    (\<forall>p. ans = Some p \<and> p_status p = 200 \<longrightarrow>
       (\<exists>u data. token_ok st q \<and> canonical_uuid U (q_shard_id q) = Some u \<and>
          stored d (uuid_str u) = Some (shard_file data) \<and>
          p = \<lparr>p_status = 200, p_corrupt = False, p_checksum = Some (sha256_hex data), p_content = Raw data\<rparr>)) \<and>
    (\<forall>p. ans = Some p \<and> p_corrupt p \<longrightarrow> p_status p = 500) \<and>
    (\<forall>p. ans = Some p \<and> p_status p = 404 \<longrightarrow>
       (\<exists>u. canonical_uuid U (q_shard_id q) = Some u \<and> stored d (uuid_str u) = None))"
  by (rule get_answer_facts [OF assms])

definition example_get :: node_req where
  "example_get = example_put\<lparr>q_method := GET, q_body := []\<rparr>"

theorem get_answer_witness:
  "let d = snd (node_app ascii_ucd example_node example_put empty_disk);
       (ans, d') = node_app ascii_ucd example_node example_get d
   in stored d' (uuid_str 7) = stored d (uuid_str 7)"
proof -
  have "disk_ok (snd (node_app ascii_ucd example_node example_put empty_disk))"
    using put_shard_run [OF example_put_ok(1,2), of empty_disk]
      write_shard_disk_ok [OF calm_disk_ok [OF calm_empty] uuid_not_temp, of 7 "[1, 2]"] example_put_ok(4,5)
    by (auto simp: node_app_def split: prod.splits sum.splits)
  moreover have "q_method example_get = GET" by (simp add: example_get_def)
  ultimately show ?thesis
    using get_answer [OF _ _ prod.collapse [symmetric]] by (simp add: Let_def case_prod_beta kept_def)
qed

lemma delete_shard_kept:
  assumes "disk_ok d" and "\<not> is_temp sid" and "delete_shard sid d = (r, d')"
  shows "kept d {} d' \<or> gone d sid d'"
    and "r = Inr True \<Longrightarrow> gone d sid d' \<and> outs d' sid = {None}" and "r = Inr False \<Longrightarrow> kept d {} d' \<and> stored d sid = None"
proof -
  note t = delete_shard_triple [OF assms(2), of d] and k = kept_refl [OF assms(1), of "{}"]
  show "kept d {} d' \<or> gone d sid d'"
  proof (cases r)
    case (Inl e)
    then show ?thesis using triple_InlD [OF t k, of e d'] assms(3) by simp
  next
    case (Inr b)
    then show ?thesis using triple_InrD [OF t k, of b d'] assms(3) by (cases b) simp_all
  qed
  show "gone d sid d' \<and> outs d' sid = {None}" if "r = Inr True"
    using triple_InrD [OF t k, of True d'] assms(3) that by simp
  show "kept d {} d' \<and> stored d sid = None" if "r = Inr False"
    using triple_InrD [OF t k, of False d'] assms(3) that by simp
qed

lemma delete_run:
  assumes "q_method q = DELETE" and "token_ok st q" and "canonical_uuid U (q_shard_id q) = Some u"
  shows "node_app U st q d =
    (case delete_shard (uuid_str u) d of
       (Inl e, d') \<Rightarrow> (error_answer (StoreError e), d')
     | (Inr b, d') \<Rightarrow> (Some \<lparr>p_status = (if b then 204 else 404), p_corrupt = False, p_checksum = None,
                         p_content = NoContent\<rparr>, d'))"
  using assms
  by (auto simp: node_app_def delete_shard_endpoint_def bnd_apply require_node_token_iff valid_shard_id_def
      validate_canonical http_exception_def io_simps on_disk_def error_answer_def
      split: prod.splits sum.splits if_splits)

lemma delete_answer_facts:
  assumes "disk_ok d" and "q_method q = DELETE" and "node_app U st q d = (ans, d')"
  shows "(kept d {} d' \<or> (\<exists>u. token_ok st q \<and> canonical_uuid U (q_shard_id q) = Some u \<and> gone d (uuid_str u) d')) \<and>
    (\<forall>p. ans = Some p \<and> p_status p = 204 \<longrightarrow>
       (\<exists>u. canonical_uuid U (q_shard_id q) = Some u \<and> gone d (uuid_str u) d' \<and> outs d' (uuid_str u) = {None})) \<and>
    (\<forall>p. ans = Some p \<and> p_status p = 404 \<longrightarrow>
       (\<exists>u. canonical_uuid U (q_shard_id q) = Some u \<and> kept d {} d' \<and> stored d (uuid_str u) = None))"
proof (cases "token_ok st q \<and> canonical_uuid U (q_shard_id q) \<noteq> None")
  case False
  then show ?thesis
    using assms kept_refl [OF assms(1), of "{}"]
    by (auto simp: node_app_def delete_shard_endpoint_def bnd_apply require_node_token_iff valid_shard_id_def
        validate_canonical http_exception_def io_simps error_answer_def split: option.splits if_splits)
next
  case True
  then obtain u where u: "token_ok st q" "canonical_uuid U (q_shard_id q) = Some u" by auto
  obtain r where r: "delete_shard (uuid_str u) d = (r, d')"
    "ans = (case r of Inl e \<Rightarrow> error_answer (StoreError e)
       | Inr b \<Rightarrow> Some \<lparr>p_status = (if b then 204 else 404), p_corrupt = False, p_checksum = None,
                         p_content = NoContent\<rparr>)"
    using delete_run [OF assms(2) u, of d] assms(3) by (auto split: prod.splits sum.splits)
  note k = delete_shard_kept [OF assms(1) uuid_not_temp r(1)]
  show ?thesis
  proof (cases r)
    case (Inl e)
    then show ?thesis using r u k(1) by (cases e) (auto simp: error_answer_def)
  next
    case (Inr b)
    then show ?thesis using r u k by (cases b) auto
  qed
qed

text \<open>
  What an answer to a DELETE means, on any disk and with any failing system call: at most the named
  shard is gone; an answer 204 means that it is gone from the medium for good, and an answer 404
  that there was none and that nothing has changed.
\<close>
theorem delete_answer:
  assumes "disk_ok d" and "q_method q = DELETE" and "node_app U st q d = (ans, d')"
  shows "(kept d {} d' \<or> (\<exists>u. token_ok st q \<and> canonical_uuid U (q_shard_id q) = Some u \<and> gone d (uuid_str u) d')) \<and>
    (\<forall>p. ans = Some p \<and> p_status p = 204 \<longrightarrow>
       (\<exists>u. canonical_uuid U (q_shard_id q) = Some u \<and> gone d (uuid_str u) d' \<and> outs d' (uuid_str u) = {None})) \<and>
    (\<forall>p. ans = Some p \<and> p_status p = 404 \<longrightarrow>
       (\<exists>u. canonical_uuid U (q_shard_id q) = Some u \<and> kept d {} d' \<and> stored d (uuid_str u) = None))"
  by (rule delete_answer_facts [OF assms])

definition example_delete :: node_req where
  "example_delete = example_put\<lparr>q_method := DELETE, q_body := []\<rparr>"

theorem delete_answer_witness:
  "kept empty_disk {} (snd (node_app ascii_ucd example_node example_delete empty_disk)) \<or>
   (\<exists>u. gone empty_disk (uuid_str u) (snd (node_app ascii_ucd example_node example_delete empty_disk)))"
proof -
  have "q_method example_delete = DELETE" by (simp add: example_delete_def)
  from delete_answer [OF calm_disk_ok [OF calm_empty] this prod.collapse [symmetric], of ascii_ucd example_node]
  show ?thesis by blast
qed



end
