(* ===== verification/World.thy ===== *)
theory World
  imports Database NodeApi Erasure Config "HOL-Library.Multiset"
begin

text \<open>
  The state the API service and the worker run on: the database as committed (\<open>w_db\<close>) and as the open
  session sees it (\<open>w_tx\<close>), the fleet of storage nodes by address, the clock in microseconds, and what
  the environment decides: the outcome of each node request (by its number and address) and of each database
  round trip, the values \<open>uuid4\<close> draws and the permutations \<open>random\<close> picks. A session starts from the
  committed rows and loses what it did not commit, also when an exception leaves it
  (\<open>db/session.py\<close>). Other sessions do not interleave with an open one in this model; requests and jobs
  follow each other in any order. Requests sent together (\<open>asyncio.gather\<close>) are served one after the
  other, in the order of the list.
\<close>

datatype exn =
    NodeError | ShardMissingError | ShardCorruptError
  | TransportBug
  | InsufficientNodesError | UploadFailedError | FileUnavailableError | FileCorruptedError
  | ErasureFailed erasure_error
  | LinkFailed
  | HTTPException nat "(pystr \<times> pystr) list"
  | IntegrityError | OperationalError
  | ValueErrorRaised
  | InvalidRequestError

text \<open>The subclasses of the node client's \<open>NodeError\<close>.\<close>

definition is_NodeError :: "exn \<Rightarrow> bool" where
  "is_NodeError e \<longleftrightarrow> e \<in> {NodeError, ShardMissingError, ShardCorruptError}"

text \<open>\<open>NotDelivered\<close>: an \<open>httpx\<close> error before the node saw the request; \<open>ReplyLost\<close>: the node served it and
  the client got an \<open>httpx\<close> error (a time-out, a reset); \<open>ClientBug\<close>: an exception outside \<open>httpx\<close>'s
  hierarchy. At the database: the statement fails, or a commit fails without or after taking effect.\<close>

datatype net_fault = NotDelivered | ReplyLost | ClientBug
datatype db_fault = StatementFails | CommitUnknown

record node =
  nd_settings :: node_settings
  nd_disk :: disk
  nd_up :: bool

record world =
  w_db :: db
  w_tx :: db
  w_nodes :: "pystr \<Rightarrow> node option"
  w_now :: int
  w_sent :: nat
  w_net :: "nat \<Rightarrow> pystr \<Rightarrow> net_fault option"
  w_trips :: nat
  w_dbfault :: "nat \<Rightarrow> db_fault option"
  w_drawn :: nat
  w_uuids :: "nat \<Rightarrow> uuid"
  w_shuffled :: nat
  w_picks :: "nat \<Rightarrow> nat list"

type_synonym 'a wio = "(world, exn, 'a) io"

text \<open>What does not change while the service runs: Unicode tables, the erasure codec, the settings.\<close>

record env =
  e_ucd :: ucd
  e_zfec :: zfec
  e_settings :: settings

section \<open>Sessions\<close>

definition db_trip :: "(db \<Rightarrow> 'a \<times> db) \<Rightarrow> 'a wio" where
  "db_trip f = (\<lambda>w.
     let w' = w\<lparr>w_trips := Suc (w_trips w)\<rparr>
     in (case w_dbfault w (w_trips w) of
           Some _ \<Rightarrow> (Inl OperationalError, w')
         | None \<Rightarrow> (case f (w_tx w) of (x, tx) \<Rightarrow> (Inr x, w'\<lparr>w_tx := tx\<rparr>))))"

definition db_select :: "(db \<Rightarrow> 'a) \<Rightarrow> 'a wio" where
  "db_select f = db_trip (\<lambda>d. (f d, d))"

definition db_execute :: "(db \<Rightarrow> db) \<Rightarrow> unit wio" where
  "db_execute f = db_trip (\<lambda>d. ((), f d))"

text \<open>ORM changes are staged in the session and reach the database with the next commit.\<close>

definition db_stage :: "(db \<Rightarrow> db) \<Rightarrow> unit wio" where
  "db_stage f = modify (\<lambda>w. w\<lparr>w_tx := f (w_tx w)\<rparr>)"

definition db_commit :: "unit wio" where
  "db_commit = (\<lambda>w.
     let w' = w\<lparr>w_trips := Suc (w_trips w)\<rparr>
     in (case w_dbfault w (w_trips w) of
           Some StatementFails \<Rightarrow> (Inl OperationalError, w'\<lparr>w_tx := w_db w\<rparr>)
         | f \<Rightarrow> (if \<not> constraints_ok (w_tx w) then (Inl IntegrityError, w'\<lparr>w_tx := w_db w\<rparr>)
                 else if f = None then (Inr (), w'\<lparr>w_db := w_tx w\<rparr>)
                 else (Inl OperationalError, w'\<lparr>w_db := w_tx w\<rparr>))))"

definition with_session :: "'a wio \<Rightarrow> 'a wio" where
  "with_session m =
     (\<lambda>w. case m (w\<lparr>w_tx := w_db w\<rparr>) of (r, w') \<Rightarrow> (r, w'\<lparr>w_tx := w_db w'\<rparr>))"

section \<open>Random values\<close>

definition uuid4 :: "uuid wio" where
  "uuid4 = (\<lambda>w. (Inr (w_uuids w (w_drawn w)), w\<lparr>w_drawn := Suc (w_drawn w)\<rparr>))"

text \<open>The elements of \<open>xs\<close> in the order a list of indices picks them: each index, taken modulo the number
  of elements left, removes one. Every list of indices gives a permutation, and every permutation
  is given by one.\<close>

fun pick_order :: "nat list \<Rightarrow> 'a list \<Rightarrow> 'a list" where
  "pick_order ks [] = []"
| "pick_order [] (x # xs) = x # xs"
| "pick_order (k # ks) (x # xs) =
     (let i = k mod length (x # xs)
      in (x # xs) ! i # pick_order ks (take i (x # xs) @ drop (Suc i) (x # xs)))"

definition random_shuffle :: "'a list \<Rightarrow> 'a list wio" where
  "random_shuffle xs =
     (\<lambda>w. (Inr (pick_order (w_picks w (w_shuffled w)) xs), w\<lparr>w_shuffled := Suc (w_shuffled w)\<rparr>))"

definition random_sample :: "'a list \<Rightarrow> nat \<Rightarrow> 'a list wio" where
  "random_sample xs k = bnd (random_shuffle xs) (\<lambda>ys. ret (take k ys))"

lemma mset_pick_order: "mset (pick_order ks xs) = mset xs"
proof (induction ks xs rule: pick_order.induct)
  case (3 k ks x xs)
  let ?i = "k mod length (x # xs)"
  have "?i < length (x # xs)" by simp
  then have "mset (x # xs) = mset (take ?i (x # xs) @ (x # xs) ! ?i # drop (Suc ?i) (x # xs))"
    by (metis id_take_nth_drop)
  then show ?case using 3 [OF refl] by (simp add: Let_def)
qed simp_all

lemma set_pick_order [simp]: "set (pick_order ks xs) = set xs"
  by (rule mset_eq_setD) (rule mset_pick_order)

lemma length_pick_order [simp]: "length (pick_order ks xs) = length xs"
  by (metis mset_pick_order size_mset)

lemma distinct_pick_order: "distinct (map f (pick_order ks xs)) = distinct (map f xs)"
  by (metis mset_pick_order mset_eq_imp_distinct_iff mset_map)

section \<open>Audit\<close>

text \<open>\<open>services/audit.py\<close>: stage an audit row in the caller's transaction.\<close>

definition audit_record ::
  "audit_event_type \<Rightarrow> uuid option \<Rightarrow> uuid option \<Rightarrow> int option \<Rightarrow> pystr option \<Rightarrow> unit wio" where
  "audit_record event_type file_id actor_user_id ttl_seconds ip_address =
     bnd uuid4 (\<lambda>i.
     bnd (gets w_now) (\<lambda>now.
     db_stage (add_audit \<lparr>a_id = i, a_file_id = file_id, a_actor_user_id = actor_user_id,
       a_event_type = event_type, a_ttl_seconds = ttl_seconds, a_ip_address = ip_address,
       a_created_at = now\<rparr>)))"

section \<open>The fleet\<close>

text \<open>The file a node at an address holds for a shard id.\<close>

definition held :: "world \<Rightarrow> pystr \<Rightarrow> uuid \<Rightarrow> bytes option" where
  "held w a u = (case w_nodes w a of None \<Rightarrow> None | Some n \<Rightarrow> stored (nd_disk n) (uuid_str u))"

definition fleet_ok :: "world \<Rightarrow> bool" where
  "fleet_ok w \<longleftrightarrow> (\<forall>a n. w_nodes w a = Some n \<longrightarrow> disk_ok (nd_disk n) \<and> node_settings_ok (nd_settings n))"

text \<open>Database round trips, draws and staging leave the fleet alone.\<close>

lemma held_updates [simp]:
  "held (w\<lparr>w_trips := k\<rparr>) = held w" "held (w\<lparr>w_tx := d\<rparr>) = held w" "held (w\<lparr>w_db := d\<rparr>) = held w"
  "held (w\<lparr>w_drawn := k\<rparr>) = held w" "held (w\<lparr>w_shuffled := k\<rparr>) = held w" "held (w\<lparr>w_sent := k\<rparr>) = held w"
  by (simp_all add: held_def fun_eq_iff)

lemma fleet_ok_updates [simp]:
  "fleet_ok (w\<lparr>w_trips := k\<rparr>) = fleet_ok w" "fleet_ok (w\<lparr>w_tx := d\<rparr>) = fleet_ok w"
  "fleet_ok (w\<lparr>w_db := d\<rparr>) = fleet_ok w" "fleet_ok (w\<lparr>w_drawn := k\<rparr>) = fleet_ok w"
  "fleet_ok (w\<lparr>w_shuffled := k\<rparr>) = fleet_ok w" "fleet_ok (w\<lparr>w_sent := k\<rparr>) = fleet_ok w"
  by (simp_all add: fleet_ok_def)

section \<open>Hoare rules\<close>

text \<open>A computation that reads the open session and draws values keeps every assertion about the rows
  and the fleet; \<open>steady P\<close> says that \<open>P\<close> is one.\<close>

definition steady :: "(world \<Rightarrow> bool) \<Rightarrow> bool" where
  "steady P \<longleftrightarrow> (\<forall>w k. P w \<longrightarrow> P (w\<lparr>w_trips := k\<rparr>) \<and> P (w\<lparr>w_drawn := k\<rparr>) \<and> P (w\<lparr>w_shuffled := k\<rparr>))"

lemma steadyD:
  "steady P \<Longrightarrow> P w \<Longrightarrow> P (w\<lparr>w_trips := k\<rparr>)" "steady P \<Longrightarrow> P w \<Longrightarrow> P (w\<lparr>w_drawn := k\<rparr>)"
  "steady P \<Longrightarrow> P w \<Longrightarrow> P (w\<lparr>w_shuffled := k\<rparr>)"
  by (auto simp: steady_def)

lemma db_select_triple:
  assumes "steady P"
  shows "triple P (db_select f) (\<lambda>x w. P w \<and> x = f (w_tx w)) (\<lambda>e w. P w \<and> e = OperationalError)"
  using steadyD(1) [OF assms]
  by (auto simp: triple_def db_select_def db_trip_def Let_def split: option.split)

lemma uuid4_triple: "steady P \<Longrightarrow> triple P uuid4 (\<lambda>_. P) E"
  by (simp add: triple_def uuid4_def steadyD)

lemma gets_triple: "triple P (gets f) (\<lambda>x w. P w \<and> x = f w) E"
  by (simp add: triple_def gets_def)

lemma random_shuffle_triple:
  "steady P \<Longrightarrow> triple P (random_shuffle xs) (\<lambda>ys w. P w \<and> mset ys = mset xs) E"
  by (simp add: triple_def random_shuffle_def steadyD mset_pick_order)

lemma random_sample_triple:
  "steady P \<Longrightarrow> triple P (random_sample xs k) (\<lambda>p w. P w \<and> (\<exists>ys. mset ys = mset xs \<and> p = take k ys)) E"
  unfolding random_sample_def
  by (rule triple_bnd [OF random_shuffle_triple]) (auto intro: triple_ret)

lemma db_stage_triple:
  "(\<And>w. P w \<Longrightarrow> Q (w\<lparr>w_tx := f (w_tx w)\<rparr>)) \<Longrightarrow> triple P (db_stage f) (\<lambda>_. Q) E"
  by (simp add: triple_def db_stage_def modify_def)

lemma db_execute_triple:
  assumes "\<And>w k. P w \<Longrightarrow> Q (w\<lparr>w_trips := k, w_tx := f (w_tx w)\<rparr>)" and "\<And>w k. P w \<Longrightarrow> E OperationalError (w\<lparr>w_trips := k\<rparr>)"
  shows "triple P (db_execute f) (\<lambda>_. Q) E"
  using assms by (auto simp: triple_def db_execute_def db_trip_def Let_def split: option.split)

lemma db_commit_triple:
  assumes "\<And>w k. P w \<Longrightarrow> constraints_ok (w_tx w) \<Longrightarrow> Q (w\<lparr>w_trips := k, w_db := w_tx w\<rparr>)"
    and "\<And>w k. P w \<Longrightarrow> constraints_ok (w_tx w) \<Longrightarrow> E OperationalError (w\<lparr>w_trips := k, w_db := w_tx w\<rparr>)"
    and "\<And>w k. P w \<Longrightarrow> E OperationalError (w\<lparr>w_trips := k, w_tx := w_db w\<rparr>)"
    and "\<And>w k. P w \<Longrightarrow> E IntegrityError (w\<lparr>w_trips := k, w_tx := w_db w\<rparr>)"
  shows "triple P db_commit (\<lambda>_. Q) E"
  using assms by (auto simp: triple_def db_commit_def Let_def split: option.split db_fault.split)

lemma with_session_run:
  assumes "with_session m w = (r, w')"
  obtains v where "m (w\<lparr>w_tx := w_db w\<rparr>) = (r, v)" "w' = v\<lparr>w_tx := w_db v\<rparr>"
  using assms by (auto simp: with_session_def split: prod.splits)

lemma keeps_session:
  assumes "keeps I m" and "\<And>w d. I (w\<lparr>w_tx := d\<rparr>) = I w"
  shows "keeps I (with_session m)"
  using assms by (auto simp: keeps_def with_session_def split: prod.split) (metis snd_conv)

end
