(* ===== verification/NodeClient.thy ===== *)
theory NodeClient
  imports World
begin

text \<open>
  \<open>services/node_client.py\<close>: the HTTP client of the storage fleet, over the node application of
  \<open>NodeApi\<close> and a network that may fail before a node serves a request or after. The laws the file
  services rely on are the locale \<open>shard_fleet\<close>; its interpretation shows that this client and
  these nodes provide them.
\<close>

definition node_token :: "env \<Rightarrow> pystr" where
  "node_token E = settings.node_token (e_settings E)"

text \<open>\<open>_request\<close>: an \<open>httpx\<close> error becomes \<open>NodeError\<close>.\<close>

definition node_request :: "env \<Rightarrow> pystr \<Rightarrow> node_req \<Rightarrow> node_resp wio" where
  "node_request E address q = (\<lambda>w.
     let w' = w\<lparr>w_sent := Suc (w_sent w)\<rparr>; fault = w_net w (w_sent w) address
     in if fault = Some NotDelivered then (Inl NodeError, w')
        else if fault = Some ClientBug then (Inl TransportBug, w')
        else (case w_nodes w address of
                None \<Rightarrow> (Inl NodeError, w')
              | Some n \<Rightarrow>
                  if \<not> nd_up n then (Inl NodeError, w')
                  else (case node_app (e_ucd E) (nd_settings n) q (nd_disk n) of
                          (ans, d) \<Rightarrow>
                            (let w'' = w'\<lparr>w_nodes := (w_nodes w)(address \<mapsto> n\<lparr>nd_disk := d, nd_up := (ans \<noteq> None)\<rparr>)\<rparr>
                             in (case ans of
                                   None \<Rightarrow> (Inl NodeError, w'')
                                 | Some p \<Rightarrow> (if fault = Some ReplyLost then (Inl NodeError, w'')
                                              else (Inr p, w'')))))))"

definition put_req :: "env \<Rightarrow> uuid \<Rightarrow> bytes \<Rightarrow> node_req" where
  "put_req E shard_id data =
     \<lparr>q_method = PUT, q_shard_id = uuid_str shard_id, q_token = Some (node_token E),
      q_checksum = Some (sha256_hex data), q_length = Some (dec_nat (length data)), q_body = [data]\<rparr>"

definition plain_req :: "env \<Rightarrow> http_method \<Rightarrow> uuid \<Rightarrow> node_req" where
  "plain_req E m shard_id =
     \<lparr>q_method = m, q_shard_id = uuid_str shard_id, q_token = Some (node_token E),
      q_checksum = None, q_length = None, q_body = []\<rparr>"

fun content_bytes :: "node_content \<Rightarrow> bytes" where
  "content_bytes (Raw b) = b"
| "content_bytes _ = []"

definition client_put :: "env \<Rightarrow> pystr \<Rightarrow> uuid \<Rightarrow> bytes \<Rightarrow> unit wio" where
  "client_put E address shard_id data =
     bnd (node_request E address (put_req E shard_id data)) (\<lambda>response.
     if p_status response \<noteq> 201 then raise NodeError else ret ())"

definition client_get :: "env \<Rightarrow> pystr \<Rightarrow> uuid \<Rightarrow> bytes wio" where
  "client_get E address shard_id =
     bnd (node_request E address (plain_req E GET shard_id)) (\<lambda>response.
     if p_status response = 404 then raise ShardMissingError
     else if p_corrupt response then raise ShardCorruptError
     else if p_status response \<noteq> 200 then raise NodeError
     else ret (content_bytes (p_content response)))"

definition client_delete :: "env \<Rightarrow> pystr \<Rightarrow> uuid \<Rightarrow> unit wio" where
  "client_delete E address shard_id =
     bnd (node_request E address (plain_req E DELETE shard_id)) (\<lambda>response.
     if p_status response \<noteq> 204 \<and> p_status response \<noteq> 404 then raise NodeError else ret ())"

text \<open>\<open>is_healthy\<close>: \<open>GET /healthz\<close>, answered by a node that is up without touching its disk.\<close>

definition node_probe :: "pystr \<Rightarrow> node_resp wio" where
  "node_probe address = (\<lambda>w.
     let w' = w\<lparr>w_sent := Suc (w_sent w)\<rparr>
     in (case w_net w (w_sent w) address of
           Some ClientBug \<Rightarrow> (Inl TransportBug, w')
         | Some _ \<Rightarrow> (Inl NodeError, w')
         | None \<Rightarrow> (case w_nodes w address of
                      None \<Rightarrow> (Inl NodeError, w')
                    | Some n \<Rightarrow> if nd_up n then (Inr healthz, w') else (Inl NodeError, w'))))"

definition is_healthy :: "pystr \<Rightarrow> bool wio" where
  "is_healthy address =
     catching (bnd (node_probe address) (\<lambda>response. ret (p_status response = 200)))
       (\<lambda>e. if is_NodeError e then ret False else raise e)"

section \<open>The interface of the fleet\<close>

text \<open>A fleet of write-once shard maps. \<open>put\<close> may fail after storing the shard and \<open>del\<close> after removing
  it; what returns is certain. \<open>ready\<close> addresses answer truthfully; \<open>rest\<close> is all other state.\<close>

locale shard_fleet =
  fixes inv :: "'w \<Rightarrow> bool" and view :: "'w \<Rightarrow> pystr \<Rightarrow> uuid \<Rightarrow> bytes option" and rest :: "'w \<Rightarrow> 'r"
    and ready :: "'w \<Rightarrow> pystr \<Rightarrow> bool" and fits :: "'w \<Rightarrow> pystr \<Rightarrow> bytes \<Rightarrow> bool"
    and put :: "pystr \<Rightarrow> uuid \<Rightarrow> bytes \<Rightarrow> ('w, exn, unit) io"
    and get :: "pystr \<Rightarrow> uuid \<Rightarrow> ('w, exn, bytes) io"
    and del :: "pystr \<Rightarrow> uuid \<Rightarrow> ('w, exn, unit) io"
  assumes put_law: "inv w \<Longrightarrow> put a u x w = (r, w') \<Longrightarrow>
      inv w' \<and> rest w' = rest w \<and> (\<forall>b v. (b, v) \<noteq> (a, u) \<longrightarrow> view w' b v = view w b v) \<and>
      (view w' a u = view w a u \<or> view w a u = None \<and> view w' a u = Some (shard_file x)) \<and>
      (r = Inr () \<longrightarrow> view w a u = None \<and> view w' a u = Some (shard_file x))"
    and get_law: "inv w \<Longrightarrow> get a u w = (y, w') \<Longrightarrow>
      inv w' \<and> rest w' = rest w \<and> view w' = view w \<and>
      (\<forall>x. y = Inr x \<longrightarrow> view w a u = Some (shard_file x)) \<and>
      (y = Inl ShardMissingError \<longrightarrow> view w a u = None)"
    and del_law: "inv w \<Longrightarrow> del a u w = (r, w') \<Longrightarrow>
      inv w' \<and> rest w' = rest w \<and> (\<forall>b v. (b, v) \<noteq> (a, u) \<longrightarrow> view w' b v = view w b v) \<and>
      (view w' a u = view w a u \<or> view w' a u = None) \<and> (r = Inr () \<longrightarrow> view w' a u = None)"
    and ready_law: "inv w \<Longrightarrow> ready w b \<Longrightarrow>
      ready (snd (put a u x w)) b \<and> ready (snd (get a u w)) b \<and> ready (snd (del a u w)) b"
    and fits_law: "fits (snd (put a u x w)) b z = fits w b z"
    and put_ready: "inv w \<Longrightarrow> ready w a \<Longrightarrow> fits w a x \<Longrightarrow> view w a u = None \<Longrightarrow> fst (put a u x w) = Inr ()"
    and get_ready: "inv w \<Longrightarrow> ready w a \<Longrightarrow> view w a u = Some (shard_file x) \<Longrightarrow> fst (get a u w) = Inr x"
    and del_ready: "inv w \<Longrightarrow> ready w a \<Longrightarrow> fst (del a u w) = Inr ()"
begin

definition put_effect :: "'w \<Rightarrow> 'w \<Rightarrow> pystr \<Rightarrow> uuid \<Rightarrow> bytes \<Rightarrow> exn + unit \<Rightarrow> bool" where
  "put_effect w w' a u x r \<longleftrightarrow>
     (view w' a u = view w a u \<or> view w a u = None \<and> view w' a u = Some (shard_file x)) \<and>
     (r = Inr () \<longrightarrow> view w a u = None \<and> view w' a u = Some (shard_file x))"

definition del_effect :: "'w \<Rightarrow> 'w \<Rightarrow> pystr \<Rightarrow> uuid \<Rightarrow> exn + unit \<Rightarrow> bool" where
  "del_effect w w' a u r \<longleftrightarrow>
     (view w' a u = view w a u \<or> view w' a u = None) \<and> (r = Inr () \<longrightarrow> view w' a u = None)"

text \<open>Requests sent together, to different shards.\<close>

lemma put_all:
  assumes "inv w" and "distinct (map (\<lambda>p. (A p, U p)) ps)" and "gather (\<lambda>p. put (A p) (U p) (X p)) ps w = (Inr rs, w')"
  shows "inv w' \<and> rest w' = rest w \<and> length rs = length ps \<and>
    (\<forall>b v. (b, v) \<notin> (\<lambda>p. (A p, U p)) ` set ps \<longrightarrow> view w' b v = view w b v) \<and>
    (\<forall>(p, r) \<in> set (zip ps rs). put_effect w w' (A p) (U p) (X p) r)"
  using assms
proof (induction ps arbitrary: w rs)
  case Nil
  then show ?case by simp
next
  case (Cons p ps)
  obtain r w1 where put: "put (A p) (U p) (X p) w = (r, w1)" by fastforce
  obtain rs' where rs: "rs = r # rs'" "gather (\<lambda>p. put (A p) (U p) (X p)) ps w1 = (Inr rs', w')"
    using Cons.prems(3) put by (auto simp: gather_Cons bnd_Inr attempt_apply)
  note l = put_law [OF Cons.prems(1) put]
  have d: "distinct (map (\<lambda>p. (A p, U p)) ps)" and new: "(A p, U p) \<notin> (\<lambda>p. (A p, U p)) ` set ps"
    using Cons.prems(2) by auto
  note I = Cons.IH [OF conjunct1 [OF l] d rs(2)]
  have IH: "inv w'" "rest w' = rest w1" "length rs' = length ps"
    using I by simp_all
  have outside: "view w' b v = view w1 b v" if "(b, v) \<notin> (\<lambda>p. (A p, U p)) ` set ps" for b v
    using I that by (elim conjE allE [of _ b] allE [of _ v]) (erule mp)
  have inside: "put_effect w1 w' (A q) (U q) (X q) s" if "(q, s) \<in> set (zip ps rs')" for q s
    using I that by (elim conjE) (drule (1) bspec, simp only: prod.case)
  have other: "view w1 (A q) (U q) = view w (A q) (U q)" if "q \<in> set ps" for q
  proof -
    have "(A q, U q) \<noteq> (A p, U p)" using new imageI [OF that, of "\<lambda>p. (A p, U p)"] by metis
    then show ?thesis using l by blast
  qed
  show ?case
  proof (intro conjI allI impI ballI)
    fix b v
    assume "(b, v) \<notin> (\<lambda>p. (A p, U p)) ` set (p # ps)"
    then show "view w' b v = view w b v" using outside [of b v] l by auto
  next
    fix qr
    assume "qr \<in> set (zip (p # ps) rs)"
    then consider "qr = (p, r)" | "qr \<in> set (zip ps rs')" by (auto simp: rs(1))
    then show "case qr of (q, r) \<Rightarrow> put_effect w w' (A q) (U q) (X q) r"
    proof cases
      case 1
      then show ?thesis using l outside [OF new] by (simp add: put_effect_def)
    next
      case 2
      then obtain q s where q: "qr = (q, s)" "q \<in> set ps" by (metis set_zip_leftD prod.exhaust)
      then show ?thesis using inside [of q s] 2 other [of q] by (simp add: put_effect_def)
    qed
  qed (use l IH rs(1) in simp_all)
qed

lemma del_all:
  assumes "inv w" and "distinct (map (\<lambda>p. (A p, U p)) ps)" and "gather (\<lambda>p. del (A p) (U p)) ps w = (Inr rs, w')"
  shows "inv w' \<and> rest w' = rest w \<and> length rs = length ps \<and>
    (\<forall>b v. (b, v) \<notin> (\<lambda>p. (A p, U p)) ` set ps \<longrightarrow> view w' b v = view w b v) \<and>
    (\<forall>(p, r) \<in> set (zip ps rs). del_effect w w' (A p) (U p) r)"
  using assms
proof (induction ps arbitrary: w rs)
  case Nil
  then show ?case by simp
next
  case (Cons p ps)
  obtain r w1 where del: "del (A p) (U p) w = (r, w1)" by fastforce
  obtain rs' where rs: "rs = r # rs'" "gather (\<lambda>p. del (A p) (U p)) ps w1 = (Inr rs', w')"
    using Cons.prems(3) del by (auto simp: gather_Cons bnd_Inr attempt_apply)
  note l = del_law [OF Cons.prems(1) del]
  have d: "distinct (map (\<lambda>p. (A p, U p)) ps)" and new: "(A p, U p) \<notin> (\<lambda>p. (A p, U p)) ` set ps"
    using Cons.prems(2) by auto
  note I = Cons.IH [OF conjunct1 [OF l] d rs(2)]
  have IH: "inv w'" "rest w' = rest w1" "length rs' = length ps"
    using I by simp_all
  have outside: "view w' b v = view w1 b v" if "(b, v) \<notin> (\<lambda>p. (A p, U p)) ` set ps" for b v
    using I that by (elim conjE allE [of _ b] allE [of _ v]) (erule mp)
  have inside: "del_effect w1 w' (A q) (U q) s" if "(q, s) \<in> set (zip ps rs')" for q s
    using I that by (elim conjE) (drule (1) bspec, simp only: prod.case)
  have other: "view w1 (A q) (U q) = view w (A q) (U q)" if "q \<in> set ps" for q
  proof -
    have "(A q, U q) \<noteq> (A p, U p)" using new imageI [OF that, of "\<lambda>p. (A p, U p)"] by metis
    then show ?thesis using l by blast
  qed
  show ?case
  proof (intro conjI allI impI ballI)
    fix b v
    assume "(b, v) \<notin> (\<lambda>p. (A p, U p)) ` set (p # ps)"
    then show "view w' b v = view w b v" using outside [of b v] l by auto
  next
    fix qr
    assume "qr \<in> set (zip (p # ps) rs)"
    then consider "qr = (p, r)" | "qr \<in> set (zip ps rs')" by (auto simp: rs(1))
    then show "case qr of (q, r) \<Rightarrow> del_effect w w' (A q) (U q) r"
    proof cases
      case 1
      then show ?thesis using l outside [OF new] by (simp add: del_effect_def)
    next
      case 2
      then obtain q s where q: "qr = (q, s)" "q \<in> set ps" by (metis set_zip_leftD prod.exhaust)
      then show ?thesis using inside [of q s] 2 other [of q] by (simp add: del_effect_def)
    qed
  qed (use l IH rs(1) in simp_all)
qed

definition get_effect :: "'w \<Rightarrow> pystr \<Rightarrow> uuid \<Rightarrow> exn + bytes \<Rightarrow> bool" where
  "get_effect w a u y \<longleftrightarrow>
     (\<forall>x. y = Inr x \<longrightarrow> view w a u = Some (shard_file x)) \<and>
     (y = Inl ShardMissingError \<longrightarrow> view w a u = None) \<and>
     (\<forall>x. ready w a \<and> view w a u = Some (shard_file x) \<longrightarrow> y = Inr x)"

lemma get_all:
  assumes "inv w" and "gather (\<lambda>p. get (A p) (U p)) ps w = (Inr rs, w')"
  shows "inv w' \<and> rest w' = rest w \<and> view w' = view w \<and> length rs = length ps \<and>
    (\<forall>b. ready w b \<longrightarrow> ready w' b) \<and>
    (\<forall>(p, y) \<in> set (zip ps rs). get_effect w (A p) (U p) y)"
  using assms
proof (induction ps arbitrary: w rs)
  case Nil
  then show ?case by simp
next
  case (Cons p ps)
  obtain y w1 where get: "get (A p) (U p) w = (y, w1)" by fastforce
  obtain rs' where rs: "rs = y # rs'" "gather (\<lambda>p. get (A p) (U p)) ps w1 = (Inr rs', w')"
    using Cons.prems(2) get by (auto simp: gather_Cons bnd_Inr attempt_apply)
  note l = get_law [OF Cons.prems(1) get]
  have r: "ready w b \<Longrightarrow> ready w1 b" for b
    using ready_law [OF Cons.prems(1), of b] get by (metis snd_conv)
  have first: "get_effect w (A p) (U p) y"
    using l get_ready [OF Cons.prems(1), of "A p" "U p"] get by (auto simp: get_effect_def)
  have same: "view w1 = view w" using l by simp
  have mono: "get_effect w1 a u z \<Longrightarrow> get_effect w a u z" for a u z
    unfolding get_effect_def same using r by blast
  have I: "inv w'" "rest w' = rest w1" "view w' = view w1" "length rs' = length ps"
      "\<And>b. ready w1 b \<Longrightarrow> ready w' b" "\<And>z. z \<in> set (zip ps rs') \<Longrightarrow> case z of (p, y) \<Rightarrow> get_effect w1 (A p) (U p) y"
    using Cons.IH [OF conjunct1 [OF l] rs(2)] by simp_all
  have "case z of (p, y) \<Rightarrow> get_effect w (A p) (U p) y" if "z \<in> set (zip (p # ps) rs)" for z
    using that first I(6) [of z] mono by (auto simp: rs(1))
  then show ?case using I l same r rs(1) by simp
qed

lemma put_all_ready:
  assumes "inv w" and "distinct (map (\<lambda>p. (A p, U p)) ps)"
    and "\<And>p. p \<in> set ps \<Longrightarrow> ready w (A p) \<and> fits w (A p) (X p) \<and> view w (A p) (U p) = None"
  shows "fst (gather (\<lambda>p. put (A p) (U p) (X p)) ps w) = Inr (replicate (length ps) (Inr ()))"
  using assms
proof (induction ps arbitrary: w)
  case Nil
  then show ?case by (simp add: io_simps)
next
  case (Cons p ps)
  obtain r w1 where put: "put (A p) (U p) (X p) w = (r, w1)" by fastforce
  note l = put_law [OF Cons.prems(1) put]
  have r: "r = Inr ()" using put_ready [OF Cons.prems(1), of "A p" "X p" "U p"] Cons.prems(3) [of p] put by simp
  have d: "distinct (map (\<lambda>p. (A p, U p)) ps)" and new: "(A p, U p) \<notin> (\<lambda>p. (A p, U p)) ` set ps"
    using Cons.prems(2) by auto
  have "ready w1 (A q) \<and> fits w1 (A q) (X q) \<and> view w1 (A q) (U q) = None" if q: "q \<in> set ps" for q
  proof -
    have "(A q, U q) \<noteq> (A p, U p)" using new imageI [OF q, of "\<lambda>p. (A p, U p)"] by metis
    with l have "view w1 (A q) (U q) = view w (A q) (U q)" by blast
    moreover have "ready w1 (A q)" "fits w1 (A q) (X q) = fits w (A q) (X q)"
      using ready_law [OF Cons.prems(1), of "A q" "A p" "U p" "X p"] Cons.prems(3) [of q] q
        fits_law [of "A p" "U p" "X p" w] put by simp_all
    ultimately show ?thesis using Cons.prems(3) [of q] q by simp
  qed
  then have "fst (gather (\<lambda>p. put (A p) (U p) (X p)) ps w1) = Inr (replicate (length ps) (Inr ()))"
    using Cons.IH [OF conjunct1 [OF l] d] by blast
  then show ?case
    using put r by (cases "gather (\<lambda>p. put (A p) (U p) (X p)) ps w1") (simp add: gather_Cons io_simps)
qed

end

section \<open>The client and the nodes provide it\<close>

definition rest_of :: "world \<Rightarrow> world" where
  "rest_of w = w\<lparr>w_nodes := (\<lambda>_. None), w_sent := 0\<rparr>"

definition node_ready :: "env \<Rightarrow> world \<Rightarrow> pystr \<Rightarrow> bool" where
  "node_ready E w a \<longleftrightarrow> (\<forall>i. w_net w i a = None) \<and> is_ascii (node_token E) \<and>
     (\<exists>n. w_nodes w a = Some n \<and> nd_up n \<and> calm (nd_disk n) \<and> ns_token (nd_settings n) = node_token E)"

definition node_fits :: "world \<Rightarrow> pystr \<Rightarrow> bytes \<Rightarrow> bool" where
  "node_fits w a x \<longleftrightarrow> x \<noteq> [] \<and> length (dec_nat (length x)) \<le> 4300 \<and>
     (\<forall>n. w_nodes w a = Some n \<longrightarrow> int (length x) \<le> ns_max_shard_bytes (nd_settings n))"

lemma node_request_cases:
  assumes "node_request E a q w = (r, w')"
  obtains (unserved) "w' = w\<lparr>w_sent := Suc (w_sent w)\<rparr>" "r = Inl NodeError \<or> r = Inl TransportBug"
    | (served) n ans d where "w_nodes w a = Some n" "nd_up n"
       "node_app (e_ucd E) (nd_settings n) q (nd_disk n) = (ans, d)"
       "w' = w\<lparr>w_sent := Suc (w_sent w), w_nodes := (w_nodes w)(a \<mapsto> n\<lparr>nd_disk := d, nd_up := (ans \<noteq> None)\<rparr>)\<rparr>"
       "r = Inl NodeError \<or> (\<exists>p. ans = Some p \<and> r = Inr p)"
  using assms
  by (auto simp: node_request_def Let_def split: option.splits prod.splits if_splits)

lemma rest_of_update [simp]:
  "rest_of (w\<lparr>w_sent := k\<rparr>) = rest_of w" "rest_of (w\<lparr>w_sent := k, w_nodes := f\<rparr>) = rest_of w"
  by (simp_all add: rest_of_def)

text \<open>A request served by a node changes what this node holds, as the node's answer says.\<close>

lemma served_view:
  assumes "fleet_ok w" and "w_nodes w a = Some n"
    and "w' = w\<lparr>w_sent := k, w_nodes := (w_nodes w)(a \<mapsto> n\<lparr>nd_disk := d, nd_up := b\<rparr>)\<rparr>" and "disk_ok d"
  shows "fleet_ok w'" and "held w' a' u = (if a' = a then stored d (uuid_str u) else held w a' u)"
  using assms by (auto simp: fleet_ok_def held_def)

lemma put_req_body [simp]: "body_of (put_req E u x) = x" "q_method (put_req E u x) = PUT"
  "q_shard_id (put_req E u x) = uuid_str u"
  by (simp_all add: put_req_def)

lemma kept_uuid: "kept d0 {} d \<Longrightarrow> disk_ok d \<and> (\<forall>v. stored d (uuid_str v) = stored d0 (uuid_str v))"
  by (simp add: kept_def)

lemma wrote_uuid: "wrote d0 (uuid_str u) raw d \<Longrightarrow>
    disk_ok d \<and> (\<forall>v. v \<noteq> u \<longrightarrow> stored d (uuid_str v) = stored d0 (uuid_str v)) \<and>
    stored d0 (uuid_str u) = None \<and> stored d (uuid_str u) = Some raw"
  by (simp add: wrote_def kept_def)

lemma gone_uuid: "gone d0 (uuid_str u) d \<Longrightarrow>
    disk_ok d \<and> (\<forall>v. v \<noteq> u \<longrightarrow> stored d (uuid_str v) = stored d0 (uuid_str v)) \<and> stored d (uuid_str u) = None"
  by (simp add: gone_def kept_def) (simp add: stored_def)

lemma client_put_law:
  assumes w: "fleet_ok w" and put: "client_put E a u x w = (r, w')"
  shows "fleet_ok w' \<and> rest_of w' = rest_of w \<and> (\<forall>b v. (b, v) \<noteq> (a, u) \<longrightarrow> held w' b v = held w b v) \<and>
      (held w' a u = held w a u \<or> held w a u = None \<and> held w' a u = Some (shard_file x)) \<and>
      (r = Inr () \<longrightarrow> held w a u = None \<and> held w' a u = Some (shard_file x))"
proof -
  obtain s where s: "node_request E a (put_req E u x) w = (s, w')"
    "r = (case s of Inl e \<Rightarrow> Inl e | Inr p \<Rightarrow> if p_status p \<noteq> 201 then Inl NodeError else Inr ())"
    using put by (auto simp: client_put_def bnd_apply io_simps split: prod.splits sum.splits if_splits)
  from s(1) show ?thesis
  proof (cases rule: node_request_cases)
    case unserved
    then show ?thesis using w s(2) by auto
  next
    case (served n ans d)
    note n = served(1) and app = served(3) and w' = served(4) and r = served(5)
    have ok: "disk_ok (nd_disk n)" "node_settings_ok (nd_settings n)" using w n by (auto simp: fleet_ok_def)
    note f = put_answer_facts [OF ok(2,1) put_req_body(2) app]
    have id: "put_ok (e_ucd E) (nd_settings n) (put_req E u x) v \<Longrightarrow> v = u" for v
      by (simp add: put_ok_def)
    have "kept (nd_disk n) {} d \<or> wrote (nd_disk n) (uuid_str u) (shard_file x) d"
      using f id by auto
    then have d: "disk_ok d \<and> (\<forall>v. v \<noteq> u \<longrightarrow> stored d (uuid_str v) = stored (nd_disk n) (uuid_str v)) \<and>
        (stored d (uuid_str u) = stored (nd_disk n) (uuid_str u) \<or>
         stored (nd_disk n) (uuid_str u) = None \<and> stored d (uuid_str u) = Some (shard_file x))"
      using kept_uuid [of "nd_disk n" d] wrote_uuid [of "nd_disk n" u _ d] by blast
    have stored_now: "stored (nd_disk n) (uuid_str u) = None \<and> stored d (uuid_str u) = Some (shard_file x)"
      if "ans = Some p" "p_status p = 201" for p
      using f id that wrote_uuid [of "nd_disk n" u _ d] by fastforce
    have h: "held w a v = stored (nd_disk n) (uuid_str v)" for v using n by (simp add: held_def)
    show ?thesis
      using served_view [OF w n w'] d stored_now r s(2) h w' by (auto split: if_splits)
  qed
qed

lemma plain_req_simps [simp]: "q_method (plain_req E m u) = m" "q_shard_id (plain_req E m u) = uuid_str u"
  by (simp_all add: plain_req_def)

lemma client_get_law:
  assumes w: "fleet_ok w" and get: "client_get E a u w = (y, w')"
  shows "fleet_ok w' \<and> rest_of w' = rest_of w \<and> held w' = held w \<and>
      (\<forall>x. y = Inr x \<longrightarrow> held w a u = Some (shard_file x)) \<and>
      (y = Inl ShardMissingError \<longrightarrow> held w a u = None)"
proof -
  obtain s where s: "node_request E a (plain_req E GET u) w = (s, w')"
    "y = (case s of Inl e \<Rightarrow> Inl e | Inr p \<Rightarrow>
        if p_status p = 404 then Inl ShardMissingError else if p_corrupt p then Inl ShardCorruptError
        else if p_status p \<noteq> 200 then Inl NodeError else Inr (content_bytes (p_content p)))"
    using get by (auto simp: client_get_def bnd_apply io_simps split: prod.splits sum.splits if_splits)
  from s(1) show ?thesis
  proof (cases rule: node_request_cases)
    case unserved
    then show ?thesis using w s(2) by auto
  next
    case (served n ans d)
    note n = served(1) and app = served(3) and w' = served(4) and r = served(5)
    have ok: "disk_ok (nd_disk n)" using w n by (auto simp: fleet_ok_def)
    note f = get_answer_facts [OF ok plain_req_simps(1) app]
    have h: "held w a v = stored (nd_disk n) (uuid_str v)" for v using n by (simp add: held_def)
    have d: "disk_ok d \<and> (\<forall>v. stored d (uuid_str v) = stored (nd_disk n) (uuid_str v))"
      using f kept_uuid by blast
    have "held w' = held w" using served_view(2) [OF w n w'] d h by (simp add: fun_eq_iff)
    moreover have "held w a u = Some (shard_file x)" if "y = Inr x" for x
      using f r s(2) that h by (auto split: if_splits)
    moreover have "held w a u = None" if "y = Inl ShardMissingError"
      using f r s(2) that h by (auto split: if_splits)
    ultimately show ?thesis using served_view(1) [OF w n w'] d w' by simp
  qed
qed

lemma client_delete_law:
  assumes w: "fleet_ok w" and del: "client_delete E a u w = (r, w')"
  shows "fleet_ok w' \<and> rest_of w' = rest_of w \<and> (\<forall>b v. (b, v) \<noteq> (a, u) \<longrightarrow> held w' b v = held w b v) \<and>
      (held w' a u = held w a u \<or> held w' a u = None) \<and> (r = Inr () \<longrightarrow> held w' a u = None)"
proof -
  obtain s where s: "node_request E a (plain_req E DELETE u) w = (s, w')"
    "r = (case s of Inl e \<Rightarrow> Inl e | Inr p \<Rightarrow>
        if p_status p \<noteq> 204 \<and> p_status p \<noteq> 404 then Inl NodeError else Inr ())"
    using del by (auto simp: client_delete_def bnd_apply io_simps split: prod.splits sum.splits if_splits)
  from s(1) show ?thesis
  proof (cases rule: node_request_cases)
    case unserved
    then show ?thesis using w s(2) by auto
  next
    case (served n ans d)
    note n = served(1) and app = served(3) and w' = served(4) and r = served(5)
    have ok: "disk_ok (nd_disk n)" using w n by (auto simp: fleet_ok_def)
    note f = delete_answer_facts [OF ok plain_req_simps(1) app]
    have h: "held w a v = stored (nd_disk n) (uuid_str v)" for v using n by (simp add: held_def)
    have "kept (nd_disk n) {} d \<or> gone (nd_disk n) (uuid_str u) d" using f by auto
    then have d: "disk_ok d \<and> (\<forall>v. v \<noteq> u \<longrightarrow> stored d (uuid_str v) = stored (nd_disk n) (uuid_str v)) \<and>
        (stored d (uuid_str u) = stored (nd_disk n) (uuid_str u) \<or> stored d (uuid_str u) = None)"
      using kept_uuid [of "nd_disk n" d] gone_uuid [of "nd_disk n" u d] by auto
    have "stored d (uuid_str u) = None" if "ans = Some p" "p_status p = 204 \<or> p_status p = 404" for p
      using f that gone_uuid [of "nd_disk n" u d] kept_uuid [of "nd_disk n" d] by auto
    then show ?thesis
      using served_view [OF w n w'] d r s(2) h w' by (auto split: if_splits)
  qed
qed

lemma calm_node_app:
  assumes "calm d" and "node_settings_ok st" and "node_app U st q d = (ans, d')"
  shows "calm d' \<and> ans \<noteq> None"
proof (cases "q_method q")
  case PUT
  then obtain r where r: "put_shard U st q d = (r, d')"
    "ans = (case r of Inl e \<Rightarrow> error_answer e | Inr p \<Rightarrow> Some p)"
    using assms(3) by (auto simp: node_app_def split: prod.splits sum.splits)
  have lim: "0 \<le> ns_max_shard_bytes st" using assms(2) by (simp add: node_settings_ok_def)
  from put_shard_cases [OF r(1) lim] show ?thesis
  proof (elim disjE exE conjE)
    fix e assume "r = Inl e" "d' = d" "e \<in> refusals"
    then show ?thesis using r(2) assms(1) by (auto simp: refusals_def error_answer_def)
  next
    fix u w
    assume "write_shard (uuid_str u) (body_of q) d = (w, d')"
      and "r = (case w of Inl e \<Rightarrow> Inl (if e = ShardExistsError then HttpError 409 False
                            else if e = StorageFullError then HttpError 507 False else StoreError e)
            | Inr h \<Rightarrow> Inr \<lparr>p_status = 201, p_corrupt = False, p_checksum = None,
                p_content = ShardInfo (uuid_str u) h (length (body_of q))\<rparr>)"
    then show ?thesis
      using calm_write [OF assms(1) uuid_not_temp, of u "body_of q"] r(2)
      by (auto simp: error_answer_def split: if_splits)
  qed
next
  case GET
  then show ?thesis
    using assms(1,3) calm_read [OF assms(1)] calm_counters [OF assms(1)]
    by (auto simp: node_app_def get_shard_def bnd_apply require_node_token_iff valid_shard_id_def
        validate_canonical http_exception_def io_simps on_disk_def error_answer_def
        split: option.splits if_splits)
next
  case DELETE
  show ?thesis
  proof (cases "\<exists>u. token_ok st q \<and> canonical_uuid U (q_shard_id q) = Some u")
    case True
    then obtain u where u: "token_ok st q" "canonical_uuid U (q_shard_id q) = Some u" by blast
    show ?thesis
      using calm_delete [OF assms(1) uuid_not_temp, of u] delete_run [OF DELETE u, of d] assms(3)
      by (auto split: prod.splits)
  next
    case False
    then show ?thesis
      using assms(1,3) DELETE
      by (auto simp: node_app_def delete_shard_endpoint_def bnd_apply require_node_token_iff
          valid_shard_id_def validate_canonical http_exception_def io_simps error_answer_def
          split: option.splits if_splits)
  qed
qed

lemma node_request_ready:
  assumes "fleet_ok w" and "node_ready E w b"
  shows "node_ready E (snd (node_request E a q w)) b"
proof -
  obtain r w' where req: "node_request E a q w = (r, w')" by fastforce
  from req have "node_ready E w' b"
  proof (cases rule: node_request_cases)
    case unserved
    then show ?thesis using assms(2) by (simp add: node_ready_def)
  next
    case (served n ans d)
    show ?thesis
    proof (cases "b = a")
      case True
      then have "calm (nd_disk n)" "node_settings_ok (nd_settings n)"
        using assms served(1) by (auto simp: node_ready_def fleet_ok_def)
      then have "calm d \<and> ans \<noteq> None" using calm_node_app served(3) by blast
      then show ?thesis using assms(2) served(1,4) True by (auto simp: node_ready_def)
    next
      case False
      then show ?thesis using assms(2) served(4) by (simp add: node_ready_def)
    qed
  qed
  then show ?thesis using req by simp
qed

lemma snd_bnd: "(\<And>p w. snd (f p w) = w) \<Longrightarrow> snd (bnd m f w) = snd (m w)"
  by (simp add: bnd_def split: prod.split sum.split)

lemma client_ready:
  assumes "fleet_ok w" and "node_ready E w b"
  shows "node_ready E (snd (client_put E a u x w)) b \<and> node_ready E (snd (client_get E a u w)) b \<and>
    node_ready E (snd (client_delete E a u w)) b"
  using node_request_ready [OF assms, of a]
  by (simp add: client_put_def client_get_def client_delete_def snd_bnd raise_apply ret_apply)

lemma ready_request:
  assumes "node_ready E w a"
  obtains n where "w_nodes w a = Some n" "calm (nd_disk n)" "ns_token (nd_settings n) = node_token E"
    "is_ascii (node_token E)"
    "\<And>q p. fst (node_app (e_ucd E) (nd_settings n) q (nd_disk n)) = Some p \<Longrightarrow> fst (node_request E a q w) = Inr p"
proof -
  obtain n where n: "w_nodes w a = Some n" "nd_up n" "calm (nd_disk n)"
    "ns_token (nd_settings n) = node_token E" "is_ascii (node_token E)" "w_net w (w_sent w) a = None"
    using assms by (auto simp: node_ready_def)
  then have "fst (node_app (e_ucd E) (nd_settings n) q (nd_disk n)) = Some p \<Longrightarrow>
      fst (node_request E a q w) = Inr p" for q p
    by (auto simp: node_request_def Let_def split: prod.split)
  then show ?thesis using n that by blast
qed

lemma int_of_dec_nat: "length (dec_nat n) \<le> 4300 \<Longrightarrow> int_of_digits (dec_nat n) = Some (int n)"
  using dec_nat_digits [of n] by (simp add: int_of_digits_def)

lemma client_put_ready:
  assumes "node_ready E w a" and "node_fits w a x" and "held w a u = None"
  shows "fst (client_put E a u x w) = Inr ()"
proof -
  from assms(1) obtain n where n: "w_nodes w a = Some n" "calm (nd_disk n)"
    "ns_token (nd_settings n) = node_token E" "is_ascii (node_token E)"
    and run: "\<And>q p. fst (node_app (e_ucd E) (nd_settings n) q (nd_disk n)) = Some p \<Longrightarrow> fst (node_request E a q w) = Inr p"
    by (rule ready_request) blast
  have ok: "put_ok (e_ucd E) (nd_settings n) (put_req E u x) u"
    "length_header_ok (nd_settings n) (put_req E u x)"
    using assms(2) n(1,3,4) int_of_dec_nat [of "length x"]
    by (auto simp: put_ok_def token_ok_def put_req_def node_fits_def length_header_ok_def)
  have "stored (nd_disk n) (uuid_str u) = None" using assms(3) n(1) by (simp add: held_def)
  from run [OF put_succeeds [OF n(2) put_req_body(2) ok this]] show ?thesis
    by (cases "node_request E a (put_req E u x) w") (simp add: client_put_def io_simps)
qed

lemma plain_token: "ns_token st = node_token E \<Longrightarrow> is_ascii (node_token E) \<Longrightarrow> token_ok st (plain_req E m u)"
  by (simp add: token_ok_def plain_req_def)

lemma client_get_ready:
  assumes "node_ready E w a" and "held w a u = Some (shard_file x)"
  shows "fst (client_get E a u w) = Inr x"
proof -
  from assms(1) obtain n where n: "w_nodes w a = Some n" "calm (nd_disk n)"
    "ns_token (nd_settings n) = node_token E" "is_ascii (node_token E)"
    and run: "\<And>q p. fst (node_app (e_ucd E) (nd_settings n) q (nd_disk n)) = Some p \<Longrightarrow> fst (node_request E a q w) = Inr p"
    by (rule ready_request) blast
  have "stored (nd_disk n) (uuid_str u) = Some (shard_file x)" using assms(2) n(1) by (simp add: held_def)
  then have "fst (node_app (e_ucd E) (nd_settings n) (plain_req E GET u) (nd_disk n))
      = Some \<lparr>p_status = 200, p_corrupt = False, p_checksum = Some (sha256_hex x), p_content = Raw x\<rparr>"
    using calm_read [OF n(2), of "uuid_str u"] plain_token [OF n(3,4)]
    by (simp add: node_app_def get_shard_def bnd_apply require_node_token_iff valid_shard_id_def
        validate_canonical io_simps on_disk_def)
  from run [OF this] show ?thesis
    by (cases "node_request E a (plain_req E GET u) w") (simp add: client_get_def io_simps)
qed

lemma client_delete_ready:
  assumes "node_ready E w a"
  shows "fst (client_delete E a u w) = Inr ()"
proof -
  from assms(1) obtain n where n: "w_nodes w a = Some n" "calm (nd_disk n)"
    "ns_token (nd_settings n) = node_token E" "is_ascii (node_token E)"
    and run: "\<And>q p. fst (node_app (e_ucd E) (nd_settings n) q (nd_disk n)) = Some p \<Longrightarrow> fst (node_request E a q w) = Inr p"
    by (rule ready_request) blast
  obtain b where b: "fst (delete_shard (uuid_str u) (nd_disk n)) = Inr b"
    using calm_delete [OF n(2) uuid_not_temp, of u] by blast
  have "fst (node_app (e_ucd E) (nd_settings n) (plain_req E DELETE u) (nd_disk n))
      = Some \<lparr>p_status = (if b then 204 else 404), p_corrupt = False, p_checksum = None, p_content = NoContent\<rparr>"
    using delete_run [OF plain_req_simps(1) plain_token [OF n(3,4)], of "e_ucd E" u u "nd_disk n"] b
    by (simp split: prod.splits)
  from run [OF this] show ?thesis
    by (cases "node_request E a (plain_req E DELETE u) w") (simp add: client_delete_def io_simps)
qed

lemma client_put_fits: "node_fits (snd (client_put E a u x w)) b z = node_fits w b z"
proof -
  obtain s w' where s: "node_request E a (put_req E u x) w = (s, w')" by fastforce
  then have "node_fits w' b z = node_fits w b z"
    by (cases rule: node_request_cases) (auto simp: node_fits_def)
  then show ?thesis using s by (simp add: client_put_def snd_bnd raise_apply ret_apply)
qed

interpretation fleet: shard_fleet fleet_ok held rest_of "node_ready E" node_fits "client_put E"
    "client_get E" "client_delete E"
  for E
  by (unfold_locales; rule client_put_law client_get_law client_delete_law client_ready client_put_fits
      client_put_ready client_get_ready client_delete_ready; assumption)

end
