(* ===== verification/Files.thy ===== *)
theory Files
  imports NodeClient "HOL-Library.Product_Lexorder"
begin

text \<open>
  \<open>services/files.py\<close>: the life of a file over the erasure-coded fleet: upload with roll-back, read,
  availability, deletion. Rows the ORM returns are row records; a change of a loaded row is staged
  in the session by its primary key.
\<close>

datatype availability_state = av_healthy | av_degraded | av_unavailable

record availability =
  av_state :: availability_state
  av_usable_shards :: nat
  av_total_shards :: nat
  av_required_shards :: nat

text \<open>\<open>asyncio.gather(..., return_exceptions=True)\<close> and \<open>isinstance(r, BaseException)\<close>.\<close>

fun is_failure :: "exn + 'a \<Rightarrow> bool" where
  "is_failure (Inl e) = True"
| "is_failure (Inr x) = False"

definition lift_erasure :: "erasure_error + 'a \<Rightarrow> 'a wio" where
  "lift_erasure r = (case r of Inl e \<Rightarrow> raise (ErasureFailed e) | Inr x \<Rightarrow> ret x)"

definition healthy_nodes :: "node_row list wio" where
  "healthy_nodes = db_select (\<lambda>d. filter (\<lambda>n. n_status n = Healthy) (nodes d))"

section \<open>Upload\<close>

definition new_file ::
  "uuid \<Rightarrow> int \<Rightarrow> uuid \<Rightarrow> pystr \<Rightarrow> pystr \<Rightarrow> bytes \<Rightarrow> pystr \<Rightarrow> nat \<Rightarrow> nat \<Rightarrow> file_row" where
  "new_file i now owner filename content_type data file_checksum k m =
     \<lparr>f_id = i, f_owner_user_id = owner, f_original_name = filename, f_content_type = content_type,
      f_size_bytes = length data, f_checksum_sha256 = file_checksum, f_data_shards = k,
      f_parity_shards = m, f_link_version = 1, f_status = Uploading, f_uploaded_at = now,
      f_deleted_at = None\<rparr>"

definition new_shard :: "uuid \<Rightarrow> int \<Rightarrow> uuid \<Rightarrow> nat \<Rightarrow> nat \<Rightarrow> node_row \<Rightarrow> bytes \<Rightarrow> shard_row" where
  "new_shard i now file_id k index n block =
     \<lparr>s_id = i, s_file_id = file_id, s_shard_index = index, s_kind = (if index < k then Data else Parity),
      s_node_id = n_id n, s_checksum_sha256 = sha256_hex block, s_size_bytes = length block,
      s_created_at = now\<rparr>"

text \<open>The list comprehension over \<open>enumerate(zip(placement, blocks, strict=True))\<close>.\<close>

definition make_shards :: "int \<Rightarrow> uuid \<Rightarrow> nat \<Rightarrow> node_row list \<Rightarrow> bytes list \<Rightarrow> shard_row list wio" where
  "make_shards now file_id k placement blocks =
     (if length placement \<noteq> length blocks then raise ValueErrorRaised
      else mapM (\<lambda>(index, n, block). bnd uuid4 (\<lambda>i. ret (new_shard i now file_id k index n block)))
             (zip [0..<length blocks] (zip placement blocks)))"

definition delete_placed :: "env \<Rightarrow> (shard_row \<times> node_row) list \<Rightarrow> (exn + unit) list wio" where
  "delete_placed E placed = gather (\<lambda>p. client_delete E (n_address (snd p)) (s_id (fst p))) placed"

definition roll_back_upload :: "env \<Rightarrow> file_row \<Rightarrow> (shard_row \<times> node_row) list \<Rightarrow> unit wio" where
  "roll_back_upload E file placed =
     bnd (delete_placed E placed) (\<lambda>results.
     if list_ex is_failure results then ret ()
     else seq (db_execute (delete_file_row (f_id file))) db_commit)"

definition put_placed :: "env \<Rightarrow> ((shard_row \<times> node_row) \<times> bytes) list \<Rightarrow> (exn + unit) list wio" where
  "put_placed E placed =
     gather (\<lambda>p. client_put E (n_address (snd (fst p))) (s_id (fst (fst p))) (snd p)) placed"

definition upload_file ::
  "env \<Rightarrow> user_row \<Rightarrow> pystr \<Rightarrow> pystr \<Rightarrow> bytes \<Rightarrow> nat \<Rightarrow> nat \<Rightarrow> pystr option \<Rightarrow> file_row wio" where
  "upload_file E owner filename content_type data k m ip_address =
     bnd (lift_erasure (encode (e_zfec E) data k m)) (\<lambda>blocks.
     let file_checksum = sha256_hex data in
     bnd healthy_nodes (\<lambda>candidates.
     if length candidates < k + m then raise InsufficientNodesError
     else
     bnd (random_sample candidates (k + m)) (\<lambda>placement.
     bnd (gets w_now) (\<lambda>now.
     bnd uuid4 (\<lambda>i.
     let file = new_file i now (u_id owner) filename content_type data file_checksum k m in
     bnd (make_shards now i k placement blocks) (\<lambda>shards.
     seq (db_stage (\<lambda>d. add_shards shards (add_file file d)))
     (seq db_commit
     (bnd (put_placed E (zip (zip shards placement) blocks)) (\<lambda>results.
     if list_ex is_failure results
     then seq (roll_back_upload E file (zip shards placement)) (raise UploadFailedError)
     else
     seq (db_stage (set_file i (\<lambda>f. f\<lparr>f_status := Available\<rparr>)))
     (seq (audit_record file_uploaded (Some i) (Some (u_id owner)) None ip_address)
     (seq db_commit
     (ret (file\<lparr>f_status := Available\<rparr>)))))))))))))"

section \<open>Reading\<close>

text \<open>Readable shards, best first: healthy nodes, then data shards.\<close>

definition candidate_key :: "shard_row \<times> node_row \<Rightarrow> bool \<times> nat" where
  "candidate_key sn = (n_status (snd sn) \<noteq> Healthy, s_shard_index (fst sn))"

definition candidates_of :: "uuid \<Rightarrow> uuid set \<Rightarrow> db \<Rightarrow> (shard_row \<times> node_row) list" where
  "candidates_of i exclude d =
     sort_key candidate_key
       (filter (\<lambda>(s, n). s_id s \<notin> exclude)
         (filter (\<lambda>(s, n). n_status n \<noteq> Decommissioned) (placed_shards i d)))"

definition shard_candidates :: "file_row \<Rightarrow> uuid set \<Rightarrow> (shard_row \<times> node_row) list wio" where
  "shard_candidates file exclude = db_select (candidates_of (f_id file) exclude)"

text \<open>One result of a batch; \<open>collected\<close> is a dictionary from shard index to block.\<close>

definition collect ::
  "(shard_row \<times> node_row) \<times> (exn + bytes) \<Rightarrow> (nat \<times> bytes) list \<Rightarrow> (nat \<times> bytes) list wio" where
  "collect r collected =
     (case r of
        ((s, n), Inl e) \<Rightarrow> if is_NodeError e then ret collected else raise e
      | ((s, n), Inr data) \<Rightarrow>
          if sha256_hex data \<noteq> s_checksum_sha256 s then ret collected
          else ret (dict_set (s_shard_index s) data collected))"

definition get_batch :: "env \<Rightarrow> (shard_row \<times> node_row) list \<Rightarrow> (exn + bytes) list wio" where
  "get_batch E batch = gather (\<lambda>p. client_get E (n_address (snd p)) (s_id (fst p))) batch"

lemma drop_shorter: "n < k \<Longrightarrow> xs \<noteq> [] \<Longrightarrow> length (drop (k - n) xs) < length xs"
  by (cases xs) auto

text \<open>The \<open>while\<close> loop: each round takes at least one of the remaining candidates.\<close>

function fetch_loop ::
  "env \<Rightarrow> nat \<Rightarrow> (nat \<times> bytes) list \<Rightarrow> (shard_row \<times> node_row) list \<Rightarrow> (nat \<times> bytes) list wio" where
  "fetch_loop E k collected remaining =
     (if length collected < k \<and> remaining \<noteq> []
      then
        (let batch = take (k - length collected) remaining
         in bnd (get_batch E batch) (\<lambda>results.
            bnd (foldM collect (zip batch results) collected) (\<lambda>collected'.
            fetch_loop E k collected' (drop (k - length collected) remaining))))
      else ret collected)"
  by pat_completeness auto
termination
  by (relation "measure (\<lambda>(E, k, collected, remaining). length remaining)") (auto simp del: length_drop intro!: drop_shorter)

declare fetch_loop.simps [simp del]

definition fetch_blocks ::
  "env \<Rightarrow> (shard_row \<times> node_row) list \<Rightarrow> nat \<Rightarrow> (nat \<times> bytes) list wio" where
  "fetch_blocks E candidates k = fetch_loop E k [] candidates"

definition read_file :: "env \<Rightarrow> file_row \<Rightarrow> bytes wio" where
  "read_file E file =
     bnd (shard_candidates file {}) (\<lambda>candidates.
     bnd (fetch_blocks E candidates (f_data_shards file)) (\<lambda>blocks.
     if length blocks < f_data_shards file then raise FileUnavailableError
     else
     bnd (lift_erasure
            (decode (e_zfec E) blocks (f_data_shards file) (f_parity_shards file) (f_size_bytes file)))
       (\<lambda>data.
     if sha256_hex data \<noteq> f_checksum_sha256 file then raise FileCorruptedError
     else ret data)))"

section \<open>Availability\<close>

definition usable_count :: "uuid \<Rightarrow> db \<Rightarrow> nat" where
  "usable_count i d = length (filter (\<lambda>(s, n). n_status n = Healthy) (placed_shards i d))"

definition availability_of :: "nat \<Rightarrow> file_row \<Rightarrow> availability" where
  "availability_of cnt file =
     (let total = f_data_shards file + f_parity_shards file
      in \<lparr>av_state = (if cnt \<ge> total then av_healthy
                     else if cnt \<ge> f_data_shards file then av_degraded
                     else av_unavailable),
          av_usable_shards = cnt, av_total_shards = total, av_required_shards = f_data_shards file\<rparr>)"

definition file_availability :: "file_row list \<Rightarrow> (uuid \<times> availability) list wio" where
  "file_availability fs =
     (if fs = [] then ret []
      else bnd (db_select (\<lambda>d i. usable_count i d)) (\<lambda>usable.
           ret (foldl (\<lambda>acc f. dict_set (f_id f) (availability_of (usable (f_id f)) f) acc) [] fs)))"

section \<open>Deletion\<close>

text \<open>One shard of \<open>remove_deleted_shards\<close>: its row goes when the node confirmed.\<close>

definition drop_confirmed :: "(shard_row \<times> node_row) \<times> (exn + unit) \<Rightarrow> nat \<Rightarrow> nat wio" where
  "drop_confirmed r removed =
     (case r of
        ((s, n), Inl e) \<Rightarrow> ret removed
      | ((s, n), Inr _) \<Rightarrow> seq (db_stage (delete_shard_row (s_id s))) (ret (removed + 1)))"

definition remove_deleted_shards :: "env \<Rightarrow> uuid \<Rightarrow> nat wio" where
  "remove_deleted_shards E file_id =
     bnd (db_select (placed_shards file_id)) (\<lambda>placed.
     bnd (delete_placed E placed) (\<lambda>results.
     bnd (foldM drop_confirmed (zip placed results) 0) (\<lambda>removed.
     seq db_commit
     (ret removed))))"

definition delete_file :: "env \<Rightarrow> file_row \<Rightarrow> user_row \<Rightarrow> pystr option \<Rightarrow> unit wio" where
  "delete_file E file actor ip_address =
     bnd (gets w_now) (\<lambda>now.
     seq (db_stage (set_file (f_id file) (\<lambda>f. f\<lparr>f_status := Deleted, f_deleted_at := Some now,
            f_link_version := f_link_version file + 1\<rparr>)))
     (seq (audit_record file_deleted (Some (f_id file)) (Some (u_id actor)) None ip_address)
     (seq db_commit
     (seq (remove_deleted_shards E (f_id file))
     (ret ())))))"

section \<open>What the rows promise\<close>

text \<open>A shard file is recorded when a row names it and the address of its node, and a recorded shard is
  good when the node holds what the row's checksum was computed from.\<close>

definition recorded :: "db \<Rightarrow> pystr \<Rightarrow> uuid \<Rightarrow> bool" where
  "recorded d a u \<longleftrightarrow>
     list_ex (\<lambda>s. s_id s = u \<and> list_ex (\<lambda>n. n_id n = s_node_id s \<and> n_address n = a) (nodes d)) (shards d)"

definition good_shard :: "world \<Rightarrow> shard_row \<times> node_row \<Rightarrow> bool" where
  "good_shard w p \<longleftrightarrow>
     (\<exists>x. held w (n_address (snd p)) (s_id (fst p)) = Some (shard_file x) \<and>
          sha256_hex x = s_checksum_sha256 (fst p))"

definition fully_stored :: "world \<Rightarrow> file_row \<Rightarrow> bool" where
  "fully_stored w f \<longleftrightarrow>
     (\<forall>j < f_data_shards f + f_parity_shards f.
        \<exists>p \<in> set (placed_shards (f_id f) (w_db w)). s_shard_index (fst p) = j \<and> good_shard w p)"

end
