(* ===== verification/Upload.thy ===== *)
theory Upload
  imports Files
begin

text \<open>
  What an upload leaves behind, however it ends: \<open>upload_plan\<close> describes the rows and the placement an
  upload decided on, and the three outcomes below are what the database and the fleet look like when
  \<open>upload_file\<close> returns or raises at any of its steps.
\<close>

section \<open>The plan of an upload\<close>

definition upload_plan ::
  "env \<Rightarrow> db \<Rightarrow> bytes \<Rightarrow> nat \<Rightarrow> nat \<Rightarrow> uuid \<Rightarrow> int \<Rightarrow> node_row list \<Rightarrow> bytes list \<Rightarrow> shard_row list \<Rightarrow> bool" where
  "upload_plan E d data k m i now placement blocks ss \<longleftrightarrow>
     encode (e_zfec E) data k m = Inr blocks \<and> length placement = k + m \<and> length blocks = k + m \<and>
     set placement \<subseteq> {n \<in> set (nodes d). n_status n = Healthy} \<and>
     distinct (map n_id placement) \<and> distinct (map n_address placement) \<and> length ss = k + m \<and>
     (\<forall>j < k + m. \<exists>u. ss ! j = new_shard u now i k j (placement ! j) (blocks ! j))"

text \<open>The rows before any byte is sent, and the rows of a finished upload.\<close>

definition db_started :: "file_row \<Rightarrow> shard_row list \<Rightarrow> db \<Rightarrow> db" where
  "db_started file ss d = add_shards ss (add_file file d)"

definition db_finished :: "file_row \<Rightarrow> shard_row list \<Rightarrow> audit_row \<Rightarrow> db \<Rightarrow> db" where
  "db_finished file ss a d =
     add_audit a (set_file (f_id file) (\<lambda>f. f\<lparr>f_status := Available\<rparr>) (db_started file ss d))"

definition placed_keys :: "shard_row list \<Rightarrow> node_row list \<Rightarrow> (pystr \<times> uuid) set" where
  "placed_keys ss placement = (\<lambda>p. (n_address (snd p), s_id (fst p))) ` set (zip ss placement)"

section \<open>The outcomes\<close>

definition base :: "world \<Rightarrow> world \<Rightarrow> bool" where
  "base w0 w \<longleftrightarrow> fleet_ok w \<and> held w = held w0 \<and> w_db w = w_db w0 \<and> w_tx w = w_db w0"

definition only_at :: "(pystr \<times> uuid) set \<Rightarrow> world \<Rightarrow> world \<Rightarrow> bool" where
  "only_at K w0 w \<longleftrightarrow> fleet_ok w \<and> (\<forall>a u. (a, u) \<notin> K \<longrightarrow> held w a u = held w0 a u)"

text \<open>No shard file under the id of an earlier shard row changed.\<close>

definition kept_ids :: "world \<Rightarrow> world \<Rightarrow> bool" where
  "kept_ids w0 w \<longleftrightarrow> (\<forall>a u. u \<in> s_id ` set (shards (w_db w0)) \<longrightarrow> held w a u = held w0 a u)"

definition undone :: "world \<Rightarrow> world \<Rightarrow> bool" where
  "undone w0 w \<longleftrightarrow> fleet_ok w \<and> w_db w = w_db w0 \<and> (\<forall>a u. held w a u = held w0 a u \<or> held w a u = None) \<and>
     kept_ids w0 w"

lemma only_at_kept:
  assumes "constraints_ok d" and "set (shards d) = set (shards (w_db w0)) \<union> set ss"
    and "distinct (map s_id (shards (w_db w0) @ ss))" and "only_at (placed_keys ss placement) w0 w"
  shows "kept_ids w0 w"
  unfolding kept_ids_def
proof (intro allI impI)
  fix a u
  assume "u \<in> s_id ` set (shards (w_db w0))"
  then have "u \<notin> s_id ` set ss" using assms(3) by auto
  then have "(a, u) \<notin> placed_keys ss placement" by (auto simp: placed_keys_def dest: set_zip_leftD)
  then show "held w a u = held w0 a u" using assms(4) by (simp add: only_at_def)
qed

lemma started_kept:
  assumes "constraints_ok (db_started file ss (w_db w0))" and "only_at (placed_keys ss placement) w0 w"
  shows "kept_ids w0 w"
  by (rule only_at_kept [OF assms(1) _ _ assms(2)])
    (use constraints_okD(2) [OF assms(1)] in \<open>auto simp: keys_unique_def db_started_def add_shards_def add_file_def\<close>)

definition unfinished :: "world \<Rightarrow> file_row \<Rightarrow> shard_row list \<Rightarrow> node_row list \<Rightarrow> world \<Rightarrow> bool" where
  "unfinished w0 file ss placement w \<longleftrightarrow>
     w_db w = db_started file ss (w_db w0) \<and> constraints_ok (w_db w) \<and>
     only_at (placed_keys ss placement) w0 w"

definition finished ::
  "world \<Rightarrow> file_row \<Rightarrow> shard_row list \<Rightarrow> node_row list \<Rightarrow> bytes list \<Rightarrow> audit_row \<Rightarrow> world \<Rightarrow> bool" where
  "finished w0 file ss placement blocks a w \<longleftrightarrow>
     w_db w = db_finished file ss a (w_db w0) \<and> constraints_ok (w_db w) \<and>
     only_at (placed_keys ss placement) w0 w \<and>
     (\<forall>j < length ss.
        held w0 (n_address (placement ! j)) (s_id (ss ! j)) = None \<and>
        held w (n_address (placement ! j)) (s_id (ss ! j)) = Some (shard_file (blocks ! j)))"

definition uploaded_row :: "audit_row \<Rightarrow> uuid \<Rightarrow> uuid \<Rightarrow> pystr option \<Rightarrow> bool" where
  "uploaded_row a i owner ip \<longleftrightarrow> a_event_type a = file_uploaded \<and> a_file_id a = Some i \<and>
     a_actor_user_id a = Some owner \<and> a_ttl_seconds a = None \<and> a_ip_address a = ip"

section \<open>Steps\<close>

lemma steady_base: "steady (base w0)"
  by (simp add: steady_def base_def)

lemma lift_erasure_triple: "triple P (lift_erasure r) (\<lambda>x w. P w \<and> r = Inr x) (\<lambda>_. P)"
  by (cases r) (simp_all add: lift_erasure_def triple_ret triple_raise)

lemma mapM_shards:
  assumes "steady P"
  shows "triple P (mapM (\<lambda>(index, n, block). bnd uuid4 (\<lambda>i. ret (new_shard i now fid k index n block))) xs)
    (\<lambda>ss w. P w \<and> list_all2 (\<lambda>(index, n, block) s. \<exists>i. s = new_shard i now fid k index n block) xs ss) E"
proof (induction xs)
  case Nil
  then show ?case by (simp add: triple_ret)
next
  case (Cons x xs)
  obtain index n block where x: "x = (index, n, block)" by (cases x) auto
  let ?R = "\<lambda>y w. P w \<and> (\<exists>i. y = new_shard i now fid k index n block)"
  have one: "triple P (bnd uuid4 (\<lambda>i. ret (new_shard i now fid k index n block))) ?R E"
    by (rule triple_bnd [OF uuid4_triple [OF assms]]) (auto intro: triple_ret)
  have two: "triple (?R y) (mapM (\<lambda>(index, n, block). bnd uuid4 (\<lambda>i. ret (new_shard i now fid k index n block))) xs)
      (\<lambda>ss w. ?R y w \<and> list_all2 (\<lambda>(index, n, block) s. \<exists>i. s = new_shard i now fid k index n block) xs ss) E" for y
    using Cons by (fastforce simp: triple_def split: prod.splits sum.splits)
  show ?case
    unfolding mapM.simps x prod.case
    by (rule triple_bnd [OF one], rule triple_bnd [OF two]) (auto intro: triple_ret)
qed

lemma make_shards_triple:
  assumes "steady P"
  shows "triple P (make_shards now fid k placement blocks)
    (\<lambda>ss w. P w \<and> length placement = length blocks \<and> length ss = length blocks \<and>
       (\<forall>j < length blocks. \<exists>u. ss ! j = new_shard u now fid k j (placement ! j) (blocks ! j)))
    (\<lambda>_. P)"
  unfolding make_shards_def
proof (rule triple_if)
  assume "\<not> length placement \<noteq> length blocks"
  then show "triple P (mapM (\<lambda>(index, n, block). bnd uuid4 (\<lambda>i. ret (new_shard i now fid k index n block)))
      (zip [0..<length blocks] (zip placement blocks)))
    (\<lambda>ss w. P w \<and> length placement = length blocks \<and> length ss = length blocks \<and>
       (\<forall>j < length blocks. \<exists>u. ss ! j = new_shard u now fid k j (placement ! j) (blocks ! j))) (\<lambda>_. P)"
    by (intro triple_conseq [OF mapM_shards [OF assms]])
      (auto simp: list_all2_conv_all_nth)
qed (simp add: triple_raise)

text \<open>Storing and removing the placed shards, on the laws of the fleet.\<close>

lemma rest_of_rows:
  assumes "rest_of w' = rest_of w"
  shows "w_db w' = w_db w" "w_tx w' = w_tx w"
  using assms [THEN arg_cong, of w_db] assms [THEN arg_cong, of w_tx] by (simp_all add: rest_of_def)

lemma distinct_placed:
  assumes "distinct (map n_address placement)" and "length ss = length placement"
  shows "distinct (map (\<lambda>p. (n_address (snd p), s_id (fst p))) (zip ss placement))"
proof -
  have "map (n_address \<circ> snd) (zip ss placement) = map n_address placement"
    using assms(2) by (simp flip: map_map)
  then have "distinct (map fst (map (\<lambda>p. (n_address (snd p), s_id (fst p))) (zip ss placement)))"
    using assms(1) by (simp add: comp_def)
  then show ?thesis by (rule distinct_map [THEN iffD1, THEN conjunct1])
qed

lemma placed_keys_nth: "length ss = length placement \<Longrightarrow>
    (a, u) \<in> placed_keys ss placement \<longleftrightarrow>
      (\<exists>j < length ss. a = n_address (placement ! j) \<and> u = s_id (ss ! j))"
  by (auto simp: placed_keys_def set_zip image_iff)

text \<open>The rows stay as they are while requests are sent.\<close>

definition rows :: "db \<Rightarrow> world \<Rightarrow> bool" where
  "rows d w \<longleftrightarrow> w_db w = d \<and> w_tx w = d"

lemma rows_rest: "rest_of w' = rest_of w \<Longrightarrow> rows d w' = rows d w"
  using rest_of_rows [of w' w] by (simp add: rows_def)

lemma put_placed_triple:
  assumes "length ss = length placement" and "length blocks = length placement"
    and "distinct (map n_address placement)"
  shows "triple (\<lambda>w. rows d w \<and> fleet_ok w \<and> held w = held w0)
    (put_placed E (zip (zip ss placement) blocks))
    (\<lambda>rs w. rows d w \<and> only_at (placed_keys ss placement) w0 w \<and>
       (\<not> list_ex is_failure rs \<longrightarrow>
         (\<forall>j < length ss. held w0 (n_address (placement ! j)) (s_id (ss ! j)) = None \<and>
            held w (n_address (placement ! j)) (s_id (ss ! j)) = Some (shard_file (blocks ! j)))) \<and>
       (list_ex is_failure rs \<longrightarrow>
         (\<forall>a u. held w0 a u \<noteq> None \<longrightarrow> held w a u = held w0 a u)))
    E'"
proof (rule tripleI)
  let ?ps = "zip (zip ss placement) blocks"
  fix w rs w'
  assume w: "rows d w \<and> fleet_ok w \<and> held w = held w0"
    and run: "put_placed E ?ps w = (Inr rs, w')"
  have keys: "map (\<lambda>p. (n_address (snd (fst p)), s_id (fst (fst p)))) ?ps
      = map (\<lambda>p. (n_address (snd p), s_id (fst p))) (zip ss placement)"
    using assms(1,2) by (intro nth_equalityI) auto
  have image: "(\<lambda>p. (n_address (snd (fst p)), s_id (fst (fst p)))) ` set ?ps = placed_keys ss placement"
    unfolding placed_keys_def by (metis keys list.set_map)
  have dist: "distinct (map (\<lambda>p. (n_address (snd (fst p)), s_id (fst (fst p)))) ?ps)"
    unfolding keys by (rule distinct_placed [OF assms(3,1)])
  note all = fleet.put_all [OF _ dist run [unfolded put_placed_def], simplified image]
  have facts: "fleet_ok w'" "rest_of w' = rest_of w" "length rs = length ?ps"
    "\<And>b v. (b, v) \<notin> placed_keys ss placement \<Longrightarrow> held w' b v = held w b v"
    "\<And>p r. (p, r) \<in> set (zip ?ps rs) \<Longrightarrow>
       fleet.put_effect w w' (n_address (snd (fst p))) (s_id (fst (fst p))) (snd p) r"
    using all w by auto
  have eff: "fleet.put_effect w w' (n_address (placement ! j)) (s_id (ss ! j)) (blocks ! j) (rs ! j)"
    if "j < length ss" for j
  proof -
    have "(?ps ! j, rs ! j) \<in> set (zip ?ps rs)"
      using facts(3) assms(1,2) that by (auto simp: in_set_zip intro!: exI [where x = j])
    from facts(5) [OF this] show ?thesis using assms(1,2) that by simp
  qed
  have "rs ! j = Inr ()" if "\<not> list_ex is_failure rs" "j < length ss" for j
    using that facts(3) assms(1,2) nth_mem [of j rs] by (cases "rs ! j") (auto simp: list_ex_iff)
  moreover have "held w' a u = held w0 a u" if "held w0 a u \<noteq> None" for a u
  proof (cases "(a, u) \<in> placed_keys ss placement")
    case True
    then obtain j where "j < length ss" "a = n_address (placement ! j)" "u = s_id (ss ! j)"
      using placed_keys_nth [OF assms(1)] by blast
    then show ?thesis using eff [of j] that w by (auto simp: fleet.put_effect_def)
  next
    case False
    then show ?thesis using facts(4) w by simp
  qed
  ultimately show "rows d w' \<and> only_at (placed_keys ss placement) w0 w' \<and>
       (\<not> list_ex is_failure rs \<longrightarrow>
         (\<forall>j < length ss. held w0 (n_address (placement ! j)) (s_id (ss ! j)) = None \<and>
            held w' (n_address (placement ! j)) (s_id (ss ! j)) = Some (shard_file (blocks ! j)))) \<and>
       (list_ex is_failure rs \<longrightarrow>
         (\<forall>a u. held w0 a u \<noteq> None \<longrightarrow> held w' a u = held w0 a u))"
    using facts(1,2,4) eff w rows_rest [of w' w d] by (auto simp: only_at_def fleet.put_effect_def)
qed (simp add: put_placed_def)

lemma delete_placed_triple:
  assumes "distinct (map (\<lambda>p. (n_address (snd p), s_id (fst p))) ps)"
  shows "triple (\<lambda>w. rows d w \<and> fleet_ok w \<and> h = held w) (delete_placed E ps)
    (\<lambda>rs w. rows d w \<and> fleet_ok w \<and> length rs = length ps \<and>
       (\<forall>a u. held w a u = h a u \<or> held w a u = None \<and> (a, u) \<in> (\<lambda>p. (n_address (snd p), s_id (fst p))) ` set ps) \<and>
       (\<forall>(p, r) \<in> set (zip ps rs). r = Inr () \<longrightarrow> held w (n_address (snd p)) (s_id (fst p)) = None))
    E'"
proof (rule tripleI)
  fix w rs w'
  assume w: "rows d w \<and> fleet_ok w \<and> h = held w" and run: "delete_placed E ps w = (Inr rs, w')"
  note all = fleet.del_all [OF _ assms run [unfolded delete_placed_def]]
  have facts: "fleet_ok w'" "rest_of w' = rest_of w" "length rs = length ps"
    "\<And>b v. (b, v) \<notin> (\<lambda>p. (n_address (snd p), s_id (fst p))) ` set ps \<Longrightarrow> held w' b v = held w b v"
    "\<And>p r. (p, r) \<in> set (zip ps rs) \<Longrightarrow> fleet.del_effect w w' (n_address (snd p)) (s_id (fst p)) r"
    using all w by auto
  have "held w' a u = h a u \<or> held w' a u = None \<and> (a, u) \<in> (\<lambda>p. (n_address (snd p), s_id (fst p))) ` set ps"
    for a u
  proof (cases "(a, u) \<in> (\<lambda>p. (n_address (snd p), s_id (fst p))) ` set ps")
    case True
    then obtain p where p: "p \<in> set ps" "a = n_address (snd p)" "u = s_id (fst p)" by auto
    then obtain r where "(p, r) \<in> set (zip ps rs)"
      using facts(3) by (metis in_set_impl_in_set_zip1)
    then show ?thesis using facts(5) p True w by (auto simp: fleet.del_effect_def)
  next
    case False
    then show ?thesis using facts(4) w by simp
  qed
  moreover have "r = Inr () \<Longrightarrow> held w' (n_address (snd p)) (s_id (fst p)) = None"
    if "(p, r) \<in> set (zip ps rs)" for p r
    using facts(5) [OF that] by (simp add: fleet.del_effect_def)
  ultimately show "rows d w' \<and> fleet_ok w' \<and> length rs = length ps \<and>
       (\<forall>a u. held w' a u = h a u \<or> held w' a u = None \<and> (a, u) \<in> (\<lambda>p. (n_address (snd p), s_id (fst p))) ` set ps) \<and>
       (\<forall>(p, r) \<in> set (zip ps rs). r = Inr () \<longrightarrow> held w' (n_address (snd p)) (s_id (fst p)) = None)"
    using facts(1-3) w rows_rest [of w' w d] by auto
qed (simp add: delete_placed_def)

section \<open>Rolling back\<close>

lemma delete_started:
  assumes "constraints_ok d" and "constraints_ok (db_started file ss d)"
    and "\<And>s. s \<in> set ss \<Longrightarrow> s_file_id s = f_id file"
  shows "delete_file_row (f_id file) (db_started file ss d) = d"
proof -
  have new: "f_id file \<notin> f_id ` set (files d)"
    using assms(2) by (auto simp: db_started_def add_shards_def add_file_def constraints_ok_def keys_unique_def)
  have old: "\<forall>f \<in> set (files d). f_id f \<noteq> f_id file" using new by (metis imageI)
  then have "filter (\<lambda>f. f_id f \<noteq> f_id file) (files d @ [file]) = files d" by simp
  moreover have "\<forall>s \<in> set (shards d). s_file_id s \<noteq> f_id file"
    using assms(1) new unfolding constraints_ok_def references_ok_def list_all_iff by metis
  then have "filter (\<lambda>s. s_file_id s \<noteq> f_id file) (shards d @ ss) = shards d"
    using assms(3) by (simp add: filter_empty_conv)
  moreover have "a_file_id a \<noteq> Some (f_id file)" if "a \<in> set (audits d)" for a
    using assms(1) new that unfolding constraints_ok_def references_ok_def list_all_iff
    by (fastforce split: option.splits)
  then have "map (\<lambda>a. if a_file_id a = Some (f_id file) then a\<lparr>a_file_id := None\<rparr> else a) (audits d) = audits d"
    by (intro map_idI) simp
  ultimately show ?thesis
    by (simp add: delete_file_row_def db_started_def add_shards_def add_file_def)
qed

text \<open>The state between a failed write and the end of the roll-back.\<close>

definition failing :: "world \<Rightarrow> file_row \<Rightarrow> shard_row list \<Rightarrow> node_row list \<Rightarrow> world \<Rightarrow> bool" where
  "failing w0 file ss placement w \<longleftrightarrow>
     rows (db_started file ss (w_db w0)) w \<and> constraints_ok (w_db w) \<and>
     only_at (placed_keys ss placement) w0 w \<and>
     (\<forall>a u. held w0 a u \<noteq> None \<longrightarrow> held w a u = held w0 a u)"

text \<open>After the deletions: every placed shard is gone, unless one of them failed.\<close>

definition cleared :: "world \<Rightarrow> file_row \<Rightarrow> shard_row list \<Rightarrow> node_row list \<Rightarrow> (exn + unit) list \<Rightarrow> world \<Rightarrow> bool" where
  "cleared w0 file ss placement rs w \<longleftrightarrow>
     rows (db_started file ss (w_db w0)) w \<and> constraints_ok (db_started file ss (w_db w0)) \<and>
     only_at (placed_keys ss placement) w0 w \<and>
     (\<not> list_ex is_failure rs \<longrightarrow> (\<forall>a u. held w a u = held w0 a u \<or> held w a u = None))"

lemma clear_triple:
  assumes "length ss = length placement" and "distinct (map n_address placement)"
  shows "triple (failing w0 file ss placement) (delete_placed E (zip ss placement)) (cleared w0 file ss placement)
    (\<lambda>_ _. False)"
  unfolding triple_def
proof (intro allI impI)
  fix w
  assume f: "failing w0 file ss placement w"
  let ?D = "db_started file ss (w_db w0)" and ?run = "delete_placed E (zip ss placement) w"
  obtain rs w' where run: "?run = (Inr rs, w')"
    using gather_total [of "\<lambda>p. client_delete E (n_address (snd p)) (s_id (fst p))" "zip ss placement" w]
    by (auto simp: delete_placed_def)
  have "rows ?D w \<and> fleet_ok w \<and> held w = held w" using f by (simp add: failing_def only_at_def)
  from triple_InrD [OF delete_placed_triple [OF distinct_placed [OF assms(2,1)]] this run]
  have d: "rows ?D w'" "fleet_ok w'" "length rs = length (zip ss placement)"
    "\<And>a u. held w' a u = held w a u \<or> held w' a u = None \<and> (a, u) \<in> placed_keys ss placement"
    "\<And>p r. (p, r) \<in> set (zip (zip ss placement) rs) \<Longrightarrow> r = Inr () \<Longrightarrow>
       held w' (n_address (snd p)) (s_id (fst p)) = None"
    by (auto simp: placed_keys_def)
  have gone: "held w' a u = None"
    if ok: "\<not> list_ex is_failure rs" and key: "(a, u) \<in> placed_keys ss placement" for a u
  proof -
    obtain p where p: "p \<in> set (zip ss placement)" "a = n_address (snd p)" "u = s_id (fst p)"
      using key by (auto simp: placed_keys_def)
    then obtain r where r: "(p, r) \<in> set (zip (zip ss placement) rs)"
      using d(3) by (metis in_set_impl_in_set_zip1)
    then have "\<not> is_failure r" using ok by (auto simp: list_ex_iff dest: set_zip_rightD)
    then show ?thesis using d(5) [OF r] p by (cases r) auto
  qed
  have "only_at (placed_keys ss placement) w0 w'"
    using f d(2,4) unfolding failing_def only_at_def by metis
  moreover have "held w' a u = held w0 a u \<or> held w' a u = None" if "\<not> list_ex is_failure rs" for a u
    using gone [OF that] f d(4) unfolding failing_def only_at_def by metis
  moreover have "constraints_ok ?D" using f unfolding failing_def rows_def by metis
  ultimately show "case ?run of (Inl e, t) \<Rightarrow> False | (Inr x, t) \<Rightarrow> cleared w0 file ss placement x t"
    using d(1) run by (simp add: cleared_def)
qed

text \<open>With every shard gone the rows go too.\<close>

lemma forget_triple:
  assumes "constraints_ok (w_db w0)" and "\<And>s. s \<in> set ss \<Longrightarrow> s_file_id s = f_id file" and "\<not> list_ex is_failure rs"
  shows "triple (cleared w0 file ss placement rs) (seq (db_execute (delete_file_row (f_id file))) db_commit)
    (\<lambda>_ w. undone w0 w \<or> unfinished w0 file ss placement w)
    (\<lambda>_ w. undone w0 w \<or> unfinished w0 file ss placement w)"
proof -
  let ?D = "db_started file ss (w_db w0)"
  let ?post = "\<lambda>w. undone w0 w \<or> unfinished w0 file ss placement w"
  let ?mid = "\<lambda>w. w_tx w = w_db w0 \<and> w_db w = ?D \<and> constraints_ok ?D \<and> only_at (placed_keys ss placement) w0 w \<and>
         (\<forall>a u. held w a u = held w0 a u \<or> held w a u = None)"
  have restored: "constraints_ok ?D \<Longrightarrow> delete_file_row (f_id file) ?D = w_db w0"
    using delete_started [OF assms(1) _ assms(2)] by blast
  have exec: "triple (cleared w0 file ss placement rs) (db_execute (delete_file_row (f_id file))) (\<lambda>_. ?mid) (\<lambda>_. ?post)"
    by (rule db_execute_triple) (use assms(3) in \<open>auto simp: cleared_def rows_def restored only_at_def unfinished_def\<close>)
  have commit: "triple ?mid db_commit (\<lambda>_. ?post) (\<lambda>_. ?post)"
  proof (rule db_commit_triple)
    fix w k
    assume w: "?mid w"
    then have "kept_ids w0 w" using started_kept by blast
    then show "?post (w\<lparr>w_trips := k, w_db := w_tx w\<rparr>)" "?post (w\<lparr>w_trips := k, w_db := w_tx w\<rparr>)"
      using w by (simp_all add: undone_def only_at_def kept_ids_def)
    show "?post (w\<lparr>w_trips := k, w_tx := w_db w\<rparr>)" "?post (w\<lparr>w_trips := k, w_tx := w_db w\<rparr>)"
      using w by (simp_all add: unfinished_def only_at_def)
  qed
  show ?thesis by (rule triple_bnd [OF exec commit])
qed

lemma roll_back_triple:
  assumes "constraints_ok (w_db w0)" and "length ss = length placement"
    and "distinct (map n_address placement)" and "\<And>s. s \<in> set ss \<Longrightarrow> s_file_id s = f_id file"
  shows "triple (failing w0 file ss placement) (roll_back_upload E file (zip ss placement))
    (\<lambda>_ w. undone w0 w \<or> unfinished w0 file ss placement w)
    (\<lambda>_ w. undone w0 w \<or> unfinished w0 file ss placement w)"
  unfolding roll_back_upload_def
  by (rule triple_bnd [OF triple_conseq [OF clear_triple [OF assms(2,3)]]], assumption, assumption, blast,
      rule triple_if, rule triple_ret, simp add: cleared_def unfinished_def rows_def,
      rule forget_triple [OF assms(1,4)])

section \<open>The upload\<close>

definition upload_done ::
  "env \<Rightarrow> world \<Rightarrow> uuid \<Rightarrow> pystr \<Rightarrow> pystr \<Rightarrow> bytes \<Rightarrow> nat \<Rightarrow> nat \<Rightarrow> pystr option \<Rightarrow> file_row \<Rightarrow> world \<Rightarrow> bool" where
  "upload_done E w0 owner filename content_type data k m ip f w \<longleftrightarrow>
     (\<exists>i now placement blocks ss a.
        upload_plan E (w_db w0) data k m i now placement blocks ss \<and> uploaded_row a i owner ip \<and>
        f = new_file i now owner filename content_type data (sha256_hex data) k m \<and>
        finished w0 f ss placement blocks a w)"

definition upload_partial ::
  "env \<Rightarrow> world \<Rightarrow> uuid \<Rightarrow> pystr \<Rightarrow> pystr \<Rightarrow> bytes \<Rightarrow> nat \<Rightarrow> nat \<Rightarrow> file_row \<Rightarrow> world \<Rightarrow> bool" where
  "upload_partial E w0 owner filename content_type data k m f w \<longleftrightarrow>
     (\<exists>i now placement blocks ss.
        upload_plan E (w_db w0) data k m i now placement blocks ss \<and>
        f = new_file i now owner filename content_type data (sha256_hex data) k m \<and>
        unfinished w0 f ss placement w)"

lemma plan_file_ids:
  "upload_plan E d data k m i now placement blocks ss \<Longrightarrow> s \<in> set ss \<Longrightarrow> s_file_id s = i"
  by (auto simp: upload_plan_def in_set_conv_nth new_shard_def)

lemma plan_nodes:
  assumes "upload_plan E d data k m i now placement blocks ss"
  shows "distinct (map s_node_id ss)"
proof -
  have "map s_node_id ss = map n_id placement"
  proof (rule nth_equalityI)
    fix j
    assume "j < length (map s_node_id ss)"
    then have "j < k + m" "length placement = k + m" using assms by (simp_all add: upload_plan_def)
    moreover obtain u where "ss ! j = new_shard u now i k j (placement ! j) (blocks ! j)"
      using assms \<open>j < k + m\<close> by (auto simp: upload_plan_def)
    ultimately show "map s_node_id ss ! j = map n_id placement ! j"
      using assms by (simp add: upload_plan_def new_shard_def)
  qed (use assms in \<open>simp add: upload_plan_def\<close>)
  then show ?thesis using assms by (simp add: upload_plan_def)
qed

lemma distinct_sample:
  assumes "mset ys = mset xs" and "distinct (map f xs)"
  shows "distinct (map f (take n ys))" and "set (take n ys) \<subseteq> set xs"
proof -
  have "distinct (map f ys)" using assms by (metis mset_eq_imp_distinct_iff mset_map)
  then show "distinct (map f (take n ys))" by (simp add: take_map [symmetric])
  show "set (take n ys) \<subseteq> set xs" using assms(1) by (metis mset_eq_setD set_take_subset)
qed

lemma distinct_healthy:
  assumes "constraints_ok d"
  shows "distinct (map n_id (filter P (nodes d)))" and "distinct (map n_address (filter P (nodes d)))"
  using assms by (simp_all add: constraints_ok_def keys_unique_def distinct_map_filter)

lemma finish_triple:
  assumes plan: "upload_plan E (w_db w0) data k m i now placement blocks ss"
    and f: "f = new_file i now owner filename content_type data (sha256_hex data) k m"
  shows "triple (\<lambda>w. rows (db_started f ss (w_db w0)) w \<and> constraints_ok (w_db w) \<and>
         only_at (placed_keys ss placement) w0 w \<and>
         (\<forall>j < length ss. held w0 (n_address (placement ! j)) (s_id (ss ! j)) = None \<and>
            held w (n_address (placement ! j)) (s_id (ss ! j)) = Some (shard_file (blocks ! j))))
     (seq (db_stage (set_file i (\<lambda>f. f\<lparr>f_status := Available\<rparr>)))
     (seq (audit_record file_uploaded (Some i) (Some owner) None ip)
     (seq db_commit
     (ret (f\<lparr>f_status := Available\<rparr>)))))
     (\<lambda>g w. upload_done E w0 owner filename content_type data k m ip f w \<and> g = f\<lparr>f_status := Available\<rparr>)
     (\<lambda>e w. upload_partial E w0 owner filename content_type data k m f w \<or>
        e = OperationalError \<and> upload_done E w0 owner filename content_type data k m ip f w)"
proof -
  let ?D = "db_started f ss (w_db w0)"
  let ?E = "\<lambda>e w. upload_partial E w0 owner filename content_type data k m f w \<or>
        e = OperationalError \<and> upload_done E w0 owner filename content_type data k m ip f w"
  let ?at = "\<lambda>w. only_at (placed_keys ss placement) w0 w \<and> constraints_ok ?D \<and> w_db w = ?D \<and>
         (\<forall>j < length ss. held w0 (n_address (placement ! j)) (s_id (ss ! j)) = None \<and>
            held w (n_address (placement ! j)) (s_id (ss ! j)) = Some (shard_file (blocks ! j)))"
  have id: "f_id f = i" by (simp add: f new_file_def)
  have stage: "triple (\<lambda>w. rows ?D w \<and> constraints_ok (w_db w) \<and> only_at (placed_keys ss placement) w0 w \<and>
         (\<forall>j < length ss. held w0 (n_address (placement ! j)) (s_id (ss ! j)) = None \<and>
            held w (n_address (placement ! j)) (s_id (ss ! j)) = Some (shard_file (blocks ! j))))
      (db_stage (set_file i (\<lambda>f. f\<lparr>f_status := Available\<rparr>)))
      (\<lambda>_ w. ?at w \<and> w_tx w = set_file i (\<lambda>f. f\<lparr>f_status := Available\<rparr>) ?D) ?E"
    by (rule db_stage_triple) (auto simp: rows_def only_at_def)
  have audit: "triple (\<lambda>w. ?at w \<and> w_tx w = set_file i (\<lambda>f. f\<lparr>f_status := Available\<rparr>) ?D)
      (audit_record file_uploaded (Some i) (Some owner) None ip)
      (\<lambda>_ w. ?at w \<and> (\<exists>a. uploaded_row a i owner ip \<and> w_tx w = db_finished f ss a (w_db w0))) ?E"
    unfolding audit_record_def
    by (auto simp: triple_def uuid4_def gets_def db_stage_def modify_def bnd_def only_at_def db_finished_def
        id uploaded_row_def intro!: exI)
  have commit: "triple (\<lambda>w. ?at w \<and> (\<exists>a. uploaded_row a i owner ip \<and> w_tx w = db_finished f ss a (w_db w0)))
      db_commit (\<lambda>_. upload_done E w0 owner filename content_type data k m ip f) ?E"
    by (rule db_commit_triple)
      (use plan f in \<open>auto simp: upload_done_def upload_partial_def finished_def unfinished_def only_at_def intro!: exI\<close>)
  show ?thesis
    by (rule triple_bnd [OF stage], rule triple_bnd [OF audit], rule triple_bnd [OF commit]) (simp add: triple_ret)
qed

text \<open>How an upload returns, and how it raises.\<close>

abbreviation upload_returns ::
  "env \<Rightarrow> world \<Rightarrow> uuid \<Rightarrow> pystr \<Rightarrow> pystr \<Rightarrow> bytes \<Rightarrow> nat \<Rightarrow> nat \<Rightarrow> pystr option \<Rightarrow> file_row \<Rightarrow> world \<Rightarrow> bool" where
  "upload_returns E w0 owner filename content_type data k m ip g w \<equiv>
     \<exists>f. upload_done E w0 owner filename content_type data k m ip f w \<and> g = f\<lparr>f_status := Available\<rparr>"

abbreviation upload_raises ::
  "env \<Rightarrow> world \<Rightarrow> uuid \<Rightarrow> pystr \<Rightarrow> pystr \<Rightarrow> bytes \<Rightarrow> nat \<Rightarrow> nat \<Rightarrow> pystr option \<Rightarrow> exn \<Rightarrow> world \<Rightarrow> bool" where
  "upload_raises E w0 owner filename content_type data k m ip e w \<equiv>
     undone w0 w \<or> (\<exists>f. upload_partial E w0 owner filename content_type data k m f w) \<or>
     (e = OperationalError \<and> (\<exists>f. upload_done E w0 owner filename content_type data k m ip f w))"

lemma base_raises: "base w0 w \<Longrightarrow> upload_raises E w0 owner filename content_type data k m ip e w"
  by (simp add: base_def undone_def kept_ids_def)

lemma steady_base_and: "steady (\<lambda>w. base w0 w \<and> A)"
  using steady_base by (auto simp: steady_def)

text \<open>The file and its shards are recorded as uploading.\<close>

definition begun :: "world \<Rightarrow> file_row \<Rightarrow> shard_row list \<Rightarrow> world \<Rightarrow> bool" where
  "begun w0 f ss w \<longleftrightarrow>
     rows (db_started f ss (w_db w0)) w \<and> fleet_ok w \<and> held w = held w0 \<and>
     constraints_ok (db_started f ss (w_db w0))"

lemma record_upload_triple:
  assumes plan: "upload_plan E (w_db w0) data k m i now placement blocks ss"
    and f: "f = new_file i now owner filename content_type data (sha256_hex data) k m"
  shows "triple (base w0) (seq (db_stage (\<lambda>d. add_shards ss (add_file f d))) db_commit)
    (\<lambda>_. begun w0 f ss) (upload_raises E w0 owner filename content_type data k m ip)"
    (is "triple _ _ _ ?E")
proof -
  let ?D = "db_started f ss (w_db w0)"
  let ?staged = "\<lambda>w. fleet_ok w \<and> held w = held w0 \<and> w_db w = w_db w0 \<and> w_tx w = ?D"
  have stage: "triple (base w0) (db_stage (\<lambda>d. add_shards ss (add_file f d))) (\<lambda>_. ?staged) ?E"
    by (rule db_stage_triple) (simp add: base_def db_started_def)
  have commit: "triple ?staged db_commit (\<lambda>_. begun w0 f ss) ?E"
  proof (rule db_commit_triple)
    fix w n
    assume a: "?staged w" "constraints_ok (w_tx w)"
    show "begun w0 f ss (w\<lparr>w_trips := n, w_db := w_tx w\<rparr>)" using a by (simp add: begun_def rows_def)
    have "unfinished w0 f ss placement (w\<lparr>w_trips := n, w_db := w_tx w\<rparr>)"
      using a by (simp add: unfinished_def only_at_def)
    then show "?E OperationalError (w\<lparr>w_trips := n, w_db := w_tx w\<rparr>)"
      using plan f unfolding upload_partial_def by blast
  qed (simp_all add: undone_def kept_ids_def)
  show ?thesis by (rule triple_bnd [OF stage commit])
qed

text \<open>Then all shards are sent; the outcome decides between the roll-back and the end of the upload.\<close>

lemma send_shards_triple:
  assumes "length ss = length placement" and "length blocks = length placement"
    and "distinct (map n_address placement)"
  shows "triple (begun w0 f ss) (put_placed E (zip (zip ss placement) blocks))
    (\<lambda>rs w. rows (db_started f ss (w_db w0)) w \<and> constraints_ok (w_db w) \<and> only_at (placed_keys ss placement) w0 w \<and>
       (\<not> list_ex is_failure rs \<longrightarrow>
         (\<forall>j < length ss. held w0 (n_address (placement ! j)) (s_id (ss ! j)) = None \<and>
            held w (n_address (placement ! j)) (s_id (ss ! j)) = Some (shard_file (blocks ! j)))) \<and>
       (list_ex is_failure rs \<longrightarrow> (\<forall>a u. held w0 a u \<noteq> None \<longrightarrow> held w a u = held w0 a u)))
    Er"
proof (cases "constraints_ok (db_started f ss (w_db w0))")
  case True
  show ?thesis
    by (rule triple_conseq [OF put_placed_triple [OF assms, of "db_started f ss (w_db w0)" w0 E "\<lambda>_ _. False"]])
      (use True in \<open>auto simp: begun_def rows_def\<close>)
qed (simp add: triple_def begun_def)

lemma commit_upload_triple:
  assumes db: "constraints_ok (w_db w0)" and plan: "upload_plan E (w_db w0) data k m i now placement blocks ss"
    and f: "f = new_file i now owner filename content_type data (sha256_hex data) k m"
  shows "triple (base w0)
    (seq (db_stage (\<lambda>d. add_shards ss (add_file f d)))
     (seq db_commit
     (bnd (put_placed E (zip (zip ss placement) blocks)) (\<lambda>results.
     if list_ex is_failure results
     then seq (roll_back_upload E f (zip ss placement)) (raise UploadFailedError)
     else
     seq (db_stage (set_file i (\<lambda>f. f\<lparr>f_status := Available\<rparr>)))
     (seq (audit_record file_uploaded (Some i) (Some owner) None ip)
     (seq db_commit
     (ret (f\<lparr>f_status := Available\<rparr>))))))))
    (upload_returns E w0 owner filename content_type data k m ip)
    (upload_raises E w0 owner filename content_type data k m ip)"
    (is "triple _ _ ?Q ?E")
proof -
  have len: "length ss = length placement" "length blocks = length placement"
    and dist: "distinct (map n_address placement)"
    using plan by (simp_all add: upload_plan_def)
  have files: "s \<in> set ss \<Longrightarrow> s_file_id s = f_id f" for s
    using plan_file_ids [OF plan] f by (simp add: new_file_def)
  have partial: "unfinished w0 f ss placement w \<Longrightarrow> ?E e w" for e w
    using plan f by (auto simp: upload_partial_def)
  have roll: "triple (failing w0 f ss placement)
      (seq (roll_back_upload E f (zip ss placement)) (raise UploadFailedError)) ?Q ?E"
    by (rule triple_bnd [OF triple_conseq [OF roll_back_triple [OF db len(1) dist files]], where R = "\<lambda>_. ?E UploadFailedError"])
      (use partial in \<open>blast intro: triple_raise\<close>)+
  show ?thesis
  proof (rule triple_split [OF record_upload_triple [OF plan f]], rule triple_bnd [OF send_shards_triple [OF len dist]],
      rule triple_if, goal_cases)
    case 1
    then show ?case by (intro triple_pre [OF roll]) (auto simp: failing_def)
  next
    case 2
    then show ?case by (intro triple_conseq [OF finish_triple [OF plan f, of ip]]) auto
  qed
qed

text \<open>The nodes of an upload: distinct healthy ones, at distinct addresses.\<close>

definition chosen :: "db \<Rightarrow> nat \<Rightarrow> node_row list \<Rightarrow> bool" where
  "chosen d n placement \<longleftrightarrow>
     set placement \<subseteq> {n \<in> set (nodes d). n_status n = Healthy} \<and>
     distinct (map n_id placement) \<and> distinct (map n_address placement) \<and> length placement = n"

lemma chosen_sample:
  assumes "constraints_ok d" and "mset ys = mset (filter (\<lambda>n. n_status n = Healthy) (nodes d))"
    and "n \<le> length (filter (\<lambda>n. n_status n = Healthy) (nodes d))"
  shows "chosen d n (take n ys)"
proof -
  have "length ys = length (filter (\<lambda>n. n_status n = Healthy) (nodes d))" using assms(2) by (metis size_mset)
  then show ?thesis
    using assms(3) distinct_sample [OF assms(2) distinct_healthy(1) [OF assms(1)], of n]
      distinct_sample(1) [OF assms(2) distinct_healthy(2) [OF assms(1)], of n]
    by (simp add: chosen_def)
qed

lemma choose_nodes_triple:
  assumes db: "constraints_ok (w_db w0)" and weak: "\<And>e w. base w0 w \<Longrightarrow> Er e w"
    and F: "\<And>placement. chosen (w_db w0) n placement \<Longrightarrow> triple (base w0) (F placement) Q Er"
  shows "triple (base w0) (bnd healthy_nodes (\<lambda>candidates.
     if length candidates < n then raise InsufficientNodesError
     else bnd (random_sample candidates n) F)) Q Er"
proof -
  let ?cands = "filter (\<lambda>n. n_status n = Healthy) (nodes (w_db w0))"
  have healthy: "triple (base w0) healthy_nodes (\<lambda>c w. base w0 w \<and> c = ?cands) Er"
    unfolding healthy_nodes_def
    by (rule triple_conseq [OF db_select_triple [OF steady_base]]) (use weak in \<open>auto simp: base_def\<close>)
  have sample: "triple (base w0) (random_sample ?cands n) (\<lambda>placement w. base w0 w \<and> chosen (w_db w0) n placement) Er"
    if "n \<le> length ?cands"
    by (rule triple_conseq [OF random_sample_triple [OF steady_base]]) (use chosen_sample [OF db _ that] weak in auto)
  show ?thesis
  proof (rule triple_bnd [OF healthy], rule triple_fact, rule triple_if)
    fix c
    show "triple (base w0) (raise InsufficientNodesError) Q Er" by (rule triple_raise) (rule weak)
    assume c: "c = ?cands" "\<not> length c < n"
    show "triple (base w0) (bnd (random_sample c n) F) Q Er"
      unfolding c(1) by (rule triple_bnd [OF sample]) (use c in \<open>auto intro: triple_fact F\<close>)
  qed
qed

lemma plan_shards_triple:
  assumes "encode (e_zfec E) data k m = Inr blocks" and "chosen (w_db w0) (k + m) placement"
    and "\<And>e w. base w0 w \<Longrightarrow> Er e w"
  shows "triple (base w0) (make_shards now i k placement blocks)
    (\<lambda>ss w. base w0 w \<and> upload_plan E (w_db w0) data k m i now placement blocks ss) Er"
  by (rule triple_conseq [OF make_shards_triple [OF steady_base]])
    (use assms in \<open>auto simp: upload_plan_def chosen_def\<close>)

lemma upload_file_triple:
  assumes db: "constraints_ok (w_db w0)"
  shows "triple (base w0) (upload_file E owner filename content_type data k m ip)
    (upload_returns E w0 (u_id owner) filename content_type data k m ip)
    (upload_raises E w0 (u_id owner) filename content_type data k m ip)"
    (is "triple _ _ ?Q ?E")
proof -
  have enc: "triple (base w0) (lift_erasure (encode (e_zfec E) data k m))
      (\<lambda>blocks w. base w0 w \<and> encode (e_zfec E) data k m = Inr blocks) ?E"
    by (rule triple_conseq [OF lift_erasure_triple]) (use base_raises in blast)+
  have time: "triple (base w0) (gets w_now) (\<lambda>_. base w0) ?E"
    by (rule triple_conseq [OF gets_triple]) auto
  show ?thesis
    unfolding upload_file_def Let_def
    by (rule triple_bnd [OF enc], rule triple_fact, rule choose_nodes_triple [OF db base_raises], assumption,
        rule triple_bnd [OF time], rule triple_bnd [OF uuid4_triple [OF steady_base]],
        rule triple_bnd [OF plan_shards_triple [OF _ _ base_raises]], assumption, assumption, assumption,
        rule triple_fact, rule commit_upload_triple [OF db _ refl], assumption)
qed

section \<open>Properties\<close>

lemma finished_rows:
  assumes "constraints_ok (db_finished f ss a d)"
  shows "db_finished f ss a d = add_audit a (add_shards ss (add_file (f\<lparr>f_status := Available\<rparr>) d))"
proof -
  have "f_id \<circ> (\<lambda>g. if f_id g = f_id f then g\<lparr>f_status := Available\<rparr> else g) = f_id"
    by (rule ext) simp
  then have new: "f_id f \<notin> f_id ` set (files d)"
    using assms by (auto simp: constraints_ok_def keys_unique_def db_finished_def db_started_def add_audit_def
        add_shards_def add_file_def set_file_def image_iff)
  have "g \<in> set (files d) \<Longrightarrow> f_id g \<noteq> f_id f" for g using new by (metis imageI)
  then have "map (\<lambda>g. if f_id g = f_id f then g\<lparr>f_status := Available\<rparr> else g) (files d) = files d"
    by (intro map_idI) simp
  then show ?thesis
    by (simp add: db_finished_def db_started_def add_audit_def add_shards_def add_file_def set_file_def)
qed

text \<open>A plan places its shards on rows of the database.\<close>

lemma plan_shard:
  assumes "upload_plan E d data k m i now placement blocks ss" and "j < k + m"
  shows "s_shard_index (ss ! j) = j" "s_checksum_sha256 (ss ! j) = sha256_hex (blocks ! j)"
    "s_file_id (ss ! j) = i" "s_node_id (ss ! j) = n_id (placement ! j)"
    "placement ! j \<in> set (nodes d)" "n_status (placement ! j) = Healthy" "ss ! j \<in> set ss"
    "length ss = k + m" "length placement = k + m"
proof -
  obtain u where "ss ! j = new_shard u now i k j (placement ! j) (blocks ! j)"
    using assms by (auto simp: upload_plan_def)
  then show "s_shard_index (ss ! j) = j" "s_checksum_sha256 (ss ! j) = sha256_hex (blocks ! j)"
    "s_file_id (ss ! j) = i" "s_node_id (ss ! j) = n_id (placement ! j)"
    by (simp_all add: new_shard_def)
  have "placement ! j \<in> set placement" using assms by (simp add: upload_plan_def)
  then show "placement ! j \<in> set (nodes d)" "n_status (placement ! j) = Healthy"
    using assms(1) unfolding upload_plan_def by blast+
qed (use assms in \<open>simp_all add: upload_plan_def\<close>)

lemma plan_recorded:
  assumes "upload_plan E d data k m i now placement blocks ss" and "(a, u) \<in> placed_keys ss placement"
    and "set ss \<subseteq> set (shards d')" and "nodes d' = nodes d"
  shows "recorded d' a u"
proof -
  have "length ss = length placement" "length ss = k + m" using assms(1) by (simp_all add: upload_plan_def)
  then obtain j where "j < k + m" "a = n_address (placement ! j)" "u = s_id (ss ! j)"
    using assms(2) by (auto simp: placed_keys_nth)
  moreover from this have "ss ! j \<in> set (shards d')" "placement ! j \<in> set (nodes d')"
    "n_id (placement ! j) = s_node_id (ss ! j)"
    using plan_shard [OF assms(1)] assms(3,4) by auto
  ultimately show ?thesis by (auto simp: recorded_def list_ex_iff)
qed

lemma done_stored:
  assumes plan: "upload_plan E (w_db w0) data k m i now placement blocks ss"
    and f: "f = new_file i now owner filename content_type data (sha256_hex data) k m"
    and fin: "finished w0 f ss placement blocks a w"
  shows "fully_stored w (f\<lparr>f_status := Available\<rparr>)"
  unfolding fully_stored_def
proof (intro allI impI)
  fix j
  assume "j < f_data_shards (f\<lparr>f_status := Available\<rparr>) + f_parity_shards (f\<lparr>f_status := Available\<rparr>)"
  then have j: "j < k + m" by (simp add: f new_file_def)
  note s = plan_shard [OF plan j]
  have "w_db w = add_audit a (add_shards ss (add_file (f\<lparr>f_status := Available\<rparr>) (w_db w0)))"
    using fin finished_rows [of f ss a "w_db w0"] unfolding finished_def by metis
  then have "(ss ! j, placement ! j) \<in> set (placed_shards (f_id (f\<lparr>f_status := Available\<rparr>)) (w_db w))"
    using s by (simp add: placed_shards_iff add_audit_def add_shards_def add_file_def f new_file_def)
  moreover have "good_shard w (ss ! j, placement ! j)"
    using fin j s(2,8) by (simp add: good_shard_def finished_def)
  ultimately show "\<exists>p \<in> set (placed_shards (f_id (f\<lparr>f_status := Available\<rparr>)) (w_db w)).
      s_shard_index (fst p) = j \<and> good_shard w p"
    using s(1) by (metis fst_conv)
qed

text \<open>What holds in each outcome.\<close>

definition rows_added :: "world \<Rightarrow> world \<Rightarrow> bool" where
  "rows_added w w' \<longleftrightarrow>
    (\<exists>fs ss as. w_db w' = (w_db w)\<lparr>files := files (w_db w) @ fs, shards := shards (w_db w) @ ss,
                             audits := audits (w_db w) @ as\<rparr> \<and>
       length fs \<le> 1 \<and> f_id ` set fs \<supseteq> s_file_id ` set ss \<and> distinct (map s_node_id ss) \<and>
       (\<forall>f \<in> set fs. f_status f = Uploading \<or> f_status f = Available \<and> fully_stored w' f))"

definition orderly :: "world \<Rightarrow> world \<Rightarrow> bool" where
  "orderly w w' \<longleftrightarrow> fleet_ok w' \<and> constraints_ok (w_db w') \<and>
    (\<forall>a u. held w' a u \<noteq> held w a u \<longrightarrow> held w' a u = None \<or> recorded (w_db w') a u) \<and>
    kept_ids w w' \<and> rows_added w w'"

lemma undone_orderly: "constraints_ok (w_db w0) \<Longrightarrow> undone w0 w \<Longrightarrow> orderly w0 w"
  unfolding orderly_def rows_added_def undone_def
  by (intro conjI exI [where x = "[]"]) auto

lemma only_at_recorded:
  assumes "upload_plan E (w_db w0) data k m i now placement blocks ss"
    and "only_at (placed_keys ss placement) w0 w" and "set ss \<subseteq> set (shards (w_db w))"
    and "nodes (w_db w) = nodes (w_db w0)" and "held w a u \<noteq> held w0 a u"
  shows "recorded (w_db w) a u"
proof -
  have "(a, u) \<in> placed_keys ss placement" using assms(2,5) unfolding only_at_def by metis
  then show ?thesis by (rule plan_recorded [OF assms(1) _ assms(3,4)])
qed

lemma partial_orderly:
  assumes "upload_partial E w0 owner filename content_type data k m f w"
  shows "orderly w0 w"
proof -
  obtain i now placement blocks ss where
    plan: "upload_plan E (w_db w0) data k m i now placement blocks ss"
    and f: "f = new_file i now owner filename content_type data (sha256_hex data) k m"
    and un: "unfinished w0 f ss placement w"
    using assms unfolding upload_partial_def by blast
  have db: "w_db w = db_started f ss (w_db w0)" "constraints_ok (w_db w)" "only_at (placed_keys ss placement) w0 w"
    using un unfolding unfinished_def by blast+
  have "rows_added w0 w"
    unfolding rows_added_def
    by (rule exI [where x = "[f]"], rule exI [where x = ss], rule exI [where x = "[]"])
      (use plan_file_ids [OF plan] plan_nodes [OF plan] in
        \<open>auto simp: db(1) db_started_def add_shards_def add_file_def f new_file_def\<close>)
  moreover have "recorded (w_db w) a u" if "held w a u \<noteq> held w0 a u" for a u
    by (rule only_at_recorded [OF plan db(3) _ _ that]) (simp_all add: db(1) db_started_def add_shards_def add_file_def)
  moreover have "kept_ids w0 w" using started_kept db by metis
  ultimately show ?thesis using db(2,3) by (simp add: orderly_def only_at_def)
qed

lemma done_orderly:
  assumes "upload_done E w0 owner filename content_type data k m ip f w"
  shows "orderly w0 w \<and> fully_stored w (f\<lparr>f_status := Available\<rparr>) \<and>
    (\<exists>i now placement blocks ss a. upload_plan E (w_db w0) data k m i now placement blocks ss \<and>
       uploaded_row a i owner ip \<and>
       f = new_file i now owner filename content_type data (sha256_hex data) k m \<and>
       w_db w = add_audit a (add_shards ss (add_file (f\<lparr>f_status := Available\<rparr>) (w_db w0))))"
proof -
  obtain i now placement blocks ss a where
    plan: "upload_plan E (w_db w0) data k m i now placement blocks ss"
    and f: "f = new_file i now owner filename content_type data (sha256_hex data) k m"
    and fin: "finished w0 f ss placement blocks a w" and a: "uploaded_row a i owner ip"
    using assms unfolding upload_done_def by blast
  note stored = done_stored [OF plan f fin]
  have db: "w_db w = add_audit a (add_shards ss (add_file (f\<lparr>f_status := Available\<rparr>) (w_db w0)))"
    "constraints_ok (w_db w)" "only_at (placed_keys ss placement) w0 w"
    using fin finished_rows [of f ss a "w_db w0"] unfolding finished_def by metis+
  have "rows_added w0 w"
    unfolding rows_added_def
    by (rule exI [where x = "[f\<lparr>f_status := Available\<rparr>]"], rule exI [where x = ss], rule exI [where x = "[a]"])
      (use stored plan_file_ids [OF plan] plan_nodes [OF plan] in
        \<open>auto simp: db(1) add_audit_def add_shards_def add_file_def f new_file_def\<close>)
  moreover have "recorded (w_db w) b u" if "held w b u \<noteq> held w0 b u" for b u
    by (rule only_at_recorded [OF plan db(3) _ _ that]) (simp_all add: db(1) add_audit_def add_shards_def add_file_def)
  moreover have "kept_ids w0 w"
    by (rule only_at_kept [OF db(2) _ _ db(3)])
      (use constraints_okD(2) [OF db(2)] in \<open>auto simp: keys_unique_def db(1) add_audit_def add_shards_def add_file_def\<close>)
  ultimately have "orderly w0 w" using db(2,3) by (simp add: orderly_def only_at_def)
  then show ?thesis using stored plan f a db(1) by blast
qed

lemma orderly_session: "orderly (w\<lparr>w_tx := d\<rparr>) v \<Longrightarrow> orderly w (v\<lparr>w_tx := d'\<rparr>)"
  by (simp add: orderly_def rows_added_def fully_stored_def good_shard_def kept_ids_def)

lemma upload_runs:
  assumes "fleet_ok w" and "constraints_ok (w_db w)"
    and "with_session (upload_file E owner filename content_type data k m ip) w = (r, w')"
  shows "orderly w w'"
    and "r = Inr g \<Longrightarrow> \<exists>f. upload_done E (w\<lparr>w_tx := w_db w\<rparr>) (u_id owner) filename content_type data k m ip f
      (w'\<lparr>w_tx := w_tx w'\<rparr>) \<and> g = f\<lparr>f_status := Available\<rparr>"
proof -
  let ?w = "w\<lparr>w_tx := w_db w\<rparr>"
  obtain v where run: "upload_file E owner filename content_type data k m ip ?w = (r, v)"
    and w': "w' = v\<lparr>w_tx := w_db v\<rparr>"
    using assms(3) by (rule with_session_run)
  have db: "constraints_ok (w_db ?w)" and base: "base ?w ?w" using assms(1,2) by (simp_all add: base_def)
  note t = upload_file_triple [OF db, of E owner filename content_type data k m ip]
  have "orderly ?w v"
  proof (cases r)
    case (Inl e)
    from triple_InlD [OF t base run [unfolded Inl]] show ?thesis
      by (elim disjE exE conjE)
        (erule undone_orderly [OF db] partial_orderly done_orderly [THEN conjunct1])+
  next
    case (Inr g)
    from triple_InrD [OF t base run [unfolded Inr]] show ?thesis
      by (elim exE conjE) (erule done_orderly [THEN conjunct1])
  qed
  then show "orderly w w'" unfolding w' by (rule orderly_session)
  show "\<exists>f. upload_done E ?w (u_id owner) filename content_type data k m ip f
      (w'\<lparr>w_tx := w_tx w'\<rparr>) \<and> g = f\<lparr>f_status := Available\<rparr>" if "r = Inr g"
    using triple_InrD [OF t base run [unfolded that]]
    by (simp add: w' upload_done_def finished_def only_at_def)
qed

text \<open>
  C3. An upload is all or nothing, whatever requests and database round trips fail and wherever it
  stops. The database changes by at most one new file, with its shards, on distinct nodes, and audit row. The new file is
  only ever \<open>Available\<close> when every one of its k + m shards is stored on the node its row names, with
  the recorded checksum. Every shard file the upload leaves on a node is recorded by a row
  (so a later clean-up finds it), no shard file of an earlier row changes, and the constraints of the
  database hold.
\<close>
theorem upload_all_or_nothing:
  assumes "fleet_ok w" and "constraints_ok (w_db w)"
    and "with_session (upload_file E owner filename content_type data k m ip) w = (r, w')"
  shows "fleet_ok w' \<and> constraints_ok (w_db w') \<and>
    (\<forall>a u. held w' a u \<noteq> held w a u \<longrightarrow> held w' a u = None \<or> recorded (w_db w') a u) \<and>
    (\<forall>a u. u \<in> s_id ` set (shards (w_db w)) \<longrightarrow> held w' a u = held w a u) \<and>
    (\<exists>fs ss as. w_db w' = (w_db w)\<lparr>files := files (w_db w) @ fs, shards := shards (w_db w) @ ss,
                             audits := audits (w_db w) @ as\<rparr> \<and>
       length fs \<le> 1 \<and> f_id ` set fs \<supseteq> s_file_id ` set ss \<and> distinct (map s_node_id ss) \<and>
       (\<forall>f \<in> set fs. f_status f = Uploading \<or> f_status f = Available \<and> fully_stored w' f))"
  using upload_runs(1) [OF assms] unfolding orderly_def rows_added_def kept_ids_def .

end
