(* ===== verification/Example.thy ===== *)
theory Example
  imports Files
begin

text \<open>
  A small deployment: three healthy nodes with empty disks, one user, a codec with k = 2 and m = 1 and
  no faults. It serves the witnesses, which apply the theorems to it.
\<close>

definition example_env :: env where
  "example_env = \<lparr>e_ucd = ascii_ucd, e_zfec = parity_codec,
     e_settings = example_settings\<lparr>settings.node_token := ns_token example_node\<rparr>\<rparr>"

definition example_address :: "nat \<Rightarrow> pystr" where
  "example_address i = [110, 48 + i]"

definition example_owner :: user_row where
  "example_owner = \<lparr>u_id = 1, u_email = [117], u_api_key_hash = replicate 64 48, u_created_at = 0\<rparr>"

definition example_row :: "nat \<Rightarrow> node_row" where
  "example_row i = \<lparr>n_id = of_nat (10 + i), n_address = example_address i, n_status = Healthy,
     n_last_seen_at = None, n_created_at = 0\<rparr>"

definition example_db :: db where
  "example_db = empty_db\<lparr>users := [example_owner], nodes := [example_row 0, example_row 1, example_row 2]\<rparr>"

definition example_world :: world where
  "example_world =
     \<lparr>w_db = example_db, w_tx = example_db,
      w_nodes = (\<lambda>a. if a \<in> set (map example_address [0, 1, 2])
                 then Some \<lparr>nd_settings = example_node, nd_disk = empty_disk, nd_up = True\<rparr> else None),
      w_now = 0, w_sent = 0, w_net = (\<lambda>_ _. None), w_trips = 0, w_dbfault = (\<lambda>_. None),
      w_drawn = 0, w_uuids = (\<lambda>i. of_nat (100 + i)), w_shuffled = 0, w_picks = (\<lambda>_. [])\<rparr>"

lemma example_settings_node: "node_settings_ok example_node" "ns_token example_node = replicate 32 97"
  "ns_max_shard_bytes example_node = 1000"
  by (simp_all add: example_node_def node_settings_ok_def)

lemma disk_ok_empty: "disk_ok empty_disk"
  by (simp add: disk_ok_def empty_disk_def)

lemma example_fleet: "fleet_ok example_world"
  by (simp add: fleet_ok_def example_world_def disk_ok_empty example_settings_node)

lemma example_held: "held example_world a u = None"
  by (simp add: held_def example_world_def empty_disk_def stored_def)

lemma example_constraints: "constraints_ok (w_db example_world)"
  by (simp add: constraints_ok_def row_types_ok_def keys_unique_def references_ok_def example_world_def
      example_db_def empty_db_def user_ok_def node_ok_def text_ok_def encodable_def example_owner_def
      example_row_def example_address_def list_all_iff)

lemma example_ready: "i < 3 \<Longrightarrow> node_ready example_env example_world (example_address i)"
  by (auto simp: node_ready_def example_world_def example_env_def node_token_def example_settings_node
      calm_empty is_ascii_def list_all_iff numeral_3_eq_3 numeral_2_eq_2 less_Suc_eq)

end
