(* ===== verification/UploadSuccess.thy ===== *)
theory UploadSuccess
  imports Upload Example
begin

text \<open>
  When an upload goes through: with k + m healthy rows whose nodes answer, a database that does, and
  identifiers that are new, every step of \<open>upload_file\<close> succeeds. The hypotheses are \<open>upload_ready\<close>.
\<close>

text \<open>The next \<open>c\<close> identifiers drawn are new.\<close>

definition ids_fresh :: "world \<Rightarrow> nat \<Rightarrow> bool" where
  "ids_fresh w c \<longleftrightarrow>
     distinct (map (w_uuids w) [w_drawn w..<w_drawn w + c]) \<and>
     (\<forall>u \<in> set (map (w_uuids w) [w_drawn w..<w_drawn w + c]).
        u \<notin> f_id ` set (files (w_db w)) \<and> u \<notin> s_id ` set (shards (w_db w)) \<and>
        u \<notin> a_id ` set (audits (w_db w)) \<and> (\<forall>n \<in> set (nodes (w_db w)). held w (n_address n) u = None))"

definition upload_ready ::
  "env \<Rightarrow> world \<Rightarrow> user_row \<Rightarrow> pystr \<Rightarrow> pystr \<Rightarrow> bytes \<Rightarrow> nat \<Rightarrow> nat \<Rightarrow> bytes list \<Rightarrow> bool" where
  "upload_ready E w owner filename content_type data k m blocks \<longleftrightarrow>
     (\<forall>j. w_dbfault w j = None) \<and> ids_fresh w (k + m + 2) \<and>
     encode (e_zfec E) data k m = Inr blocks \<and> length blocks = k + m \<and>
     k + m \<le> length (filter (\<lambda>n. n_status n = Healthy) (nodes (w_db w))) \<and>
     (\<forall>n \<in> set (nodes (w_db w)). n_status n = Healthy \<longrightarrow>
        node_ready E w (n_address n) \<and> (\<forall>b \<in> set blocks. node_fits w (n_address n) b)) \<and>
     owner \<in> set (users (w_db w)) \<and> text_ok filename \<and> text_ok content_type \<and>
     0 < length data \<and> length data < 2 ^ 63 \<and> 1 \<le> k \<and> k < 2 ^ 14 \<and> 1 \<le> m \<and> m < 2 ^ 14 \<and>
     (\<forall>b \<in> set blocks. length b < 2 ^ 63)"

section \<open>The new rows satisfy the constraints\<close>

lemma text_ok_hex: "text_ok (sha256_hex x)"
proof -
  have "is_ascii (sha256_hex x)" "0 \<notin> set (sha256_hex x)"
    using sha256_hex_lhex [of 0 x] by (auto simp: is_lhex_def)
  then show ?thesis by (fastforce simp: text_ok_def encodable_def is_ascii_def list_all_iff)
qed

lemma constraints_started:
  assumes d: "constraints_ok d" and f: "file_ok f" "f_id f \<notin> f_id ` set (files d)"
    and owner: "f_owner_user_id f \<in> u_id ` set (users d)"
    and ss: "\<And>s. s \<in> set ss \<Longrightarrow> shard_ok s \<and> s_file_id s = f_id f \<and> s_node_id s \<in> n_id ` set (nodes d)"
      "distinct (map s_id ss)" "s_id ` set ss \<inter> s_id ` set (shards d) = {}" "distinct (map s_shard_index ss)"
  shows "constraints_ok (db_started f ss d)"
proof -
  have old: "s_file_id s \<noteq> f_id f" if "s \<in> set (shards d)" for s
    using references_okD(2) [OF constraints_okD(3) [OF d] that] f(2) by metis
  have "map (\<lambda>s. (s_file_id s, s_shard_index s)) ss = map (Pair (f_id f)) (map s_shard_index ss)"
    using ss(1) by simp
  then have "distinct (map (\<lambda>s. (s_file_id s, s_shard_index s)) ss)"
    using ss(4) by (simp only: distinct_map) (simp add: inj_on_def)
  moreover have "(\<lambda>s. (s_file_id s, s_shard_index s)) ` set (shards d) \<inter>
      (\<lambda>s. (s_file_id s, s_shard_index s)) ` set ss = {}"
    using old ss(1) by fastforce
  ultimately have "keys_unique (db_started f ss d)"
    using d f(2) ss(2,3) by (auto simp: constraints_ok_def keys_unique_def db_started_def add_shards_def add_file_def)
  moreover have "row_types_ok (db_started f ss d)"
    using d f(1) ss(1) by (auto simp: constraints_ok_def row_types_ok_def db_started_def add_shards_def add_file_def list_all_iff)
  moreover have "references_ok (db_started f ss d)"
    by (rule references_okI)
      (use references_okD [OF constraints_okD(3) [OF d]] owner ss(1) in
        \<open>auto simp: db_started_def add_shards_def add_file_def\<close>)
  ultimately show ?thesis by (simp add: constraints_ok_def)
qed

lemma set_file_tables:
  "users (set_file i g d) = users d" "nodes (set_file i g d) = nodes d" "shards (set_file i g d) = shards d"
  "audits (set_file i g d) = audits d"
  by (simp_all add: set_file_def)

lemma constraints_set_file:
  assumes "constraints_ok d"
    and "\<And>f. f \<in> set (files d) \<Longrightarrow> f_id f = i \<Longrightarrow>
      file_ok (g f) \<and> f_id (g f) = i \<and> f_owner_user_id (g f) = f_owner_user_id f"
  shows "constraints_ok (set_file i g d)"
proof -
  let ?g = "\<lambda>f. if f_id f = i then g f else f"
  have id: "map f_id (map ?g (files d)) = map f_id (files d)"
    using assms(2) by simp
  from arg_cong [OF this, of set] have ids: "f_id ` ?g ` set (files d) = f_id ` set (files d)"
    by (simp only: set_map)
  have "map f_id (files (set_file i g d)) = map f_id (files d)"
    using id by (simp add: set_file_def)
  then have "keys_unique (set_file i g d)"
    using constraints_okD(2) [OF assms(1)] unfolding keys_unique_def by (metis set_file_tables)
  moreover have "row_types_ok (set_file i g d)"
    using assms by (auto simp: constraints_ok_def row_types_ok_def set_file_def list_all_iff)
  moreover have "references_ok (set_file i g d)"
  proof (rule references_okI)
    fix f
    assume "f \<in> set (files (set_file i g d))"
    then show "f_owner_user_id f \<in> u_id ` set (users (set_file i g d))"
      using references_okD(1) [OF constraints_okD(3) [OF assms(1)]] assms(2) by (auto simp: set_file_def)
  qed (use references_okD [OF constraints_okD(3) [OF assms(1)]] ids in \<open>auto simp: set_file_def\<close>)
  ultimately show ?thesis by (simp add: constraints_ok_def)
qed

lemma constraints_add_audit:
  assumes "constraints_ok d" and "audit_ok a" and "a_id a \<notin> a_id ` set (audits d)"
    and "\<And>i. a_file_id a = Some i \<Longrightarrow> i \<in> f_id ` set (files d)"
    and "\<And>i. a_actor_user_id a = Some i \<Longrightarrow> i \<in> u_id ` set (users d)"
  shows "constraints_ok (add_audit a d)"
proof -
  have "references_ok (add_audit a d)"
    by (rule references_okI)
      (use references_okD [OF constraints_okD(3) [OF assms(1)]] assms(4,5) in \<open>auto simp: add_audit_def\<close>)
  moreover have "row_types_ok (add_audit a d)" "keys_unique (add_audit a d)"
    using assms(1-3) by (simp_all add: constraints_ok_def row_types_ok_def keys_unique_def add_audit_def)
  ultimately show ?thesis by (simp add: constraints_ok_def)
qed

lemma ids_freshD:
  assumes "ids_fresh w c" and "i < c"
  shows "w_uuids w (w_drawn w + i) \<notin> f_id ` set (files (w_db w))"
    and "w_uuids w (w_drawn w + i) \<notin> s_id ` set (shards (w_db w))"
    and "w_uuids w (w_drawn w + i) \<notin> a_id ` set (audits (w_db w))"
    and "n \<in> set (nodes (w_db w)) \<Longrightarrow> held w (n_address n) (w_uuids w (w_drawn w + i)) = None"
proof -
  have "w_uuids w (w_drawn w + i) \<in> set (map (w_uuids w) [w_drawn w..<w_drawn w + c])"
    using assms(2) by simp
  note f = bspec [OF conjunct2 [OF assms(1) [unfolded ids_fresh_def]] this]
  show "w_uuids w (w_drawn w + i) \<notin> f_id ` set (files (w_db w))"
    "w_uuids w (w_drawn w + i) \<notin> s_id ` set (shards (w_db w))"
    "w_uuids w (w_drawn w + i) \<notin> a_id ` set (audits (w_db w))"
    "n \<in> set (nodes (w_db w)) \<Longrightarrow> held w (n_address n) (w_uuids w (w_drawn w + i)) = None"
    using f by blast+
qed

section \<open>Each step succeeds\<close>

lemma node_ready_updates [simp]:
  "node_ready E (w\<lparr>w_trips := k\<rparr>) a = node_ready E w a" "node_ready E (w\<lparr>w_tx := d\<rparr>) a = node_ready E w a"
  "node_ready E (w\<lparr>w_db := d\<rparr>) a = node_ready E w a" "node_ready E (w\<lparr>w_drawn := k\<rparr>) a = node_ready E w a"
  "node_ready E (w\<lparr>w_shuffled := k\<rparr>) a = node_ready E w a"
  by (simp_all add: node_ready_def)

lemma node_fits_updates [simp]:
  "node_fits (w\<lparr>w_trips := k\<rparr>) a x = node_fits w a x" "node_fits (w\<lparr>w_tx := d\<rparr>) a x = node_fits w a x"
  "node_fits (w\<lparr>w_db := d\<rparr>) a x = node_fits w a x" "node_fits (w\<lparr>w_drawn := k\<rparr>) a x = node_fits w a x"
  "node_fits (w\<lparr>w_shuffled := k\<rparr>) a x = node_fits w a x"
  by (simp_all add: node_fits_def)

lemma db_select_run: "w_dbfault w (w_trips w) = None \<Longrightarrow>
    db_select f w = (Inr (f (w_tx w)), w\<lparr>w_trips := Suc (w_trips w)\<rparr>)"
  by (simp add: db_select_def db_trip_def Let_def)

lemma db_commit_run: "w_dbfault w (w_trips w) = None \<Longrightarrow> constraints_ok (w_tx w) \<Longrightarrow>
    db_commit w = (Inr (), w\<lparr>w_trips := Suc (w_trips w), w_db := w_tx w\<rparr>)"
  by (simp add: db_commit_def Let_def)

lemma mapM_shards_run:
  "mapM (\<lambda>(index, n, block). bnd uuid4 (\<lambda>i. ret (new_shard i now fid k index n block))) xs w
     = (Inr (map (\<lambda>((index, n, block), u). new_shard u now fid k index n block)
              (zip xs (map (w_uuids w) [w_drawn w..<w_drawn w + length xs]))),
        w\<lparr>w_drawn := w_drawn w + length xs\<rparr>)"
proof (induction xs arbitrary: w)
  case (Cons x xs)
  then show ?case
    by (cases x) (simp add: bnd_apply uuid4_def io_simps upt_conv_Cons [of "w_drawn w" "Suc (w_drawn w + length xs)"] del: upt_Suc)
qed (simp add: io_simps)

definition numbered ::
  "(nat \<Rightarrow> uuid) \<Rightarrow> nat \<Rightarrow> int \<Rightarrow> uuid \<Rightarrow> nat \<Rightarrow> node_row list \<Rightarrow> bytes list \<Rightarrow> shard_row list" where
  "numbered U d now fid k placement blocks =
     map (\<lambda>j. new_shard (U (d + j)) now fid k j (placement ! j) (blocks ! j)) [0..<length blocks]"

lemma make_shards_run:
  assumes "length placement = length blocks"
  shows "make_shards now fid k placement blocks w =
    (Inr (numbered (w_uuids w) (w_drawn w) now fid k placement blocks),
     w\<lparr>w_drawn := w_drawn w + length blocks\<rparr>)"
proof -
  have "map (\<lambda>((index, n, block), u). new_shard u now fid k index n block)
      (zip (zip [0..<length blocks] (zip placement blocks)) (map (w_uuids w) [w_drawn w..<w_drawn w + length blocks]))
    = numbered (w_uuids w) (w_drawn w) now fid k placement blocks"
    using assms by (intro nth_equalityI) (simp_all add: numbered_def)
  then show ?thesis using assms by (simp add: make_shards_def mapM_shards_run)
qed

lemma numbered_rows:
  fixes now fid k
  assumes "ids_fresh w c" and "Suc (length blocks) \<le> c" and "length placement = length blocks"
    and "\<And>n. n \<in> set placement \<Longrightarrow> n \<in> set (nodes (w_db w))"
    and "length blocks < 2 ^ 15" and "\<And>b. b \<in> set blocks \<Longrightarrow> length b < 2 ^ 63"
  defines "ss \<equiv> numbered (w_uuids w) (Suc (w_drawn w)) now fid k placement blocks"
  shows "s \<in> set ss \<Longrightarrow> shard_ok s \<and> s_file_id s = fid \<and> s_node_id s \<in> n_id ` set (nodes (w_db w))"
    and "distinct (map s_id ss)" and "s_id ` set ss \<inter> s_id ` set (shards (w_db w)) = {}"
    and "distinct (map s_shard_index ss)"
    and "s \<in> set ss \<Longrightarrow> n \<in> set (nodes (w_db w)) \<Longrightarrow> held w (n_address n) (s_id s) = None"
proof -
  let ?d = "Suc (w_drawn w)"
  have "map (w_uuids w) [?d..<?d + length blocks]
      = take (length blocks) (drop 1 (map (w_uuids w) [w_drawn w..<w_drawn w + c]))"
    using assms(2) by (simp add: drop_map take_map)
  then have "distinct (map (w_uuids w) [?d..<?d + length blocks])"
    using assms(1) unfolding ids_fresh_def by (metis distinct_drop distinct_take)
  moreover have "map s_id ss = map (w_uuids w) [?d..<?d + length blocks]"
    by (rule nth_equalityI) (simp_all add: ss_def numbered_def new_shard_def del: upt_Suc)
  ultimately show "distinct (map s_id ss)" by simp
  have fresh: "\<exists>j < c. s_id s = w_uuids w (w_drawn w + j)" if s: "s \<in> set ss" for s
  proof -
    obtain j where "j < length blocks" "s_id s = w_uuids w (Suc (w_drawn w) + j)"
      using s by (auto simp: ss_def numbered_def new_shard_def)
    then show ?thesis using assms(2) by (intro exI [where x = "Suc j"]) simp
  qed
  have "s_id s \<notin> s_id ` set (shards (w_db w))" if "s \<in> set ss" for s
    using fresh [OF that] ids_freshD(2) [OF assms(1)] by force
  then show "s_id ` set ss \<inter> s_id ` set (shards (w_db w)) = {}" by blast
  show "s \<in> set ss \<Longrightarrow> n \<in> set (nodes (w_db w)) \<Longrightarrow> held w (n_address n) (s_id s) = None"
    using fresh [of s] ids_freshD(4) [OF assms(1)] by force
  show "distinct (map s_shard_index ss)"
    by (simp add: ss_def numbered_def comp_def new_shard_def)
  assume "s \<in> set ss"
  then obtain j where "j < length blocks" "s = new_shard (w_uuids w (Suc (w_drawn w) + j)) now fid k j (placement ! j) (blocks ! j)"
    by (auto simp: ss_def numbered_def)
  moreover from this have "placement ! j \<in> set (nodes (w_db w))" "length (blocks ! j) < 2 ^ 63"
    using assms(3,4,6) by simp_all
  ultimately show "shard_ok s \<and> s_file_id s = fid \<and> s_node_id s \<in> n_id ` set (nodes (w_db w))"
    using assms(5) text_ok_hex by (simp add: shard_ok_def new_shard_def)
qed

lemma distinct_put_keys:
  assumes "length ss = length placement" and "length blocks = length placement" and "distinct (map n_address placement)"
  shows "distinct (map (\<lambda>p. (n_address (snd (fst p)), s_id (fst (fst p)))) (zip (zip ss placement) blocks))"
proof -
  have "map (\<lambda>p. (n_address (snd (fst p)), s_id (fst (fst p)))) (zip (zip ss placement) blocks)
      = map (\<lambda>p. (n_address (snd p), s_id (fst p))) (zip ss placement)"
    using assms(1,2) by (intro nth_equalityI) auto
  then show ?thesis using distinct_placed [OF assms(3,1)] by simp
qed

text \<open>Sending the shards to nodes that answer succeeds and changes nothing but the nodes.\<close>

lemma put_placed_run:
  assumes "fleet_ok w" and "length ss = length placement" and "length blocks = length placement"
    and "distinct (map n_address placement)"
    and "\<And>n b. n \<in> set placement \<Longrightarrow> b \<in> set blocks \<Longrightarrow> node_ready E w (n_address n) \<and> node_fits w (n_address n) b"
    and "\<And>n s. n \<in> set placement \<Longrightarrow> s \<in> set ss \<Longrightarrow> held w (n_address n) (s_id s) = None"
  obtains w' rs where "put_placed E (zip (zip ss placement) blocks) w = (Inr rs, w')"
    "\<not> list_ex is_failure rs" "rest_of w' = rest_of w"
proof -
  let ?ps = "zip (zip ss placement) blocks"
  obtain rs w' where run: "put_placed E ?ps w = (Inr rs, w')"
    using gather_total [of _ ?ps w] unfolding put_placed_def by blast
  note run' = run [unfolded put_placed_def]
  note keys = distinct_put_keys [OF assms(2,3,4)]
  have rest: "rest_of w' = rest_of w" using fleet.put_all [OF assms(1) keys run'] by simp
  have "fst (put_placed E ?ps w) = Inr (replicate (length ?ps) (Inr ()))"
    unfolding put_placed_def
  proof (rule fleet.put_all_ready [OF assms(1) keys])
    fix p
    assume "p \<in> set ?ps"
    then have "fst (fst p) \<in> set ss" "snd (fst p) \<in> set placement" "snd p \<in> set blocks"
      by (metis prod.collapse set_zip_leftD set_zip_rightD)+
    then show "node_ready E w (n_address (snd (fst p))) \<and> node_fits w (n_address (snd (fst p))) (snd p) \<and>
        held w (n_address (snd (fst p))) (s_id (fst (fst p))) = None"
      using assms(5,6) by blast
  qed
  then have "\<not> list_ex is_failure rs" using run by (auto simp: list_ex_iff)
  then show ?thesis using that run rest by blast
qed

lemma rest_of_fields:
  assumes "rest_of w' = rest_of w"
  shows "w_trips w' = w_trips w" "w_dbfault w' = w_dbfault w" "w_uuids w' = w_uuids w" "w_drawn w' = w_drawn w"
    "w_now w' = w_now w" "w_net w' = w_net w"
  using assms [THEN arg_cong, of w_trips] assms [THEN arg_cong, of w_dbfault] assms [THEN arg_cong, of w_uuids]
    assms [THEN arg_cong, of w_drawn] assms [THEN arg_cong, of w_now] assms [THEN arg_cong, of w_net]
  by (simp_all add: rest_of_def)

text \<open>What an upload from a given world decides: the nodes, and the rows it will write.\<close>

definition picked_nodes :: "world \<Rightarrow> nat \<Rightarrow> node_row list" where
  "picked_nodes w n = take n (pick_order (w_picks w (w_shuffled w)) (filter (\<lambda>n. n_status n = Healthy) (nodes (w_db w))))"

definition next_file :: "world \<Rightarrow> uuid \<Rightarrow> pystr \<Rightarrow> pystr \<Rightarrow> bytes \<Rightarrow> nat \<Rightarrow> nat \<Rightarrow> file_row" where
  "next_file w owner filename content_type data k m =
     new_file (w_uuids w (w_drawn w)) (w_now w) owner filename content_type data (sha256_hex data) k m"

definition next_shards :: "world \<Rightarrow> nat \<Rightarrow> nat \<Rightarrow> bytes list \<Rightarrow> shard_row list" where
  "next_shards w k n blocks =
     numbered (w_uuids w) (Suc (w_drawn w)) (w_now w) (w_uuids w (w_drawn w)) k (picked_nodes w n) blocks"

definition next_audit :: "world \<Rightarrow> nat \<Rightarrow> uuid \<Rightarrow> pystr option \<Rightarrow> audit_row" where
  "next_audit w n owner ip =
     \<lparr>a_id = w_uuids w (Suc (w_drawn w) + n), a_file_id = Some (w_uuids w (w_drawn w)), a_actor_user_id = Some owner,
      a_event_type = file_uploaded, a_ttl_seconds = None, a_ip_address = ip, a_created_at = w_now w\<rparr>"

lemma next_file_id [simp]: "f_id (next_file w owner filename content_type data k m) = w_uuids w (w_drawn w)"
  by (simp add: next_file_def new_file_def)

lemma picked_ok:
  assumes "constraints_ok (w_db w)" and "upload_ready E w owner filename content_type data k m blocks"
  shows "length (picked_nodes w (k + m)) = k + m" and "distinct (map n_address (picked_nodes w (k + m)))"
    and "n \<in> set (picked_nodes w (k + m)) \<Longrightarrow> n \<in> set (nodes (w_db w)) \<and> n_status n = Healthy"
proof -
  have "chosen (w_db w) (k + m) (picked_nodes w (k + m))"
    unfolding picked_nodes_def
    by (rule chosen_sample [OF assms(1) mset_pick_order]) (use assms(2) in \<open>simp add: upload_ready_def\<close>)
  then show "length (picked_nodes w (k + m)) = k + m" "distinct (map n_address (picked_nodes w (k + m)))"
    "n \<in> set (picked_nodes w (k + m)) \<Longrightarrow> n \<in> set (nodes (w_db w)) \<and> n_status n = Healthy"
    by (auto simp: chosen_def)
qed

lemma next_shards_ok:
  assumes db: "constraints_ok (w_db w)" and r: "upload_ready E w owner filename content_type data k m blocks"
  defines "ss \<equiv> next_shards w k (k + m) blocks"
  shows "length ss = k + m"
    and "s \<in> set ss \<Longrightarrow> shard_ok s \<and> s_file_id s = w_uuids w (w_drawn w) \<and> s_node_id s \<in> n_id ` set (nodes (w_db w))"
    and "distinct (map s_id ss)" and "s_id ` set ss \<inter> s_id ` set (shards (w_db w)) = {}"
    and "distinct (map s_shard_index ss)"
    and "s \<in> set ss \<Longrightarrow> n \<in> set (nodes (w_db w)) \<Longrightarrow> held w (n_address n) (s_id s) = None"
proof -
  have fresh: "ids_fresh w (k + m + 2)" and len: "Suc (length blocks) \<le> k + m + 2"
    "length (picked_nodes w (k + m)) = length blocks" "length blocks < 2 ^ 15"
    and small: "\<And>b. b \<in> set blocks \<Longrightarrow> length b < 2 ^ 63"
    using r picked_ok(1) [OF db r] by (simp_all add: upload_ready_def)
  have on: "\<And>n. n \<in> set (picked_nodes w (k + m)) \<Longrightarrow> n \<in> set (nodes (w_db w))" using picked_ok(3) [OF db r] by blast
  note rows = numbered_rows [OF fresh len(1,2) on len(3) small, where now = "w_now w" and fid = "w_uuids w (w_drawn w)" and k = k,
      folded next_shards_def, folded ss_def]
  show "length ss = k + m" using r by (simp add: ss_def next_shards_def numbered_def upload_ready_def)
  show "s \<in> set ss \<Longrightarrow> shard_ok s \<and> s_file_id s = w_uuids w (w_drawn w) \<and> s_node_id s \<in> n_id ` set (nodes (w_db w))"
    by (rule rows(1))
  show "distinct (map s_id ss)" "s_id ` set ss \<inter> s_id ` set (shards (w_db w)) = {}" "distinct (map s_shard_index ss)"
    using rows(2-4) by simp_all
  show "s \<in> set ss \<Longrightarrow> n \<in> set (nodes (w_db w)) \<Longrightarrow> held w (n_address n) (s_id s) = None" by (rule rows(5))
qed

text \<open>Both transactions are consistent.\<close>

lemma started_consistent:
  assumes db: "constraints_ok (w_db w)" and r: "upload_ready E w owner filename content_type data k m blocks"
  shows "constraints_ok (db_started (next_file w (u_id owner) filename content_type data k m)
    (next_shards w k (k + m) blocks) (w_db w))"
proof (rule constraints_started [OF db])
  show "file_ok (next_file w (u_id owner) filename content_type data k m)"
    using r text_ok_hex by (simp add: upload_ready_def next_file_def new_file_def file_ok_def)
  show "f_id (next_file w (u_id owner) filename content_type data k m) \<notin> f_id ` set (files (w_db w))"
    using r ids_freshD(1) [of w "k + m + 2" 0] by (simp add: upload_ready_def)
  show "f_owner_user_id (next_file w (u_id owner) filename content_type data k m) \<in> u_id ` set (users (w_db w))"
    using r by (simp add: upload_ready_def next_file_def new_file_def)
qed (use next_shards_ok [OF db r] in simp_all)

lemma finished_consistent:
  assumes db: "constraints_ok (w_db w)" and r: "upload_ready E w owner filename content_type data k m blocks"
  shows "constraints_ok (db_finished (next_file w (u_id owner) filename content_type data k m)
    (next_shards w k (k + m) blocks) (next_audit w (k + m) (u_id owner) ip) (w_db w))"
proof -
  let ?f = "next_file w (u_id owner) filename content_type data k m"
  let ?d = "db_started ?f (next_shards w k (k + m) blocks) (w_db w)"
  let ?e = "set_file (f_id ?f) (\<lambda>f. f\<lparr>f_status := Available\<rparr>) ?d"
  have tables: "users ?d = users (w_db w)" "audits ?d = audits (w_db w)" "files ?d = files (w_db w) @ [?f]"
    by (simp_all add: db_started_def add_shards_def add_file_def)
  have "file_ok (g\<lparr>f_status := Available\<rparr>) = file_ok g" for g by (simp add: file_ok_def)
  then have "constraints_ok ?e"
    using started_consistent [OF db r]
    by (intro constraints_set_file) (simp_all add: constraints_ok_def row_types_ok_def list_all_iff)
  then show ?thesis
    unfolding db_finished_def
  proof (rule constraints_add_audit)
    show "a_id (next_audit w (k + m) (u_id owner) ip) \<notin> a_id ` set (audits ?e)"
      using r ids_freshD(3) [of w "k + m + 2" "Suc (k + m)"]
      by (simp add: next_audit_def set_file_tables tables upload_ready_def)
    show "a_actor_user_id (next_audit w (k + m) (u_id owner) ip) = Some j \<Longrightarrow> j \<in> u_id ` set (users ?e)" for j
      using r by (auto simp: next_audit_def set_file_tables tables upload_ready_def)
    show "a_file_id (next_audit w (k + m) (u_id owner) ip) = Some j \<Longrightarrow> j \<in> f_id ` set (files ?e)" for j
      by (simp add: next_audit_def set_file_def tables)
  qed (simp add: audit_ok_def next_audit_def)
qed

text \<open>The world in which the shards are sent.\<close>

definition sending_world :: "world \<Rightarrow> nat \<Rightarrow> db \<Rightarrow> world" where
  "sending_world w n d =
     w\<lparr>w_shuffled := Suc (w_shuffled w), w_drawn := Suc (w_drawn w + n), w_tx := d, w_trips := Suc (Suc (w_trips w)),
       w_db := d\<rparr>"

lemma sending_world_simps [simp]:
  "fleet_ok (sending_world w n d) = fleet_ok w" "held (sending_world w n d) = held w"
  "node_ready E (sending_world w n d) a = node_ready E w a" "node_fits (sending_world w n d) a x = node_fits w a x"
  by (simp_all add: sending_world_def)

lemma shards_taken:
  assumes w: "fleet_ok w" and db: "constraints_ok (w_db w)"
    and r: "upload_ready E w owner filename content_type data k m blocks"
  obtains v rs where
    "put_placed E (zip (zip (next_shards w k (k + m) blocks) (picked_nodes w (k + m))) blocks) (sending_world w (k + m) d) = (Inr rs, v)"
    "\<not> list_ex is_failure rs" "rest_of v = rest_of (sending_world w (k + m) d)"
proof (rule put_placed_run [of "sending_world w (k + m) d" "next_shards w k (k + m) blocks" "picked_nodes w (k + m)" blocks E])
  show "fleet_ok (sending_world w (k + m) d)" using w by simp
  show "length (next_shards w k (k + m) blocks) = length (picked_nodes w (k + m))"
    "length blocks = length (picked_nodes w (k + m))" "distinct (map n_address (picked_nodes w (k + m)))"
    using next_shards_ok(1) [OF db r] picked_ok(1,2) [OF db r] r by (simp_all add: upload_ready_def)
next
  fix n b
  assume "n \<in> set (picked_nodes w (k + m))" "b \<in> set blocks"
  then show "node_ready E (sending_world w (k + m) d) (n_address n) \<and> node_fits (sending_world w (k + m) d) (n_address n) b"
    using r picked_ok(3) [OF db r] by (simp add: upload_ready_def)
next
  fix n s
  assume "n \<in> set (picked_nodes w (k + m))" "s \<in> set (next_shards w k (k + m) blocks)"
  then show "held (sending_world w (k + m) d) (n_address n) (s_id s) = None"
    using next_shards_ok(6) [OF db r] picked_ok(3) [OF db r] by simp
qed (rule that)

text \<open>The steps before the shards are sent, run in one go.\<close>

lemma upload_starts:
  assumes db: "constraints_ok (w_db w)" and r: "upload_ready E w owner filename content_type data k m blocks"
  defines "f \<equiv> next_file w (u_id owner) filename content_type data k m" and "ss \<equiv> next_shards w k (k + m) blocks"
  shows "upload_file E owner filename content_type data k m ip (w\<lparr>w_tx := w_db w\<rparr>) =
    bnd (put_placed E (zip (zip ss (picked_nodes w (k + m))) blocks)) (\<lambda>results.
      if list_ex is_failure results
      then seq (roll_back_upload E f (zip ss (picked_nodes w (k + m)))) (raise UploadFailedError)
      else seq (db_stage (set_file (f_id f) (\<lambda>f. f\<lparr>f_status := Available\<rparr>)))
        (seq (audit_record file_uploaded (Some (f_id f)) (Some (u_id owner)) None ip)
        (seq db_commit (ret (f\<lparr>f_status := Available\<rparr>)))))
    (sending_world w (k + m) (db_started f ss (w_db w)))"
proof -
  have make: "make_shards (w_now w) (w_uuids w (w_drawn w)) k (picked_nodes w (k + m)) blocks u =
      (Inr ss, u\<lparr>w_drawn := Suc (w_drawn w + (k + m))\<rparr>)" if "w_uuids u = w_uuids w" "w_drawn u = Suc (w_drawn w)" for u
    using that make_shards_run [of "picked_nodes w (k + m)" blocks] picked_ok(1) [OF db r] r
    by (simp add: ss_def next_shards_def upload_ready_def)
  have "k + m \<le> length (filter (\<lambda>n. n_status n = Healthy) (nodes (w_db w)))" "encode (e_zfec E) data k m = Inr blocks"
    "w_dbfault w j = None" for j
    using r by (simp_all add: upload_ready_def)
  moreover have "add_shards ss (add_file f (w_db w)) = db_started f ss (w_db w)" by (simp add: db_started_def)
  moreover obtain x v where "put_placed E (zip (zip ss (picked_nodes w (k + m))) blocks)
      (sending_world w (k + m) (db_started f ss (w_db w))) = (x, v)"
    by fastforce
  ultimately show ?thesis
    using started_consistent [OF db r, folded f_def ss_def] make
    by (simp add: upload_file_def lift_erasure_def healthy_nodes_def bnd_apply ret_apply db_select_run
        random_sample_def random_shuffle_def gets_apply uuid4_def db_stage_def modify_apply db_commit_run
        sending_world_def f_def Let_def
        flip: picked_nodes_def [of w] next_file_def [of w])
      (cases x; simp add: f_def flip: picked_nodes_def [of w] next_file_def [of w])
qed

lemma upload_goes_through:
  assumes w: "fleet_ok w" "constraints_ok (w_db w)"
    and r: "upload_ready E w owner filename content_type data k m blocks"
  shows "\<exists>f w'. with_session (upload_file E owner filename content_type data k m ip) w = (Inr f, w')"
proof -
  define f where "f = next_file w (u_id owner) filename content_type data k m"
  define ss where "ss = next_shards w k (k + m) blocks"
  define a where "a = next_audit w (k + m) (u_id owner) ip"
  define d1 where "d1 = db_started f ss (w_db w)"
  obtain v rs where put: "put_placed E (zip (zip ss (picked_nodes w (k + m))) blocks) (sending_world w (k + m) d1) = (Inr rs, v)"
    and all: "\<not> list_ex is_failure rs" and rest: "rest_of v = rest_of (sending_world w (k + m) d1)"
    using shards_taken [OF w r] unfolding ss_def by blast
  have v: "w_tx v = d1" "w_dbfault v j = None" "w_uuids v = w_uuids w" "w_drawn v = Suc (w_drawn w + (k + m))"
    "w_now v = w_now w" for j
    using rest_of_rows [OF rest] rest_of_fields [OF rest] r by (simp_all add: sending_world_def upload_ready_def)
  have a: "audit_record file_uploaded (Some (f_id f)) (Some (u_id owner)) None ip u =
      (Inr (), u\<lparr>w_drawn := Suc (w_drawn u), w_tx := add_audit a (w_tx u)\<rparr>)"
    if "w_uuids u = w_uuids w" "w_drawn u = Suc (w_drawn w + (k + m))" "w_now u = w_now w" for u
    using that by (simp add: audit_record_def bnd_apply uuid4_def gets_apply db_stage_def modify_apply a_def next_audit_def f_def)
  have "constraints_ok (add_audit a (set_file (f_id f) (\<lambda>f. f\<lparr>f_status := Available\<rparr>) d1))"
    using finished_consistent [OF w(2) r] by (simp add: db_finished_def a_def f_def ss_def d1_def)
  then have "\<exists>w'. upload_file E owner filename content_type data k m ip (w\<lparr>w_tx := w_db w\<rparr>) = (Inr (f\<lparr>f_status := Available\<rparr>), w')"
    unfolding upload_starts [OF w(2) r, folded f_def ss_def, folded d1_def]
    using put all v by (simp add: bnd_apply a db_stage_def modify_apply db_commit_run ret_apply)
  then show ?thesis by (auto simp: with_session_def)
qed

section \<open>Properties\<close>

lemma example_encode:
  "encode parity_codec [1, 2, 3] 2 1 = Inr [[1, 2], [3, 0], [2, 2]]"
  by code_simp

lemma example_rows: "n \<in> set (nodes (w_db example_world)) \<Longrightarrow> \<exists>i < 3. n = example_row i"
  by (auto simp: example_world_def example_db_def empty_db_def intro: exI [where x = 0] exI [where x = 1] exI [where x = 2])

lemma example_fits: "i < 3 \<Longrightarrow> length b = 2 \<Longrightarrow> node_fits example_world (example_address i) b"
  by (auto simp: node_fits_def example_world_def example_settings_node dec_nat.simps)

lemma example_upload:
  "upload_ready example_env example_world example_owner [97] [98] [1, 2, 3] 2 1 [[1, 2], [3, 0], [2, 2]]"
proof -
  have "ids_fresh example_world 5"
    by (simp add: ids_fresh_def example_held) (simp add: example_world_def example_db_def empty_db_def upt_rec)
  moreover have "3 \<le> length (filter (\<lambda>n. n_status n = Healthy) (nodes (w_db example_world)))"
    by (simp add: example_world_def example_db_def empty_db_def example_row_def)
  moreover have "node_ready example_env example_world (n_address n) \<and>
      (\<forall>b \<in> set [[1, 2], [3, 0], [2, 2]]. node_fits example_world (n_address n) b)"
    if "n \<in> set (nodes (w_db example_world))" for n
    using example_rows [OF that] example_ready example_fits by (auto simp: example_row_def)
  moreover have "example_owner \<in> set (users (w_db example_world))" "w_dbfault example_world j = None" for j
    by (simp_all add: example_world_def example_db_def)
  moreover have "e_zfec example_env = parity_codec" by (simp add: example_env_def)
  ultimately show ?thesis
    unfolding upload_ready_def by (auto simp: example_encode text_ok_def encodable_def simp del: One_nat_def)
qed

text \<open>
  C5. An upload succeeds when it can: if the erasure codec encodes the data, at least k + m rows are
  healthy and their nodes answer and accept blocks of this size, the database answers, the owner exists, the
  values fit their columns and the identifiers drawn are new, then \<open>upload_file\<close> returns a file.
\<close>
theorem upload_succeeds:
  assumes "fleet_ok w" and "constraints_ok (w_db w)"
    and "upload_ready E w owner filename content_type data k m blocks"
  shows "\<exists>f w'. with_session (upload_file E owner filename content_type data k m ip) w = (Inr f, w')"
  using upload_goes_through [OF assms] .

theorem upload_succeeds_witness:
  "\<exists>f w'. with_session (upload_file example_env example_owner [97] [98] [1, 2, 3] 2 1 None) example_world
    = (Inr f, w')"
  by (rule upload_succeeds [OF example_fleet example_constraints example_upload])

text \<open>
  C23. What a returned upload means. The database gained exactly the file (\<open>available\<close>, with the size and
  digest of the data), its k + m shard rows and one \<open>file_uploaded\<close> row. The shards lie on k + m
  different nodes whose rows were healthy, shard j holding block j of the encoding under the checksum recorded
  for it, and a shard file that existed before is unchanged.
\<close>
theorem upload_recorded:
  assumes "fleet_ok w" and "constraints_ok (w_db w)"
    and "with_session (upload_file E owner filename content_type data k m ip) w = (Inr g, w')"
  shows "\<exists>i now placement blocks ss a.
    encode (e_zfec E) data k m = Inr blocks \<and> length placement = k + m \<and> length ss = k + m \<and>
    g = (new_file i now (u_id owner) filename content_type data (sha256_hex data) k m)\<lparr>f_status := Available\<rparr> \<and>
    w_db w' = add_audit a (add_shards ss (add_file g (w_db w))) \<and>
    a_event_type a = file_uploaded \<and> a_file_id a = Some i \<and> a_actor_user_id a = Some (u_id owner) \<and>
    a_ip_address a = ip \<and>
    distinct (map n_id placement) \<and> set placement \<subseteq> {n \<in> set (nodes (w_db w)). n_status n = Healthy} \<and>
    (\<forall>j < k + m. s_shard_index (ss ! j) = j \<and> s_node_id (ss ! j) = n_id (placement ! j) \<and>
       s_checksum_sha256 (ss ! j) = sha256_hex (blocks ! j) \<and>
       held w' (n_address (placement ! j)) (s_id (ss ! j)) = Some (shard_file (blocks ! j))) \<and>
    (\<forall>b u. held w b u \<noteq> None \<longrightarrow> held w' b u = held w b u)"
proof -
  let ?w = "w\<lparr>w_tx := w_db w\<rparr>" and ?v = "w'\<lparr>w_tx := w_tx w'\<rparr>"
  obtain f i now placement blocks ss a where g: "g = f\<lparr>f_status := Available\<rparr>"
    and plan: "upload_plan E (w_db w) data k m i now placement blocks ss"
    and f: "f = new_file i now (u_id owner) filename content_type data (sha256_hex data) k m"
    and fin: "finished ?w f ss placement blocks a ?v" and a: "uploaded_row a i (u_id owner) ip"
    using upload_runs(2) [OF assms refl] unfolding upload_done_def by auto
  have len: "length ss = k + m" "length ss = length placement" using plan by (simp_all add: upload_plan_def)
  have fin': "w_db w' = db_finished f ss a (w_db w)" "constraints_ok (w_db w')"
    "only_at (placed_keys ss placement) ?w ?v"
    "j < length ss \<Longrightarrow> held w (n_address (placement ! j)) (s_id (ss ! j)) = None"
    "j < length ss \<Longrightarrow> held w' (n_address (placement ! j)) (s_id (ss ! j)) = Some (shard_file (blocks ! j))" for j
    using fin by (auto simp: finished_def)
  have rows: "w_db w' = add_audit a (add_shards ss (add_file g (w_db w)))"
    using finished_rows [of f ss a "w_db w"] fin'(1,2) g by metis
  have kept: "\<forall>b u. held w b u \<noteq> None \<longrightarrow> held w' b u = held w b u"
  proof (intro allI impI)
    fix b u
    assume h: "held w b u \<noteq> None"
    show "held w' b u = held w b u"
    proof (cases "(b, u) \<in> placed_keys ss placement")
    case True
    then show ?thesis using h fin'(4) placed_keys_nth [OF len(2)] by auto
    qed (use fin'(3) in \<open>simp add: only_at_def\<close>)
  qed
  have "set placement \<subseteq> {n \<in> set (nodes (w_db w)). n_status n = Healthy}" "distinct (map n_id placement)"
    "encode (e_zfec E) data k m = Inr blocks"
    using plan unfolding upload_plan_def by blast+
  moreover have "a_event_type a = file_uploaded" "a_file_id a = Some i" "a_actor_user_id a = Some (u_id owner)"
    "a_ip_address a = ip"
    using a by (simp_all add: uploaded_row_def)
  moreover have "\<forall>j < k + m. s_shard_index (ss ! j) = j \<and> s_node_id (ss ! j) = n_id (placement ! j) \<and>
       s_checksum_sha256 (ss ! j) = sha256_hex (blocks ! j) \<and>
       held w' (n_address (placement ! j)) (s_id (ss ! j)) = Some (shard_file (blocks ! j))"
    using plan_shard [OF plan] fin'(5) len(1) by simp
  moreover have "length placement = k + m" using len by simp
  ultimately show ?thesis
    using rows kept len(1) g [unfolded f] by (intro exI conjI; (assumption | simp))
qed

text \<open>The upload to the example deployment.\<close>

lemma example_run:
  obtains g w' where
    "with_session (upload_file example_env example_owner [97] [98] [1, 2, 3] 2 1 None) example_world = (Inr g, w')"
  using upload_goes_through [OF example_fleet example_constraints example_upload] by blast

theorem upload_recorded_witness:
  "\<exists>g w'. with_session (upload_file example_env example_owner [97] [98] [1, 2, 3] 2 1 None) example_world = (Inr g, w') \<and>
    files (w_db w') = [g] \<and> f_status g = Available \<and> length (shards (w_db w')) = 3"
proof (rule example_run)
  fix g w'
  assume run: "with_session (upload_file example_env example_owner [97] [98] [1, 2, 3] 2 1 None) example_world
      = (Inr g, w')"
  have "files (w_db w') = [g] \<and> f_status g = Available \<and> length (shards (w_db w')) = 3"
    using upload_recorded [OF example_fleet example_constraints run]
    by (elim exE conjE)
      (simp add: add_audit_def add_shards_def add_file_def example_world_def example_db_def empty_db_def)
  with run show ?thesis by blast
qed

theorem upload_all_or_nothing_witness:
  "\<exists>r w'. with_session (upload_file example_env example_owner [97] [98] [1, 2, 3] 2 1 None)
      (example_world\<lparr>w_net := \<lambda>i a. if i = 1 then Some NotDelivered else None\<rparr>) = (r, w') \<and>
    constraints_ok (w_db w')"
proof -
  let ?w = "example_world\<lparr>w_net := \<lambda>i a. if i = 1 then Some NotDelivered else None\<rparr>"
  obtain r w' where run: "with_session (upload_file example_env example_owner [97] [98] [1, 2, 3] 2 1 None) ?w = (r, w')"
    by fastforce
  have "fleet_ok ?w" "constraints_ok (w_db ?w)"
    using example_fleet example_constraints by (simp_all add: fleet_ok_def)
  from upload_all_or_nothing [OF this run] have "constraints_ok (w_db w')" by (elim conjE)
  with run show ?thesis by (intro exI conjI)
qed

end
