(* ===== verification/Reading.thy ===== *)
theory Reading
  imports Upload
begin

text \<open>
  What the batched reads of \<open>fetch_blocks\<close> collect: only blocks a node holds under the checksum of their
  row, and every candidate that is intact, up to k.
\<close>

section \<open>One batch\<close>

definition accepted :: "(shard_row \<times> node_row) \<times> (exn + bytes) \<Rightarrow> (nat \<times> bytes) option" where
  "accepted r = (case snd r of Inl e \<Rightarrow> None
     | Inr data \<Rightarrow> if sha256_hex data \<noteq> s_checksum_sha256 (fst (fst r)) then None
                   else Some (s_shard_index (fst (fst r)), data))"

definition take_in :: "(nat \<times> bytes) option \<Rightarrow> (nat \<times> bytes) list \<Rightarrow> (nat \<times> bytes) list" where
  "take_in a c = (case a of None \<Rightarrow> c | Some (i, b) \<Rightarrow> dict_set i b c)"

lemma collect_accepted:
  "collect r c = (case snd r of Inl e \<Rightarrow> if is_NodeError e then ret c else raise e
     | Inr _ \<Rightarrow> ret (take_in (accepted r) c))"
  by (auto simp: collect_def accepted_def take_in_def split: prod.split sum.split)

definition gathered :: "((shard_row \<times> node_row) \<times> (exn + bytes)) list \<Rightarrow> (nat \<times> bytes) list \<Rightarrow> (nat \<times> bytes) list" where
  "gathered rs c = foldl (\<lambda>c r. take_in (accepted r) c) c rs"

lemma gathered_simps [simp]: "gathered [] c = c" "gathered (r # rs) c = gathered rs (take_in (accepted r) c)"
  by (simp_all add: gathered_def)

lemma foldM_collect:
  assumes "foldM collect rs c w = (x, w')"
  shows "w' = w" and "x = Inr blocks \<Longrightarrow> blocks = gathered rs c"
    and "x = Inl e \<Longrightarrow> \<not> is_NodeError e \<and> (\<exists>r \<in> set rs. snd r = Inl e)"
proof -
  have "w' = w \<and> (\<forall>blocks. x = Inr blocks \<longrightarrow> blocks = gathered rs c) \<and>
      (\<forall>e. x = Inl e \<longrightarrow> \<not> is_NodeError e \<and> (\<exists>r \<in> set rs. snd r = Inl e))"
    using assms
  proof (induction rs arbitrary: c)
    case (Cons r rs)
    show ?case
    proof (cases "\<exists>e. snd r = Inl e \<and> \<not> is_NodeError e")
      case True
      then show ?thesis using Cons.prems by (auto simp: collect_accepted bnd_apply io_simps)
    next
      case False
      then have "collect r c = ret (take_in (accepted r) c)"
        by (auto simp: collect_accepted accepted_def take_in_def split: sum.split)
      then have "foldM collect rs (take_in (accepted r) c) w = (x, w')" using Cons.prems by simp
      from Cons.IH [OF this] show ?thesis by auto
    qed
  qed simp
  then show "w' = w" "x = Inr blocks \<Longrightarrow> blocks = gathered rs c"
    "x = Inl e \<Longrightarrow> \<not> is_NodeError e \<and> (\<exists>r \<in> set rs. snd r = Inl e)"
    by blast+
qed

lemma take_in_facts:
  "distinct (map fst c) \<Longrightarrow> distinct (map fst (take_in a c))"
  "fst ` set c \<subseteq> fst ` set (take_in a c)"
  "a = Some (i, b) \<Longrightarrow> i \<in> fst ` set (take_in a c)"
  "x \<in> set (take_in a c) \<Longrightarrow> x \<in> set c \<or> a = Some x"
proof -
  have "x \<in> set (dict_set i b c) \<Longrightarrow> x \<in> set c \<or> x = (i, b)" for i b
    by (induction i b c rule: dict_set.induct) (auto split: if_splits)
  then show "x \<in> set (take_in a c) \<Longrightarrow> x \<in> set c \<or> a = Some x"
    by (auto simp: take_in_def split: option.splits)
qed (auto simp: take_in_def distinct_dict_set keys_dict_set split: option.split)

lemma gathered_mono: "fst ` set c \<subseteq> fst ` set (gathered rs c)"
proof (induction rs arbitrary: c)
  case (Cons r rs)
  show ?case using subset_trans [OF take_in_facts(2) Cons, of c "accepted r"] by simp
qed simp

lemma gathered_facts:
  "distinct (map fst c) \<Longrightarrow> distinct (map fst (gathered rs c))"
  "r \<in> set rs \<Longrightarrow> accepted r = Some (i, b) \<Longrightarrow> i \<in> fst ` set (gathered rs c)"
  "x \<in> set (gathered rs c) \<Longrightarrow> x \<in> set c \<or> (\<exists>r \<in> set rs. accepted r = Some x)"
proof -
  show "distinct (map fst c) \<Longrightarrow> distinct (map fst (gathered rs c))"
    by (induction rs arbitrary: c) (simp_all add: take_in_facts(1))
  show "x \<in> set (gathered rs c) \<Longrightarrow> x \<in> set c \<or> (\<exists>r \<in> set rs. accepted r = Some x)"
    by (induction rs arbitrary: c) (auto dest: take_in_facts(4))
  show "r \<in> set rs \<Longrightarrow> accepted r = Some (i, b) \<Longrightarrow> i \<in> fst ` set (gathered rs c)"
  proof (induction rs arbitrary: c)
    case (Cons q rs)
    show ?case
    proof (cases "r = q")
      case True
      then show ?thesis
        using take_in_facts(3) [of "accepted q" i b c] gathered_mono [of "take_in (accepted q) c" rs] Cons.prems by auto
    qed (use Cons in simp)
  qed simp
qed

section \<open>Requests to nodes that answer\<close>

text \<open>Without an exception outside \<open>httpx\<close>'s hierarchy, a read fails with \<open>NodeError\<close> or a subclass.\<close>

definition no_client_bug :: "world \<Rightarrow> bool" where
  "no_client_bug w \<longleftrightarrow> (\<forall>i a. w_net w i a \<noteq> Some ClientBug)"

lemma client_get_error:
  assumes "client_get E a u w = (Inl e, w')" and "\<not> is_NodeError e"
  shows "\<exists>i b. w_net w i b = Some ClientBug"
  using assms
  by (auto simp: client_get_def bnd_apply is_NodeError_def node_request_def Let_def io_simps
      split: prod.splits sum.splits if_splits option.splits)

lemma get_batch_error:
  assumes "fleet_ok w" and "get_batch E batch w = (Inr rs, w')" and "Inl e \<in> set rs" and "\<not> is_NodeError e"
  shows "\<not> no_client_bug w"
  using assms(1-3)
proof (induction batch arbitrary: w rs)
  case (Cons p batch)
  obtain y w1 where get: "client_get E (n_address (snd p)) (s_id (fst p)) w = (y, w1)" by fastforce
  obtain rs' where rs: "rs = y # rs'" "get_batch E batch w1 = (Inr rs', w')"
    using Cons.prems(2) get by (auto simp: get_batch_def gather_Cons bnd_Inr attempt_apply)
  have l: "fleet_ok w1" "rest_of w1 = rest_of w" using client_get_law [OF Cons.prems(1) get] by simp_all
  have net: "w_net w1 = w_net w" using l(2) [THEN arg_cong, of w_net] by (simp add: rest_of_def)
  show ?case
  proof (cases "Inl e \<in> set rs'")
    case True
    then show ?thesis using Cons.IH [OF l(1) rs(2)] net by (simp add: no_client_bug_def)
  next
    case False
    then have y: "y = Inl e" using Cons.prems(3) rs(1) by simp
    show ?thesis using client_get_error [OF get [unfolded y] assms(4)] by (simp add: no_client_bug_def)
  qed
qed (simp add: get_batch_def)

section \<open>The loop\<close>

text \<open>\<open>genuine\<close>: blocks under distinct indices, each held by the node of a candidate under its checksum.\<close>

definition genuine ::
  "(shard_row \<times> node_row) list \<Rightarrow> (pystr \<Rightarrow> uuid \<Rightarrow> bytes option) \<Rightarrow> (nat \<times> bytes) list \<Rightarrow> bool" where
  "genuine C h bs \<longleftrightarrow> distinct (map fst bs) \<and>
     (\<forall>x \<in> set bs. \<exists>p \<in> set C. s_shard_index (fst p) = fst x \<and> sha256_hex (snd x) = s_checksum_sha256 (fst p) \<and>
        h (n_address (snd p)) (s_id (fst p)) = Some (shard_file (snd x)))"

definition sure :: "env \<Rightarrow> world \<Rightarrow> shard_row \<times> node_row \<Rightarrow> bool" where
  "sure E w p \<longleftrightarrow> node_ready E w (n_address (snd p)) \<and> good_shard w p"

definition calls_only :: "env \<Rightarrow> world \<Rightarrow> world \<Rightarrow> bool" where
  "calls_only E w w' \<longleftrightarrow> fleet_ok w' \<and> rest_of w' = rest_of w \<and> held w' = held w \<and>
     (\<forall>b. node_ready E w b \<longrightarrow> node_ready E w' b)"

lemma calls_only_trans: "calls_only E w v \<Longrightarrow> calls_only E v u \<Longrightarrow> calls_only E w u"
  by (simp add: calls_only_def)

lemma calls_only_sure: "calls_only E w v \<Longrightarrow> sure E w p \<Longrightarrow> sure E v p"
  by (simp add: calls_only_def sure_def good_shard_def)

lemma calls_only_net: "calls_only E w v \<Longrightarrow> w_net v = w_net w"
proof -
  assume "calls_only E w v"
  then have "rest_of v = rest_of w" by (simp add: calls_only_def)
  from arg_cong [OF this, of w_net] show "w_net v = w_net w" by (simp add: rest_of_def)
qed

lemma genuine_gathered:
  assumes "genuine C h c" and "set ps \<subseteq> set C"
    and "\<And>p x. (p, Inr x) \<in> set (zip ps rs) \<Longrightarrow> h (n_address (snd p)) (s_id (fst p)) = Some (shard_file x)"
  shows "genuine C h (gathered (zip ps rs) c)"
  unfolding genuine_def
proof (intro conjI ballI)
  show "distinct (map fst (gathered (zip ps rs) c))"
    using assms(1) gathered_facts(1) by (simp add: genuine_def)
  fix x
  assume "x \<in> set (gathered (zip ps rs) c)"
  then consider "x \<in> set c" | p y where "(p, y) \<in> set (zip ps rs)" "accepted (p, y) = Some x"
    using gathered_facts(3) by fastforce
  then show "\<exists>p \<in> set C. s_shard_index (fst p) = fst x \<and> sha256_hex (snd x) = s_checksum_sha256 (fst p) \<and>
      h (n_address (snd p)) (s_id (fst p)) = Some (shard_file (snd x))"
  proof cases
    case 1
    then show ?thesis using assms(1) unfolding genuine_def by blast
  next
    case (2 p y)
    then obtain z where "y = Inr z" "x = (s_shard_index (fst p), z)" "sha256_hex z = s_checksum_sha256 (fst p)"
      by (auto simp: accepted_def split: sum.splits if_splits)
    moreover have "p \<in> set C" using 2(1) assms(2) by (auto dest: set_zip_leftD)
    ultimately show ?thesis using assms(3) 2(1) by auto
  qed
qed

lemma get_batch_run:
  assumes "fleet_ok w" and "get_batch E batch w = (Inr rs, w')"
  shows "calls_only E w w'" and "length rs = length batch"
    and "(p, Inr x) \<in> set (zip batch rs) \<Longrightarrow> held w (n_address (snd p)) (s_id (fst p)) = Some (shard_file x)"
    and "p \<in> set batch \<Longrightarrow> sure E w p \<Longrightarrow>
      \<exists>r \<in> set (zip batch rs). \<exists>x. accepted r = Some (s_shard_index (fst p), x)"
proof -
  note g = fleet.get_all [OF assms(1) assms(2) [unfolded get_batch_def]]
  have effect: "fleet.get_effect E w (n_address (snd p)) (s_id (fst p)) y" if "(p, y) \<in> set (zip batch rs)" for p y
    using g that by blast
  show "calls_only E w w'" unfolding calls_only_def using g by blast
  show "length rs = length batch" using g by blast
  show "(p, Inr x) \<in> set (zip batch rs) \<Longrightarrow> held w (n_address (snd p)) (s_id (fst p)) = Some (shard_file x)"
    using effect [of p "Inr x"] unfolding fleet.get_effect_def by blast
  assume p: "p \<in> set batch" and sure: "sure E w p"
  obtain y where y: "(p, y) \<in> set (zip batch rs)" using p \<open>length rs = length batch\<close> by (metis in_set_impl_in_set_zip1)
  obtain x where x: "held w (n_address (snd p)) (s_id (fst p)) = Some (shard_file x)"
    "sha256_hex x = s_checksum_sha256 (fst p)" using sure by (auto simp: sure_def good_shard_def)
  have "y = Inr x" using effect [OF y] x(1) sure unfolding fleet.get_effect_def sure_def by blast
  then have "accepted (p, y) = Some (s_shard_index (fst p), x)" using x(2) by (simp add: accepted_def)
  then show "\<exists>r \<in> set (zip batch rs). \<exists>x. accepted r = Some (s_shard_index (fst p), x)" using y by blast
qed

lemma fetch_loop_stop: "\<not> (length c < k \<and> rem \<noteq> []) \<Longrightarrow> fetch_loop E k c rem = ret c"
  by (subst fetch_loop.simps) (simp only: if_False)

lemma fetch_loop_round:
  assumes "length c < k \<and> rem \<noteq> []"
  shows "fetch_loop E k c rem =
    bnd (get_batch E (take (k - length c) rem)) (\<lambda>results.
    bnd (foldM collect (zip (take (k - length c) rem) results) c) (\<lambda>c'.
    fetch_loop E k c' (drop (k - length c) rem)))"
  using assms by (subst fetch_loop.simps) (simp add: Let_def)

text \<open>What a number of rounds guarantees, from the blocks \<open>c\<close> on and with the candidates \<open>rem\<close> left.\<close>

definition fetched ::
  "env \<Rightarrow> (shard_row \<times> node_row) list \<Rightarrow> nat \<Rightarrow> (nat \<times> bytes) list \<Rightarrow> (shard_row \<times> node_row) list \<Rightarrow> world
    \<Rightarrow> exn + (nat \<times> bytes) list \<Rightarrow> world \<Rightarrow> bool" where
  "fetched E C k c rem w r w' \<longleftrightarrow> calls_only E w w' \<and>
    (\<forall>bs. r = Inr bs \<longrightarrow> genuine C (held w) bs \<and> fst ` set c \<subseteq> fst ` set bs \<and>
       (k \<le> length bs \<or> (\<forall>p \<in> set rem. sure E w p \<longrightarrow> s_shard_index (fst p) \<in> fst ` set bs))) \<and>
    (\<forall>e. r = Inl e \<longrightarrow> \<not> is_NodeError e \<and> \<not> no_client_bug w)"

text \<open>One round, then more of them.\<close>

lemma fetched_round:
  assumes get: "get_batch E batch w = (Inr rs, w1)" and ok: "fleet_ok w"
    and rest: "fetched E C k (gathered (zip batch rs) c) rem w1 r w'"
  shows "fetched E C k c (batch @ rem) w r w'"
proof -
  note b = get_batch_run [OF ok get]
  have held: "held w1 = held w" using b(1) by (simp add: calls_only_def)
  have keys: "fst ` set c \<subseteq> fst ` set (gathered (zip batch rs) c)" by (rule gathered_mono)
  have taken: "s_shard_index (fst p) \<in> fst ` set (gathered (zip batch rs) c)" if p: "p \<in> set batch" "sure E w p" for p
    using b(4) [OF p] gathered_facts(2) by blast
  show ?thesis
    unfolding fetched_def
  proof (intro conjI allI impI)
    show "calls_only E w w'" by (rule calls_only_trans [OF b(1)]) (use rest in \<open>simp add: fetched_def\<close>)
  next
    fix bs
    assume "r = Inr bs"
    then have I: "genuine C (held w) bs" "fst ` set (gathered (zip batch rs) c) \<subseteq> fst ` set bs"
      "k \<le> length bs \<or> (\<forall>p \<in> set rem. sure E w1 p \<longrightarrow> s_shard_index (fst p) \<in> fst ` set bs)"
      using rest by (simp_all add: fetched_def held)
    show "genuine C (held w) bs" by (rule I(1))
    show "fst ` set c \<subseteq> fst ` set bs" using I(2) keys by (meson subset_trans)
    show "k \<le> length bs \<or> (\<forall>p \<in> set (batch @ rem). sure E w p \<longrightarrow> s_shard_index (fst p) \<in> fst ` set bs)"
      using I(2,3) taken calls_only_sure [OF b(1)] unfolding set_append by (meson UnE subsetD)
  next
    fix e
    assume "r = Inl e"
    then show "\<not> is_NodeError e" "\<not> no_client_bug w"
      using rest calls_only_net [OF b(1)] by (simp_all add: fetched_def no_client_bug_def)
  qed
qed

lemma fetch_loop_run:
  assumes "fetch_loop E k c rem w = (r, w')" and "fleet_ok w" and "set rem \<subseteq> set C" and "genuine C (held w) c"
  shows "fetched E C k c rem w r w'"
  using assms
proof (induction E k c rem arbitrary: w rule: fetch_loop.induct)
  case (1 E k c rem)
  show ?case
  proof (cases "length c < k \<and> rem \<noteq> []")
    case False
    then have "k \<le> length c \<or> rem = []" by auto
    then show ?thesis using 1(2-5) False by (auto simp: fetch_loop_stop calls_only_def fetched_def)
  next
    case True
    let ?n = "k - length c"
    obtain rs w1 where get: "get_batch E (take ?n rem) w = (Inr rs, w1)"
      using gather_total [of _ "take ?n rem" w] unfolding get_batch_def by blast
    note b = get_batch_run [OF 1(3) get]
    obtain x w2 where fold: "foldM collect (zip (take ?n rem) rs) c w1 = (x, w2)" by fastforce
    note f = foldM_collect [OF fold]
    have loop: "bnd (foldM collect (zip (take ?n rem) rs) c) (\<lambda>c'. fetch_loop E k c' (drop ?n rem)) w1 = (r, w')"
      using 1(2) get unfolding fetch_loop_round [OF True] by (simp add: bnd_apply [of "get_batch _ _"])
    show ?thesis
    proof (cases x)
      case (Inl e)
      then have "r = Inl e" "w' = w1" using loop fold f(1) by (simp_all add: bnd_apply)
      moreover have "\<not> is_NodeError e" "\<not> no_client_bug w"
        using f(3) [OF Inl] get_batch_error [OF 1(3) get] set_zip_rightD by (force, fastforce)
      ultimately show ?thesis using b(1) by (simp add: fetched_def)
    next
      case (Inr c')
      have c': "c' = gathered (zip (take ?n rem) rs) c" using f(2) [OF Inr] .
      have sub: "set (take ?n rem) \<subseteq> set C" "set (drop ?n rem) \<subseteq> set C"
        using 1(4) set_take_subset set_drop_subset by fastforce+
      have "genuine C (held w) c'" unfolding c' using genuine_gathered [OF 1(5) sub(1) b(3)] .
      moreover have "fetch_loop E k c' (drop ?n rem) w1 = (r, w')" using loop fold f(1) Inr by (simp add: bnd_apply)
      moreover have "fleet_ok w1" "held w1 = held w" using b(1) by (simp_all add: calls_only_def)
      ultimately have "fetched E C k c' (drop ?n rem) w1 r w'" using 1(1) [OF True refl, of c'] sub(2) by simp
      then show ?thesis using fetched_round [OF get 1(3)] unfolding c' by fastforce
    qed
  qed
qed

section \<open>Reading a file\<close>

lemma set_candidates: "p \<in> set (candidates_of i exclude d) \<longleftrightarrow>
    p \<in> set (placed_shards i d) \<and> n_status (snd p) \<noteq> Decommissioned \<and> s_id (fst p) \<notin> exclude"
  by (cases p) (auto simp: candidates_of_def)

lemma db_select_cases:
  assumes "db_select f w = (r, w')"
  shows "w' = w\<lparr>w_trips := Suc (w_trips w)\<rparr>"
    and "r = (if w_dbfault w (w_trips w) = None then Inr (f (w_tx w)) else Inl OperationalError)"
  using assms by (auto simp: db_select_def db_trip_def Let_def split: option.splits)

lemma genuine_empty: "genuine C h []"
  by (simp add: genuine_def)

text \<open>Reading sends requests and changes neither rows nor what the nodes hold.\<close>

lemma fetch_blocks_run:
  assumes "fetch_blocks E C k w = (r, w')" and "fleet_ok w"
  shows "calls_only E w w'"
    and "r = Inr bs \<Longrightarrow> genuine C (held w) bs"
    and "r = Inr bs \<Longrightarrow> k \<le> length bs \<or> (\<forall>p \<in> set C. sure E w p \<longrightarrow> s_shard_index (fst p) \<in> fst ` set bs)"
    and "r = Inl e \<Longrightarrow> \<not> is_NodeError e \<and> \<not> no_client_bug w"
proof -
  note l = fetch_loop_run [OF assms(1) [unfolded fetch_blocks_def] assms(2) subset_refl genuine_empty, unfolded fetched_def]
  show "calls_only E w w'" using l by (rule conjunct1)
  show "r = Inr bs \<Longrightarrow> genuine C (held w) bs"
    "r = Inr bs \<Longrightarrow> k \<le> length bs \<or> (\<forall>p \<in> set C. sure E w p \<longrightarrow> s_shard_index (fst p) \<in> fst ` set bs)"
    "r = Inl e \<Longrightarrow> \<not> is_NodeError e \<and> \<not> no_client_bug w"
    using l by blast+
qed

lemma read_file_run:
  assumes "read_file E file w = (r, w')" and "fleet_ok w"
  shows "fleet_ok w' \<and> held w' = held w \<and> w_db w' = w_db w \<and> w_tx w' = w_tx w \<and>
    (\<forall>data. r = Inr data \<longrightarrow> sha256_hex data = f_checksum_sha256 file \<and>
      (\<exists>bs. genuine (candidates_of (f_id file) {} (w_tx w)) (held w) bs \<and> f_data_shards file \<le> length bs \<and>
         decode (e_zfec E) bs (f_data_shards file) (f_parity_shards file) (f_size_bytes file) = Inr data))"
proof -
  let ?C = "candidates_of (f_id file) {} (w_tx w)" and ?w = "w\<lparr>w_trips := Suc (w_trips w)\<rparr>"
  show ?thesis
  proof (cases "w_dbfault w (w_trips w)")
    case (Some e)
    then have "r = Inl OperationalError" "w' = ?w"
      using assms(1) by (simp_all add: read_file_def shard_candidates_def bnd_apply db_select_def db_trip_def Let_def)
    then show ?thesis using assms(2) by simp
  next
    case None
    obtain x v where f: "fetch_blocks E ?C (f_data_shards file) ?w = (x, v)" by fastforce
    have run: "(case x of Inl e \<Rightarrow> (Inl e, v) | Inr blocks \<Rightarrow>
       (if length blocks < f_data_shards file then raise FileUnavailableError
        else bnd (lift_erasure (decode (e_zfec E) blocks (f_data_shards file) (f_parity_shards file) (f_size_bytes file)))
          (\<lambda>data. if sha256_hex data \<noteq> f_checksum_sha256 file then raise FileCorruptedError else ret data)) v) = (r, w')"
    proof -
      have "shard_candidates file {} w = (Inr ?C, ?w)"
        using None by (simp add: shard_candidates_def db_select_def db_trip_def)
      then show ?thesis using assms(1) f unfolding read_file_def by (simp add: bnd_run bnd_apply [of "fetch_blocks _ _ _"])
    qed
    note g = fetch_blocks_run [OF f]
    have w: "fleet_ok ?w" using assms(2) by simp
    have v: "fleet_ok v" "held v = held w" "w_db v = w_db w" "w_tx v = w_tx w"
      using g(1) [OF w] rest_of_rows [of v ?w] by (simp_all add: calls_only_def)
    have "w' = v" using run
      by (auto simp: lift_erasure_def bnd_apply io_simps split: sum.splits if_splits)
    moreover have "sha256_hex data = f_checksum_sha256 file \<and>
      (\<exists>bs. genuine ?C (held w) bs \<and> f_data_shards file \<le> length bs \<and>
         decode (e_zfec E) bs (f_data_shards file) (f_parity_shards file) (f_size_bytes file) = Inr data)"
      if "r = Inr data" for data
      using run that g(2) [OF w]
      by (auto simp: lift_erasure_def bnd_apply io_simps split: sum.splits if_splits)
    ultimately show ?thesis using v by blast
  qed
qed

text \<open>
  C4. A read never returns wrong bytes and never changes anything. Whatever the nodes answer, data
  returned by \<open>read_file\<close> has the digest recorded for the file, and it is decoded from at least k blocks
  under distinct indices, each of which a node of a shard row of this file (not a decommissioned one)
  holds under the checksum of that row. The rows and all shard files stay as they were.
\<close>
theorem read_file_verified:
  assumes "fleet_ok w" and "with_session (read_file E file) w = (r, w')"
  shows "held w' = held w \<and> w_db w' = w_db w \<and>
    (\<forall>data. r = Inr data \<longrightarrow> sha256_hex data = f_checksum_sha256 file \<and>
      (\<exists>bs. distinct (map fst bs) \<and> f_data_shards file \<le> length bs \<and>
         decode (e_zfec E) bs (f_data_shards file) (f_parity_shards file) (f_size_bytes file) = Inr data \<and>
         (\<forall>(i, b) \<in> set bs. \<exists>(s, n) \<in> set (placed_shards (f_id file) (w_db w)).
            n_status n \<noteq> Decommissioned \<and> s_shard_index s = i \<and> sha256_hex b = s_checksum_sha256 s \<and>
            held w (n_address n) (s_id s) = Some (shard_file b))))"
proof -
  let ?w = "w\<lparr>w_tx := w_db w\<rparr>"
  obtain v where run: "read_file E file ?w = (r, v)" and w': "w' = v\<lparr>w_tx := w_db v\<rparr>"
    using assms(2) by (rule with_session_run)
  have f: "fleet_ok ?w" using assms(1) by simp
  note l = read_file_run [OF run f]
  have "\<exists>(s, n) \<in> set (placed_shards (f_id file) (w_db w)).
            n_status n \<noteq> Decommissioned \<and> s_shard_index s = i \<and> sha256_hex b = s_checksum_sha256 s \<and>
            held w (n_address n) (s_id s) = Some (shard_file b)"
    if g: "genuine (candidates_of (f_id file) {} (w_tx ?w)) (held ?w) bs" "(i, b) \<in> set bs" for bs i b
  proof -
    have "\<exists>p \<in> set (candidates_of (f_id file) {} (w_db w)). s_shard_index (fst p) = i \<and>
        sha256_hex b = s_checksum_sha256 (fst p) \<and> held w (n_address (snd p)) (s_id (fst p)) = Some (shard_file b)"
      using bspec [OF conjunct2 [OF g(1) [unfolded genuine_def]] g(2)] by simp
    then show ?thesis unfolding Bex_def set_candidates by (auto split: prod.split)
  qed
  moreover have "distinct (map fst bs)" if "genuine C h bs" for C h bs
    using that by (simp add: genuine_def)
  ultimately have "\<exists>bs. distinct (map fst bs) \<and> f_data_shards file \<le> length bs \<and>
         decode (e_zfec E) bs (f_data_shards file) (f_parity_shards file) (f_size_bytes file) = Inr data \<and>
         (\<forall>(i, b) \<in> set bs. \<exists>(s, n) \<in> set (placed_shards (f_id file) (w_db w)).
            n_status n \<noteq> Decommissioned \<and> s_shard_index s = i \<and> sha256_hex b = s_checksum_sha256 s \<and>
            held w (n_address n) (s_id s) = Some (shard_file b))" if "r = Inr data" for data
    using l that by (elim conjE allE [of _ data] impE exE) (assumption, fast)
  then show ?thesis using l w' by simp
qed

section \<open>Surviving losses\<close>

text \<open>A shard of the row list that holds, if anything under its checksum, the block of its index.\<close>

definition authentic :: "bytes list \<Rightarrow> world \<Rightarrow> shard_row \<times> node_row \<Rightarrow> bool" where
  "authentic blocks w p \<longleftrightarrow> s_shard_index (fst p) < length blocks \<and>
     (\<forall>x. held w (n_address (snd p)) (s_id (fst p)) = Some (shard_file x) \<and> sha256_hex x = s_checksum_sha256 (fst p)
        \<longrightarrow> x = blocks ! s_shard_index (fst p))"

lemma genuine_shards:
  assumes "genuine C (held w) bs" and "\<And>p. p \<in> set C \<Longrightarrow> authentic blocks w p"
  shows "shards_from blocks bs"
proof -
  have "i < length blocks \<and> b = blocks ! i" if x: "(i, b) \<in> set bs" for i b
  proof -
    obtain p where "p \<in> set C" "s_shard_index (fst p) = i" "sha256_hex b = s_checksum_sha256 (fst p)"
      "held w (n_address (snd p)) (s_id (fst p)) = Some (shard_file b)"
      using bspec [OF conjunct2 [OF assms(1) [unfolded genuine_def]] x] by auto
    then show ?thesis using assms(2) [of p] unfolding authentic_def by blast
  qed
  moreover have "distinct (map fst bs)" using assms(1) by (simp add: genuine_def)
  ultimately show ?thesis by (auto simp: shards_from_def list_all_iff)
qed

text \<open>With enough shards that can be read for sure, \<open>fetch_blocks\<close> gets k blocks of the encoding.\<close>

lemma fetch_enough:
  assumes fetch: "fetch_blocks E C k w = (x, v)" and w: "fleet_ok w" "no_client_bug w"
    and auth: "\<And>p. p \<in> set C \<Longrightarrow> authentic blocks w p"
    and enough: "k \<le> card ((s_shard_index \<circ> fst) ` {p \<in> set C. sure E w p})"
  obtains bs where "x = Inr bs" "shards_from blocks bs" "k \<le> length bs" "calls_only E w v"
proof -
  note g = fetch_blocks_run [OF fetch w(1)]
  obtain bs where bs: "x = Inr bs" using g(4) w(2) by (cases x) auto
  have "k \<le> length bs"
  proof (rule ccontr)
    assume "\<not> k \<le> length bs"
    with g(3) [OF bs] have "(s_shard_index \<circ> fst) ` {p \<in> set C. sure E w p} \<subseteq> fst ` set bs" by auto
    then have "card ((s_shard_index \<circ> fst) ` {p \<in> set C. sure E w p}) \<le> card (fst ` set bs)" by (rule card_mono [rotated]) simp
    also have "card (fst ` set bs) \<le> length bs" by (metis card_length length_map list.set_map)
    finally show False using enough \<open>\<not> k \<le> length bs\<close> by simp
  qed
  then show ?thesis using that bs genuine_shards [OF g(2) [OF bs] auth] g(1) by blast
qed

lemma read_survives:
  assumes w: "fleet_ok w" "no_client_bug w" "w_dbfault w (w_trips w) = None"
    and code: "zfec_ok (e_zfec E) k m" "encode (e_zfec E) data k m = Inr blocks"
    and f: "f_data_shards f = k" "f_parity_shards f = m" "f_size_bytes f = length data"
      "f_checksum_sha256 f = sha256_hex data"
    and auth: "\<And>p. p \<in> set (candidates_of (f_id f) {} (w_tx w)) \<Longrightarrow> authentic blocks w p"
    and enough: "k \<le> card ((s_shard_index \<circ> fst) ` {p \<in> set (candidates_of (f_id f) {} (w_tx w)). sure E w p})"
  shows "\<exists>w'. read_file E f w = (Inr data, w')"
proof -
  let ?C = "candidates_of (f_id f) {} (w_tx w)" and ?w = "w\<lparr>w_trips := Suc (w_trips w)\<rparr>"
  obtain x v where fetch: "fetch_blocks E ?C k ?w = (x, v)" by fastforce
  have same: "authentic blocks ?w p = authentic blocks w p" "sure E ?w p = sure E w p" for p
    by (simp_all add: authentic_def sure_def good_shard_def node_ready_def)
  have "fleet_ok ?w" "no_client_bug ?w" using w by (simp_all add: no_client_bug_def)
  moreover have "authentic blocks ?w p" if "p \<in> set ?C" for p using auth [OF that] unfolding same .
  moreover have "k \<le> card ((s_shard_index \<circ> fst) ` {p \<in> set ?C. sure E ?w p})" using enough unfolding same .
  ultimately obtain bs where bs: "x = Inr bs" "shards_from blocks bs" "k \<le> length bs"
    by (rule fetch_enough [OF fetch])
  then have "decode (e_zfec E) bs k m (length data) = Inr data" by (intro decode_encode [OF code])
  moreover have "shard_candidates f {} w = (Inr ?C, ?w)"
    using w(3) by (simp add: shard_candidates_def db_select_def db_trip_def)
  ultimately show ?thesis
    using bs fetch f by (simp add: read_file_def bnd_run lift_erasure_def io_simps)
qed

end
