(* ===== verification/RoundTrip.thy ===== *)
theory RoundTrip
  imports UploadSuccess Reading
begin

text \<open>
  Upload and read together: a returned upload stays readable while at most m of its k + m shards are lost,
  whatever happens to those.
\<close>

section \<open>The shards of an uploaded file\<close>

text \<open>Which row lies at which address depends on the shard rows and the addresses only.\<close>

definition node_at :: "node_row \<Rightarrow> uuid \<times> pystr" where
  "node_at n = (n_id n, n_address n)"

lemma join_node_at:
  assumes "map node_at (nodes d) = map node_at (nodes d')"
  shows "map (map_prod id node_at) (join_node d s) = map (map_prod id node_at) (join_node d' s)"
proof -
  have "map (map_prod id node_at) (join_node e s) =
      map (Pair s) (filter (\<lambda>x. fst x = s_node_id s) (map node_at (nodes e)))" for e
    by (simp add: join_node_def filter_map comp_def node_at_def)
  then show ?thesis using assms by simp
qed

lemma placed_shards_at:
  assumes "shards d = shards d'" and "map node_at (nodes d) = map node_at (nodes d')"
  shows "map (map_prod id node_at) (placed_shards i d) = map (map_prod id node_at) (placed_shards i d')"
  unfolding placed_shards_def map_concat map_map comp_def join_node_at [OF assms(2)] assms(1) ..

lemma placed_shards_new:
  assumes d: "constraints_ok d" and d': "constraints_ok d'"
    and plan: "upload_plan E d data k m i now placement blocks ss"
    and rows: "d' = add_audit a (add_shards ss (add_file g d))" and g: "f_id g = i"
  shows "placed_shards i d' = zip ss placement"
proof -
  have len: "length ss = k + m" "length placement = k + m" using plan by (simp_all add: upload_plan_def)
  have tables: "shards d' = shards d @ ss" "nodes d' = nodes d" "files d' = files d @ [g]"
    by (simp_all add: rows add_audit_def add_shards_def add_file_def)
  have "i \<notin> f_id ` set (files d)"
    using constraints_okD(2) [OF d'] g by (simp add: keys_unique_def tables)
  then have "filter (\<lambda>s. s_file_id s = i) (shards d) = []"
    using references_okD(2) [OF constraints_okD(3) [OF d]] by (auto simp: filter_empty_conv)
  moreover have "filter (\<lambda>s. s_file_id s = i) ss = ss"
    using plan_file_ids [OF plan] by (simp add: filter_id_conv)
  ultimately have placed: "placed_shards i d' = concat (map (join_node d') ss)"
    by (simp add: placed_shards_def tables)
  have join: "join_node d' (ss ! j) = [(ss ! j, placement ! j)]" if j: "j < k + m" for j
  proof -
    have "distinct (map n_id (nodes d))" using constraints_okD(2) [OF d] by (simp add: keys_unique_def)
    then have "filter (\<lambda>n. n_id n = n_id (placement ! j)) (nodes d) = [placement ! j]"
      using plan_shard(5) [OF plan j] by (rule filter_key)
    then show ?thesis using plan_shard(4) [OF plan j] by (simp add: join_node_def tables)
  qed
  have "map (join_node d') ss = map (\<lambda>p. [p]) (zip ss placement)"
    using len join by (intro nth_equalityI) simp_all
  then show ?thesis by (simp add: placed)
qed

lemma upload_placed:
  assumes "fleet_ok w" and "constraints_ok (w_db w)"
    and "with_session (upload_file E owner filename content_type data k m ip) w = (Inr g, w')"
  obtains blocks placement ss where "encode (e_zfec E) data k m = Inr blocks" "length blocks = k + m"
    "length ss = k + m" "length placement = k + m"
    "placed_shards (f_id g) (w_db w') = zip ss placement"
    "\<And>j. j < k + m \<Longrightarrow> s_shard_index (ss ! j) = j \<and> s_checksum_sha256 (ss ! j) = sha256_hex (blocks ! j) \<and>
       held w' (n_address (placement ! j)) (s_id (ss ! j)) = Some (shard_file (blocks ! j))"
    "f_data_shards g = k" "f_parity_shards g = m" "f_size_bytes g = length data"
    "f_checksum_sha256 g = sha256_hex data"
    "set placement \<subseteq> set (nodes (w_db w))" "distinct (map n_address placement)"
proof -
  let ?w = "w\<lparr>w_tx := w_db w\<rparr>"
  obtain f i now placement blocks ss a where g: "g = f\<lparr>f_status := Available\<rparr>"
    and plan: "upload_plan E (w_db w) data k m i now placement blocks ss"
    and f: "f = new_file i now (u_id owner) filename content_type data (sha256_hex data) k m"
    and fin: "finished ?w f ss placement blocks a (w'\<lparr>w_tx := w_tx w'\<rparr>)"
    using upload_runs(2) [OF assms refl] unfolding upload_done_def by auto
  have id: "f_id g = i" by (simp add: g f new_file_def)
  have len: "length ss = k + m" "length placement = k + m" "length blocks = k + m"
    and enc: "encode (e_zfec E) data k m = Inr blocks" using plan by (simp_all add: upload_plan_def)
  have fin': "w_db w' = db_finished f ss a (w_db w)" "constraints_ok (w_db w')"
    "j < k + m \<Longrightarrow> held w' (n_address (placement ! j)) (s_id (ss ! j)) = Some (shard_file (blocks ! j))" for j
    using fin len by (auto simp: finished_def)
  have rows: "w_db w' = add_audit a (add_shards ss (add_file g (w_db w)))"
    using finished_rows [of f ss a "w_db w"] fin'(1,2) g by metis
  show ?thesis
  proof (rule that [OF enc len(3,1,2)])
    show "placed_shards (f_id g) (w_db w') = zip ss placement"
      by (rule placed_shards_new [OF assms(2) fin'(2) plan rows id, folded id])
    show "set placement \<subseteq> set (nodes (w_db w))" "distinct (map n_address placement)"
      using plan unfolding upload_plan_def by blast+
  qed (use plan_shard [OF plan] fin'(3) in \<open>simp_all add: g f new_file_def\<close>)
qed

section \<open>Losses\<close>

text \<open>\<open>v\<close> is a later world than \<open>w\<close>. A placed shard is still there when its node is not decommissioned, answers,
  and holds what it held; whatever a node holds instead is no forgery when it does not pass for the shard.\<close>

definition still_there :: "env \<Rightarrow> world \<Rightarrow> world \<Rightarrow> shard_row \<times> node_row \<Rightarrow> bool" where
  "still_there E w v p \<longleftrightarrow> n_status (snd p) \<noteq> Decommissioned \<and> node_ready E v (n_address (snd p)) \<and>
     held v (n_address (snd p)) (s_id (fst p)) = held w (n_address (snd p)) (s_id (fst p))"

definition no_forgery :: "world \<Rightarrow> world \<Rightarrow> shard_row \<times> node_row \<Rightarrow> bool" where
  "no_forgery w v p \<longleftrightarrow>
     (\<forall>x. held v (n_address (snd p)) (s_id (fst p)) = Some (shard_file x) \<and> sha256_hex x = s_checksum_sha256 (fst p)
       \<longrightarrow> held w (n_address (snd p)) (s_id (fst p)) = Some (shard_file x))"

lemma enough_left:
  assumes "map f P = [0..<k + m]" and "length (filter (\<lambda>p. \<not> Q p) P) \<le> m"
    and "\<And>p. p \<in> set P \<Longrightarrow> Q p \<Longrightarrow> p \<in> X" and "finite X"
  shows "k \<le> card (f ` X)"
proof -
  have "length P = k + m" using arg_cong [OF assms(1), of length] by simp
  then have "k \<le> length (filter Q P)" using sum_length_filter_compl [of Q P] assms(2) by simp
  also have "\<dots> = card (set (map f (filter Q P)))"
    using assms(1) by (metis distinct_card distinct_map_filter distinct_upt length_map)
  also have "\<dots> \<le> card (f ` X)" using assms(3,4) by (intro card_mono) auto
  finally show ?thesis .
qed

text \<open>
  C1. A file survives the loss of any m shards. After an upload returned, let time pass: nodes
  may crash, change status or lose disks, as long as the shard rows and the addresses of the nodes stay. If at
  most m of the k + m shards of the file are not still there, and no node holds different bytes that pass
  for a shard of it (a SHA-256 collision), then reading the file returns exactly the uploaded bytes.
\<close>
theorem upload_then_read:
  assumes "fleet_ok w" and "constraints_ok (w_db w)" and "zfec_ok (e_zfec E) k m"
    and "with_session (upload_file E owner filename content_type data k m ip) w = (Inr g, w')"
    and "fleet_ok v" and "no_client_bug v" and "w_dbfault v (w_trips v) = None"
    and "shards (w_db v) = shards (w_db w')" and "map node_at (nodes (w_db v)) = map node_at (nodes (w_db w'))"
    and "length (filter (\<lambda>p. \<not> still_there E w' v p) (placed_shards (f_id g) (w_db v))) \<le> m"
    and "\<forall>p \<in> set (placed_shards (f_id g) (w_db v)). no_forgery w' v p"
  shows "fst (with_session (read_file E g) v) = Inr data"
proof -
  let ?P = "placed_shards (f_id g) (w_db v)" and ?v = "v\<lparr>w_tx := w_db v\<rparr>"
  obtain blocks placement ss where enc: "encode (e_zfec E) data k m = Inr blocks"
    and len: "length blocks = k + m" "length ss = k + m" "length placement = k + m"
    and placed: "placed_shards (f_id g) (w_db w') = zip ss placement"
    and row: "\<And>j. j < k + m \<Longrightarrow> s_shard_index (ss ! j) = j \<and> s_checksum_sha256 (ss ! j) = sha256_hex (blocks ! j) \<and>
       held w' (n_address (placement ! j)) (s_id (ss ! j)) = Some (shard_file (blocks ! j))"
    and g: "f_data_shards g = k" "f_parity_shards g = m" "f_size_bytes g = length data"
      "f_checksum_sha256 g = sha256_hex data"
    using upload_placed [OF assms(1,2,4)] by metis
  have at: "map (map_prod id node_at) ?P = map (map_prod id node_at) (zip ss placement)"
    using placed_shards_at [OF assms(8,9)] placed by metis
  have lenP: "length ?P = k + m" using arg_cong [OF at, of length] len by simp
  have nth: "fst (?P ! j) = ss ! j" "n_address (snd (?P ! j)) = n_address (placement ! j)" if j: "j < k + m" for j
    using arg_cong [OF at, of "\<lambda>xs. xs ! j"] j len lenP by (simp_all add: node_at_def prod_eq_iff)
  have idx: "map (s_shard_index \<circ> fst) ?P = [0..<k + m]"
    using lenP nth row by (intro nth_equalityI) simp_all
  have shard: "\<exists>j < k + m. s_shard_index (fst p) = j \<and> s_checksum_sha256 (fst p) = sha256_hex (blocks ! j) \<and>
      held w' (n_address (snd p)) (s_id (fst p)) = Some (shard_file (blocks ! j))" if "p \<in> set ?P" for p
    using that lenP nth row by (auto simp: in_set_conv_nth)
  have cands: "p \<in> set (candidates_of (f_id g) {} (w_tx ?v)) \<longleftrightarrow> p \<in> set ?P \<and> n_status (snd p) \<noteq> Decommissioned" for p
    by (simp add: set_candidates)
  have "\<exists>u. read_file E g ?v = (Inr data, u)"
  proof (rule read_survives [OF _ _ _ assms(3) enc g])
    fix p
    assume "p \<in> set (candidates_of (f_id g) {} (w_tx ?v))"
    then have p: "p \<in> set ?P" unfolding cands by (rule conjunct1)
    show "authentic blocks ?v p"
      using shard [OF p] bspec [OF assms(11) p] len(1) by (auto simp: authentic_def no_forgery_def)
  next
    show "k \<le> card ((s_shard_index \<circ> fst) ` {p \<in> set (candidates_of (f_id g) {} (w_tx ?v)). sure E ?v p})"
    proof (rule enough_left [OF idx assms(10)])
      fix p
      assume p: "p \<in> set ?P" and still: "still_there E w' v p"
      have "sure E ?v p" using shard [OF p] still by (auto simp: sure_def good_shard_def still_there_def)
      then show "p \<in> {p \<in> set (candidates_of (f_id g) {} (w_tx ?v)). sure E ?v p}"
        using p still unfolding cands mem_Collect_eq still_there_def by blast
    qed simp
  qed (use assms(5-7) in \<open>simp_all add: no_client_bug_def\<close>)
  then show ?thesis by (auto simp: with_session_def split: prod.split)
qed

section \<open>An upload followed by a loss\<close>

text \<open>Nodes that answer keep answering, whatever an upload does.\<close>

definition healthy_env :: "env \<Rightarrow> pystr \<Rightarrow> world \<Rightarrow> bool" where
  "healthy_env E a w \<longleftrightarrow> fleet_ok w \<and> node_ready E w a \<and> no_client_bug w \<and> (\<forall>j. w_dbfault w j = None)"

lemma healthy_env_rest:
  "rest_of w' = rest_of w \<Longrightarrow> no_client_bug w' = no_client_bug w \<and> w_dbfault w' = w_dbfault w"
  using rest_of_fields(2,6) [of w' w] by (simp add: no_client_bug_def)

lemma keeps_client:
  "keeps (healthy_env E a) (client_put E b u x)" "keeps (healthy_env E a) (client_delete E b u)"
proof -
  show "keeps (healthy_env E a) (client_put E b u x)"
  proof (rule keepsI)
    fix w r w'
    assume w: "healthy_env E a w" and run: "client_put E b u x w = (r, w')"
    then show "healthy_env E a w'"
      using client_put_law [OF _ run] client_ready [of w E a b u x] healthy_env_rest [of w' w]
      by (simp add: healthy_env_def)
  qed
  show "keeps (healthy_env E a) (client_delete E b u)"
  proof (rule keepsI)
    fix w r w'
    assume w: "healthy_env E a w" and run: "client_delete E b u w = (r, w')"
    then show "healthy_env E a w'"
      using client_delete_law [OF _ run] client_ready [of w E a b u] healthy_env_rest [of w' w]
      by (simp add: healthy_env_def)
  qed
qed

lemma keeps_db:
  "keeps (healthy_env E a) (db_select f)" "keeps (healthy_env E a) (db_execute g)"
  "keeps (healthy_env E a) (db_stage g)" "keeps (healthy_env E a) db_commit"
  "keeps (healthy_env E a) uuid4" "keeps (healthy_env E a) (random_sample xs n)"
  by (auto simp: keeps_def healthy_env_def no_client_bug_def db_select_def db_execute_def db_trip_def db_stage_def
      db_commit_def uuid4_def random_sample_def random_shuffle_def bnd_apply modify_def Let_def ret_def
      split: option.split db_fault.split)

lemma keeps_upload: "keeps (healthy_env E a) (upload_file E owner filename content_type data k m ip)"
  unfolding upload_file_def lift_erasure_def healthy_nodes_def make_shards_def put_placed_def roll_back_upload_def
    delete_placed_def audit_record_def Let_def
  by (intro keeps_bnd keeps_if keeps_sum keeps_ret keeps_raise keeps_gets keeps_gather keeps_mapM keeps_prod
      keeps_client keeps_db)

lemma example_healthy:
  assumes "i < 3"
    and "with_session (upload_file example_env example_owner [97] [98] [1, 2, 3] 2 1 None) example_world = (Inr g, w')"
  shows "healthy_env example_env (example_address i) w'"
proof (rule keepsD [OF keeps_session [OF keeps_upload] _ assms(2)])
  show "healthy_env example_env (example_address i) example_world"
    using example_fleet example_ready [OF assms(1)] by (simp add: healthy_env_def no_client_bug_def example_world_def)
qed (simp add: healthy_env_def no_client_bug_def)

theorem upload_then_read_witness:
  "\<exists>g w'. with_session (upload_file example_env example_owner [97] [98] [1, 2, 3] 2 1 None) example_world = (Inr g, w') \<and>
    fst (with_session (read_file example_env g) (w'\<lparr>w_nodes := (w_nodes w')(example_address 0 := None)\<rparr>)) = Inr [1, 2, 3]"
proof (rule example_run)
  fix g w'
  assume run: "with_session (upload_file example_env example_owner [97] [98] [1, 2, 3] 2 1 None) example_world
      = (Inr g, w')"
  let ?v = "w'\<lparr>w_nodes := (w_nodes w')(example_address 0 := None)\<rparr>"
  obtain blocks placement ss where len: "length ss = 2 + 1" "length placement = 2 + 1"
    and placed: "placed_shards (f_id g) (w_db w') = zip ss placement"
    and sub: "set placement \<subseteq> set (nodes (w_db example_world))" and dist: "distinct (map n_address placement)"
    using upload_placed [OF example_fleet example_constraints run] by metis
  note env = example_healthy [OF _ run]
  have "map (\<lambda>p. n_address (snd p)) (zip ss placement) = map n_address placement"
    using len by (intro nth_equalityI) simp_all
  then have one: "length (filter (\<lambda>p. n_address (snd p) = example_address 0) (zip ss placement)) \<le> 1"
    using filter_key_length dist by metis
  have there: "still_there example_env w' ?v p" if "p \<in> set (zip ss placement)" "n_address (snd p) \<noteq> example_address 0" for p
  proof -
    have "snd p \<in> set (nodes (w_db example_world))" using that(1) sub by (metis prod.collapse set_zip_rightD subsetD)
    then obtain i where "i < 3" "snd p = example_row i" using example_rows by blast
    then show ?thesis
      using env [of i] that(2) by (simp add: still_there_def healthy_env_def node_ready_def held_def example_row_def)
  qed
  have "fst (with_session (read_file example_env g) ?v) = Inr [1, 2, 3]"
  proof (rule upload_then_read [OF example_fleet example_constraints _ run])
    show "zfec_ok (e_zfec example_env) 2 1" using parity_codec_ok by (simp add: example_env_def)
    have "w_dbfault w' j = None" "no_client_bug w'" for j using env [of 0] by (simp_all add: healthy_env_def)
    then show "w_dbfault ?v (w_trips ?v) = None" "no_client_bug ?v" by (simp_all add: no_client_bug_def)
    show "fleet_ok ?v" using env [of 0] by (simp add: healthy_env_def fleet_ok_def)
    have "length (filter (\<lambda>p. \<not> still_there example_env w' ?v p) (zip ss placement)) \<le>
        length (filter (\<lambda>p. n_address (snd p) = example_address 0) (zip ss placement))"
      by (rule filter_mono_length) (use there in blast)
    then show "length (filter (\<lambda>p. \<not> still_there example_env w' ?v p) (placed_shards (f_id g) (w_db ?v))) \<le> 1"
      using one by (simp add: placed)
    show "\<forall>p \<in> set (placed_shards (f_id g) (w_db ?v)). no_forgery w' ?v p"
      by (simp add: no_forgery_def held_def)
  qed simp_all
  with run show ?thesis by blast
qed

text \<open>The file of the example deployment.\<close>

lemma example_file:
  obtains g w' where "with_session (upload_file example_env example_owner [97] [98] [1, 2, 3] 2 1 None) example_world = (Inr g, w')"
    "fleet_ok w'" "constraints_ok (w_db w')" "g \<in> set (files (w_db w'))" "f_status g = Available"
    "\<And>i. i < 3 \<Longrightarrow> healthy_env example_env (example_address i) w'"
proof (rule example_run)
  fix g w'
  assume run: "with_session (upload_file example_env example_owner [97] [98] [1, 2, 3] 2 1 None) example_world = (Inr g, w')"
  have ok: "fleet_ok w'" "constraints_ok (w_db w')"
    using upload_runs(1) [OF example_fleet example_constraints run] by (simp_all add: orderly_def)
  obtain f where f: "upload_done example_env (example_world\<lparr>w_tx := w_db example_world\<rparr>) (u_id example_owner) [97] [98]
      [1, 2, 3] 2 1 None f (w'\<lparr>w_tx := w_tx w'\<rparr>)" "g = f\<lparr>f_status := Available\<rparr>"
    using upload_runs(2) [OF example_fleet example_constraints run refl] by blast
  have "g \<in> set (files (w_db w'))"
    using done_orderly [OF f(1)] f(2) by (auto simp: add_audit_def add_shards_def add_file_def)
  then show ?thesis using that [OF run ok] f(2) example_healthy [OF _ run] by simp
qed

theorem read_file_verified_witness:
  "\<exists>g w' r v. with_session (upload_file example_env example_owner [97] [98] [1, 2, 3] 2 1 None) example_world = (Inr g, w') \<and>
    with_session (read_file example_env g) w' = (r, v) \<and> w_db v = w_db w' \<and> held v = held w'"
proof (rule example_file)
  fix g w'
  assume run: "with_session (upload_file example_env example_owner [97] [98] [1, 2, 3] 2 1 None) example_world = (Inr g, w')"
    and ok: "fleet_ok w'"
  obtain r v where read: "with_session (read_file example_env g) w' = (r, v)" by fastforce
  from read_file_verified [OF ok read] run read show ?thesis by blast
qed

end
