(* ===== verification/Deletion.thy ===== *)
theory Deletion
  imports RoundTrip
begin

text \<open>
  Deletion: links are revoked with the first commit; a shard row goes only after the node confirmed that
  the shard is gone, so no byte is left on a node without a row that records it.
\<close>

section \<open>Removing shards\<close>

definition removed_rows :: "uuid set \<Rightarrow> db \<Rightarrow> db" where
  "removed_rows X d = d\<lparr>shards := filter (\<lambda>s. s_id s \<notin> X) (shards d)\<rparr>"

text \<open>Every shard row that went was a row of file \<open>i\<close>, and its shard is gone from its node; the nodes only
  lost shards of file \<open>i\<close>.\<close>

definition shards_removed :: "db \<Rightarrow> uuid \<Rightarrow> (pystr \<Rightarrow> uuid \<Rightarrow> bytes option) \<Rightarrow> db \<Rightarrow> world \<Rightarrow> bool" where
  "shards_removed d i h d' w \<longleftrightarrow>
     (\<exists>X. d' = removed_rows X d \<and>
        (\<forall>(s, n) \<in> set (placed_shards i d). s_id s \<in> X \<longrightarrow> held w (n_address n) (s_id s) = None) \<and>
        (\<forall>s \<in> set (shards d). s_id s \<in> X \<longrightarrow> s_file_id s = i)) \<and>
     (\<forall>a u. held w a u = h a u \<or>
        held w a u = None \<and> (\<exists>(s, n) \<in> set (placed_shards i d). n_address n = a \<and> s_id s = u))"

lemma removed_rows_empty [simp]: "removed_rows {} d = d"
  by (simp add: removed_rows_def)

lemma constraints_removed_rows:
  assumes "constraints_ok d"
  shows "constraints_ok (removed_rows X d)"
proof -
  have "references_ok (removed_rows X d)"
    by (rule references_okI)
      (use references_okD [OF constraints_okD(3) [OF assms]] in \<open>auto simp: removed_rows_def\<close>)
  moreover have "row_types_ok (removed_rows X d)"
    using constraints_okD(1) [OF assms] by (simp add: row_types_ok_def removed_rows_def list_all_iff)
  moreover have "keys_unique (removed_rows X d)"
    using constraints_okD(2) [OF assms] by (simp add: keys_unique_def removed_rows_def distinct_map_filter)
  ultimately show ?thesis by (simp add: constraints_ok_def)
qed

definition confirmed :: "((shard_row \<times> node_row) \<times> (exn + unit)) list \<Rightarrow> uuid set" where
  "confirmed rs = (\<lambda>r. s_id (fst (fst r))) ` {r \<in> set rs. snd r = Inr ()}"

lemma foldM_drop_confirmed:
  "\<exists>n'. foldM drop_confirmed rs n w = (Inr n', w\<lparr>w_tx := removed_rows (confirmed rs) (w_tx w)\<rparr>)"
proof (induction rs arbitrary: n w)
  case (Cons r rs)
  obtain s nd y where r: "r = ((s, nd), y)" by (cases r) auto
  show ?case
  proof (cases y)
    case (Inl e)
    then have "confirmed (r # rs) = confirmed rs" by (auto simp: confirmed_def r)
    then show ?thesis using Cons Inl by (simp add: r drop_confirmed_def)
  next
    case (Inr u)
    then have "confirmed (r # rs) = insert (s_id s) (confirmed rs)"
      by (force simp: confirmed_def r)
    moreover have "removed_rows X (delete_shard_row j d) = removed_rows (insert j X) d" for X j d
      by (simp add: removed_rows_def delete_shard_row_def)
    ultimately show ?thesis
      using Cons [of "n + 1" "w\<lparr>w_tx := delete_shard_row (s_id s) (w_tx w)\<rparr>"] Inr
      by (auto simp: r drop_confirmed_def bnd_apply db_stage_def io_simps)
  qed
qed (simp add: io_simps confirmed_def)

lemma distinct_placed_ids:
  assumes "constraints_ok d"
  shows "distinct (map (s_id \<circ> fst) (placed_shards i d))"
proof -
  have keys: "distinct (map s_id (shards d))" "distinct (map n_id (nodes d))"
    using constraints_okD(2) [OF assms] by (simp_all add: keys_unique_def)
  have disj: "A \<subseteq> {x} \<Longrightarrow> B \<subseteq> C \<Longrightarrow> x \<notin> C \<Longrightarrow> A \<inter> B = {}" for A B C and x :: uuid
    by blast
  have "distinct (map (s_id \<circ> fst) (concat (map (join_node d) ss)))" if "distinct (map s_id ss)" for ss
    using that
  proof (induction ss)
    case (Cons s ss)
    have "length (join_node d s) \<le> 1"
      using filter_key_length [OF keys(2), of "s_node_id s"] by (simp add: join_node_def)
    then have one: "distinct (map (s_id \<circ> fst) (join_node d s))" by (cases "join_node d s") auto
    have "(s_id \<circ> fst) ` set (join_node d s) \<subseteq> {s_id s}" by (auto simp: join_node_def)
    moreover have "(s_id \<circ> fst) ` set (concat (map (join_node d) ss)) \<subseteq> s_id ` set ss"
      by (auto simp: join_node_def)
    moreover have "s_id s \<notin> s_id ` set ss" using Cons.prems by simp
    ultimately have "(s_id \<circ> fst) ` set (join_node d s) \<inter> (s_id \<circ> fst) ` set (concat (map (join_node d) ss)) = {}"
      by (rule disj)
    then show ?case
      using Cons one
      by (simp only: list.map concat.simps map_append distinct_append set_map distinct.simps)
  qed simp
  then show ?thesis
    unfolding placed_shards_def using keys(1) by (simp add: distinct_map_filter)
qed

lemma distinct_placed_shards:
  assumes "constraints_ok d"
  shows "distinct (map (\<lambda>p. (n_address (snd p), s_id (fst p))) (placed_shards i d))"
proof -
  from distinct_placed_ids [OF assms] have "distinct (map snd (map (\<lambda>p. (n_address (snd p), s_id (fst p))) (placed_shards i d)))"
    by (simp add: comp_def)
  then show ?thesis by (rule distinct_map [THEN iffD1, THEN conjunct1])
qed

definition removal :: "db \<Rightarrow> uuid \<Rightarrow> (pystr \<Rightarrow> uuid \<Rightarrow> bytes option) \<Rightarrow> world \<Rightarrow> bool" where
  "removal d i h w \<longleftrightarrow> fleet_ok w \<and> constraints_ok (w_db w) \<and> shards_removed d i h (w_db w) w"

lemma nothing_removed: "shards_removed d i h d w" if "held w = h"
  unfolding shards_removed_def using that by (intro conjI exI [where x = "{}"]) simp_all

lemma confirmed_removed:
  assumes d: "constraints_ok d" and len: "length rs = length (placed_shards i d)"
    and changed: "\<And>a u. held w a u = h a u \<or>
      held w a u = None \<and> (a, u) \<in> (\<lambda>p. (n_address (snd p), s_id (fst p))) ` set (placed_shards i d)"
    and gone: "\<And>p. (p, Inr ()) \<in> set (zip (placed_shards i d) rs) \<Longrightarrow> held w (n_address (snd p)) (s_id (fst p)) = None"
  shows "shards_removed d i h (removed_rows (confirmed (zip (placed_shards i d) rs)) d) w"
proof -
  let ?X = "confirmed (zip (placed_shards i d) rs)"
  have row: "\<exists>p \<in> set (placed_shards i d). s_id (fst p) = u \<and> held w (n_address (snd p)) (s_id (fst p)) = None"
    if u: "u \<in> ?X" for u
  proof -
    obtain p where "(p, Inr ()) \<in> set (zip (placed_shards i d) rs)" "u = s_id (fst p)"
      using u by (auto simp: confirmed_def)
    then show ?thesis using gone set_zip_leftD by metis
  qed
  have "held w (n_address n) (s_id s) = None" if p: "(s, n) \<in> set (placed_shards i d)" "s_id s \<in> ?X" for s n
  proof -
    obtain q where q: "q \<in> set (placed_shards i d)" "(s_id \<circ> fst) q = (s_id \<circ> fst) (s, n)"
      "held w (n_address (snd q)) (s_id (fst q)) = None" using row [OF p(2)] by auto
    then have "q = (s, n)" using distinct_placed_ids [OF d, of i] p(1) by (metis distinct_map inj_onD)
    then show ?thesis using q(3) by simp
  qed
  moreover have "s_file_id s = i" if s: "s \<in> set (shards d)" "s_id s \<in> ?X" for s
  proof -
    obtain p where p: "p \<in> set (placed_shards i d)" "s_id (fst p) = s_id s" using row [OF s(2)] by auto
    then have "fst p \<in> set (shards d)" "s_file_id (fst p) = i"
      using placed_shards_iff [of "fst p" "snd p" i d] by simp_all
    then show ?thesis
      using p(2) s(1) constraints_okD(2) [OF d] by (metis distinct_map inj_onD keys_unique_def)
  qed
  ultimately show ?thesis
    unfolding shards_removed_def using changed by (intro conjI exI [where x = ?X]) (fastforce simp: image_iff)+
qed

definition dropping :: "db \<Rightarrow> uuid \<Rightarrow> (pystr \<Rightarrow> uuid \<Rightarrow> bytes option) \<Rightarrow> (exn + unit) list \<Rightarrow> world \<Rightarrow> bool" where
  "dropping d i h rs w \<longleftrightarrow> fleet_ok w \<and> w_db w = d \<and> length rs = length (placed_shards i d) \<and>
     (\<forall>a u. held w a u = h a u \<or>
        held w a u = None \<and> (a, u) \<in> (\<lambda>p. (n_address (snd p), s_id (fst p))) ` set (placed_shards i d)) \<and>
     (\<forall>(p, r) \<in> set (zip (placed_shards i d) rs). r = Inr () \<longrightarrow> held w (n_address (snd p)) (s_id (fst p)) = None)"

lemma dropping_removal:
  assumes "constraints_ok d" and "dropping d i h rs w"
  shows "shards_removed d i h (removed_rows (confirmed (zip (placed_shards i d) rs)) d) w"
    and "shards_removed d i h d w"
proof -
  show "shards_removed d i h (removed_rows (confirmed (zip (placed_shards i d) rs)) d) w"
    by (rule confirmed_removed [OF assms(1)]) (use assms(2) in \<open>auto simp: dropping_def\<close>)
  show "shards_removed d i h d w"
    unfolding shards_removed_def
    by (intro conjI exI [where x = "{}"]) (use assms(2) in \<open>fastforce simp: dropping_def image_iff\<close>)+
qed

lemma remove_triple:
  assumes d: "constraints_ok d"
  shows "triple (\<lambda>w. rows d w \<and> fleet_ok w \<and> h = held w) (remove_deleted_shards E i)
    (\<lambda>_. removal d i h) (\<lambda>_. removal d i h)"
proof -
  let ?P = "\<lambda>w. rows d w \<and> fleet_ok w \<and> h = held w"
  have steady: "steady ?P" by (simp add: steady_def rows_def)
  have weak: "?P w \<Longrightarrow> removal d i h w" for w
    using d nothing_removed [of w h d i] by (simp add: removal_def rows_def)
  have sel: "triple ?P (db_select (placed_shards i)) (\<lambda>ps w. ?P w \<and> ps = placed_shards i d) (\<lambda>_. removal d i h)"
    by (rule triple_conseq [OF db_select_triple [OF steady]]) (use weak in \<open>auto simp: rows_def\<close>)
  have del: "triple (\<lambda>w. ?P w \<and> ps = placed_shards i d) (delete_placed E ps)
      (\<lambda>rs w. ps = placed_shards i d \<and> w_tx w = d \<and> dropping d i h rs w) E'" for ps E'
  proof (cases "ps = placed_shards i d")
    case True
    show ?thesis
      unfolding True
      by (rule triple_conseq [OF delete_placed_triple [OF distinct_placed_shards [OF d], of d h E i E']])
        (simp_all add: rows_def dropping_def)
  qed (simp add: triple_def)
  have drop: "triple (\<lambda>w. ps = placed_shards i d \<and> w_tx w = d \<and> dropping d i h rs w) (foldM drop_confirmed (zip ps rs) 0)
      (\<lambda>_ w. w_tx w = removed_rows (confirmed (zip (placed_shards i d) rs)) d \<and> dropping d i h rs w) E'" for ps rs E'
    unfolding triple_def
  proof (intro allI impI)
    fix w
    assume w: "ps = placed_shards i d \<and> w_tx w = d \<and> dropping d i h rs w"
    obtain n where "foldM drop_confirmed (zip ps rs) 0 w = (Inr n, w\<lparr>w_tx := removed_rows (confirmed (zip ps rs)) (w_tx w)\<rparr>)"
      using foldM_drop_confirmed by blast
    then show "case foldM drop_confirmed (zip ps rs) 0 w of (Inl e, t) \<Rightarrow> E' e t
      | (Inr x, t) \<Rightarrow> w_tx t = removed_rows (confirmed (zip (placed_shards i d) rs)) d \<and> dropping d i h rs t"
      using w by (simp add: dropping_def)
  qed
  have commit: "triple (\<lambda>w. w_tx w = removed_rows (confirmed (zip (placed_shards i d) rs)) d \<and> dropping d i h rs w)
      db_commit (\<lambda>_. removal d i h) (\<lambda>_. removal d i h)" for rs
  proof (rule db_commit_triple)
    fix w k
    assume w: "w_tx w = removed_rows (confirmed (zip (placed_shards i d) rs)) d \<and> dropping d i h rs w"
    note r = dropping_removal [OF d conjunct2 [OF w]]
    have ok: "fleet_ok w" "w_db w = d" using w by (simp_all add: dropping_def)
    show "removal d i h (w\<lparr>w_trips := k, w_db := w_tx w\<rparr>)" "removal d i h (w\<lparr>w_trips := k, w_db := w_tx w\<rparr>)"
      using r(1) ok w constraints_removed_rows [OF d] by (simp_all add: removal_def shards_removed_def)

    show "removal d i h (w\<lparr>w_trips := k, w_tx := w_db w\<rparr>)" "removal d i h (w\<lparr>w_trips := k, w_tx := w_db w\<rparr>)"
      using r(2) ok d by (simp_all add: removal_def shards_removed_def)
  qed
  show ?thesis
    unfolding remove_deleted_shards_def
    by (rule triple_bnd [OF sel], rule triple_bnd [OF del], rule triple_bnd [OF drop], rule triple_bnd [OF commit])
      (simp add: triple_ret)
qed

section \<open>Deleting a file\<close>

definition marked_deleted :: "file_row \<Rightarrow> int \<Rightarrow> file_row" where
  "marked_deleted f now = f\<lparr>f_status := Deleted, f_deleted_at := Some now, f_link_version := f_link_version f + 1\<rparr>"

definition deleted_row :: "audit_row \<Rightarrow> uuid \<Rightarrow> uuid \<Rightarrow> pystr option \<Rightarrow> bool" where
  "deleted_row a i actor ip \<longleftrightarrow> a_event_type a = file_deleted \<and> a_file_id a = Some i \<and>
     a_actor_user_id a = Some actor \<and> a_ttl_seconds a = None \<and> a_ip_address a = ip"

definition db_deleted :: "file_row \<Rightarrow> int \<Rightarrow> audit_row \<Rightarrow> db \<Rightarrow> db" where
  "db_deleted f now a d = add_audit a (set_file (f_id f) (\<lambda>_. marked_deleted f now) d)"

definition deletion :: "db \<Rightarrow> file_row \<Rightarrow> int \<Rightarrow> uuid \<Rightarrow> pystr option \<Rightarrow> (pystr \<Rightarrow> uuid \<Rightarrow> bytes option) \<Rightarrow> world \<Rightarrow> bool" where
  "deletion d f now actor ip h w \<longleftrightarrow>
     (\<exists>a. deleted_row a (f_id f) actor ip \<and> removal (db_deleted f now a d) (f_id f) h w)"

definition untouched :: "db \<Rightarrow> (pystr \<Rightarrow> uuid \<Rightarrow> bytes option) \<Rightarrow> world \<Rightarrow> bool" where
  "untouched d h w \<longleftrightarrow> fleet_ok w \<and> w_db w = d \<and> held w = h"

lemma set_file_row:
  assumes "constraints_ok d" and "f \<in> set (files d)"
  shows "set_file (f_id f) g d = set_file (f_id f) (\<lambda>_. g f) d"
proof -
  have "x = f" if "x \<in> set (files d)" "f_id x = f_id f" for x
    using that assms(2) constraints_okD(2) [OF assms(1)] by (metis distinct_map inj_onD keys_unique_def)
  then have "map (\<lambda>x. if f_id x = f_id f then g x else x) (files d) = map (\<lambda>x. if f_id x = f_id f then g f else x) (files d)"
    by (intro map_cong [OF refl]) auto
  then show ?thesis by (simp add: set_file_def)
qed

lemma delete_file_triple:
  assumes d: "constraints_ok d" and f: "f \<in> set (files d)"
  shows "triple (\<lambda>w. rows d w \<and> fleet_ok w \<and> h = held w \<and> w_now w = t) (delete_file E f actor ip)
    (\<lambda>_. deletion d f t (u_id actor) ip h) (\<lambda>_ w. untouched d h w \<or> deletion d f t (u_id actor) ip h w)"
proof -
  let ?E = "\<lambda>_ w. untouched d h w \<or> deletion d f t (u_id actor) ip h w"
  let ?g = "\<lambda>now x. x\<lparr>f_status := Deleted, f_deleted_at := Some now, f_link_version := f_link_version f + 1\<rparr>"
  let ?base = "\<lambda>w. w_db w = d \<and> fleet_ok w \<and> h = held w"
  have now: "triple (\<lambda>w. rows d w \<and> fleet_ok w \<and> h = held w \<and> w_now w = t) (gets w_now)
      (\<lambda>now w. now = t \<and> rows d w \<and> fleet_ok w \<and> h = held w) ?E"
    by (rule triple_conseq [OF gets_triple]) auto
  have stage: "triple (\<lambda>w. now = t \<and> rows d w \<and> fleet_ok w \<and> h = held w) (db_stage (set_file (f_id f) (?g now)))
      (\<lambda>_ w. ?base w \<and> w_tx w = set_file (f_id f) (\<lambda>_. marked_deleted f t) d) ?E" for now
    by (rule db_stage_triple)
      (use set_file_row [OF d f, of "?g t"] in \<open>auto simp: rows_def marked_deleted_def\<close>)
  have audit: "triple (\<lambda>w. ?base w \<and> w_tx w = set_file (f_id f) (\<lambda>_. marked_deleted f t) d)
      (audit_record file_deleted (Some (f_id f)) (Some (u_id actor)) None ip)
      (\<lambda>_ w. ?base w \<and> (\<exists>a. deleted_row a (f_id f) (u_id actor) ip \<and> w_tx w = db_deleted f t a d)) ?E"
    unfolding audit_record_def
    by (auto simp: triple_def uuid4_def gets_def db_stage_def modify_def bnd_def db_deleted_def deleted_row_def intro!: exI)
  have commit: "triple (\<lambda>w. ?base w \<and> (\<exists>a. deleted_row a (f_id f) (u_id actor) ip \<and> w_tx w = db_deleted f t a d)) db_commit
      (\<lambda>_ w. \<exists>a. deleted_row a (f_id f) (u_id actor) ip \<and> constraints_ok (db_deleted f t a d) \<and>
         rows (db_deleted f t a d) w \<and> fleet_ok w \<and> h = held w) ?E"
  proof (rule db_commit_triple)
    fix w k
    assume w: "?base w \<and> (\<exists>a. deleted_row a (f_id f) (u_id actor) ip \<and> w_tx w = db_deleted f t a d)"
      and ok: "constraints_ok (w_tx w)"
    then obtain a where a: "deleted_row a (f_id f) (u_id actor) ip" "w_tx w = db_deleted f t a d" by blast
    show "\<exists>a. deleted_row a (f_id f) (u_id actor) ip \<and> constraints_ok (db_deleted f t a d) \<and>
         rows (db_deleted f t a d) (w\<lparr>w_trips := k, w_db := w_tx w\<rparr>) \<and>
         fleet_ok (w\<lparr>w_trips := k, w_db := w_tx w\<rparr>) \<and> h = held (w\<lparr>w_trips := k, w_db := w_tx w\<rparr>)"
      using w ok a by (intro exI [where x = a]) (simp add: rows_def)
    have "removal (db_deleted f t a d) (f_id f) h (w\<lparr>w_trips := k, w_db := w_tx w\<rparr>)"
      using w ok a nothing_removed [of "w\<lparr>w_trips := k, w_db := w_tx w\<rparr>"] by (simp add: removal_def)
    then show "?E OperationalError (w\<lparr>w_trips := k, w_db := w_tx w\<rparr>)" using a(1) unfolding deletion_def by blast
  qed (auto simp: untouched_def)
  have remove: "triple (\<lambda>w. \<exists>a. deleted_row a (f_id f) (u_id actor) ip \<and> constraints_ok (db_deleted f t a d) \<and>
         rows (db_deleted f t a d) w \<and> fleet_ok w \<and> h = held w) (remove_deleted_shards E (f_id f))
      (\<lambda>_. deletion d f t (u_id actor) ip h) ?E"
  proof (intro triple_ex triple_const)
    fix a
    assume a: "deleted_row a (f_id f) (u_id actor) ip" "constraints_ok (db_deleted f t a d)"
    show "triple (\<lambda>w. rows (db_deleted f t a d) w \<and> fleet_ok w \<and> h = held w) (remove_deleted_shards E (f_id f))
        (\<lambda>_. deletion d f t (u_id actor) ip h) ?E"
      by (rule triple_conseq [OF remove_triple [OF a(2)]]) (use a(1) in \<open>auto simp: deletion_def\<close>)
  qed
  show ?thesis
    unfolding delete_file_def
    by (rule triple_bnd [OF now], rule triple_bnd [OF stage], rule triple_bnd [OF audit], rule triple_bnd [OF commit],
        rule triple_bnd [OF remove]) (simp add: triple_ret)
qed

section \<open>Property\<close>

text \<open>
  C6. Deleting a file revokes its links first and loses track of no shard. Either nothing happened (the first commit
  failed), or, whatever else failed, the row of the file is \<open>deleted\<close> with the time of the call and a link
  version one higher, a \<open>file_deleted\<close> row names file and actor, and the only other change is that some shards of
  this file are gone: a shard row disappears only when the node no longer holds the shard, and no node loses or
  changes any other shard.
\<close>
theorem delete_file_revokes:
  assumes "fleet_ok w" and "constraints_ok (w_db w)" and "f \<in> set (files (w_db w))"
    and "with_session (delete_file E f actor ip) w = (r, w')"
  shows "constraints_ok (w_db w') \<and>
    ((\<exists>e. r = Inl e) \<and> w_db w' = w_db w \<and> held w' = held w \<or>
     (\<exists>a. deleted_row a (f_id f) (u_id actor) ip \<and>
        shards_removed (add_audit a (set_file (f_id f) (\<lambda>_. f\<lparr>f_status := Deleted, f_deleted_at := Some (w_now w),
            f_link_version := f_link_version f + 1\<rparr>) (w_db w)))
          (f_id f) (held w) (w_db w') w'))"
proof -
  let ?w = "w\<lparr>w_tx := w_db w\<rparr>"
  obtain v where run: "delete_file E f actor ip ?w = (r, v)" and w': "w' = v\<lparr>w_tx := w_db v\<rparr>"
    using assms(4) by (rule with_session_run)
  have pre: "rows (w_db w) ?w \<and> fleet_ok ?w \<and> held w = held ?w \<and> w_now ?w = w_now w"
    using assms(1) by (simp add: rows_def)
  note t = delete_file_triple [OF assms(2,3), of "held w" "w_now w" E actor ip]
  have "(\<exists>e. r = Inl e) \<and> untouched (w_db w) (held w) v \<or> deletion (w_db w) f (w_now w) (u_id actor) ip (held w) v"
    using triple_InlD [OF t pre] triple_InrD [OF t pre] run by (cases r) blast+
  then show ?thesis
    unfolding w' using assms(2)
    by (auto simp: untouched_def deletion_def removal_def db_deleted_def marked_deleted_def shards_removed_def)
qed

theorem delete_file_revokes_witness:
  "\<exists>g w' r v. g \<in> set (files (w_db w')) \<and> f_status g = Available \<and>
    with_session (delete_file example_env g example_owner None) w' = (r, v) \<and> constraints_ok (w_db v)"
proof (rule example_file)
  fix g w'
  assume g: "fleet_ok w'" "constraints_ok (w_db w')" "g \<in> set (files (w_db w'))" "f_status g = Available"
  obtain r v where run: "with_session (delete_file example_env g example_owner None) w' = (r, v)" by fastforce
  from delete_file_revokes [OF g(1-3) run] g run show ?thesis by blast
qed

end
