(* ===== verification/Maintenance.thy ===== *)
theory Maintenance
  imports Deletion
begin

text \<open>
  \<open>services/maintenance.py\<close>: the jobs the worker runs over the fleet. The state of a \<open>Maintenance\<close> object
  is its dictionary of consecutive probe failures, a default dictionary and so a total function here.
  A dictionary from file ids to sets of shard ids keeps its insertion order. The rows of a join
  come in table order, the sample of \<open>scrub\<close> in the order the environment picks.
\<close>

record maint =
  mt_world :: world
  mt_failures :: "uuid \<Rightarrow> nat"

type_synonym 'a mio = "(maint, exn, 'a) io"

definition on_fleet :: "'a wio \<Rightarrow> 'a mio" where
  "on_fleet m = (\<lambda>s. case m (mt_world s) of (r, w) \<Rightarrow> (r, s\<lparr>mt_world := w\<rparr>))"

definition fleet_session :: "'a mio \<Rightarrow> 'a mio" where
  "fleet_session m = (\<lambda>s.
     case m (s\<lparr>mt_world := (mt_world s)\<lparr>w_tx := w_db (mt_world s)\<rparr>\<rparr>) of
       (r, t) \<Rightarrow> (r, t\<lparr>mt_world := (mt_world t)\<lparr>w_tx := w_db (mt_world t)\<rparr>\<rparr>))"

text \<open>\<open>asyncio.gather(...)\<close> without \<open>return_exceptions\<close>: the first exception, in the order of the list.\<close>

definition gather_all :: "('a \<Rightarrow> 'b wio) \<Rightarrow> 'a list \<Rightarrow> 'b list wio" where
  "gather_all f xs = bnd (gather f xs) (mapM lift)"

section \<open>Node health\<close>

text \<open>One node and the outcome of its probe.\<close>

definition note_probe :: "env \<Rightarrow> int \<Rightarrow> node_row \<times> bool \<Rightarrow> unit mio" where
  "note_probe E now r =
     (case r of (node, healthy) \<Rightarrow>
        if healthy
        then
          seq (modify (\<lambda>s. s\<lparr>mt_failures := (mt_failures s)(n_id node := 0)\<rparr>))
          (seq (on_fleet (db_stage (set_node (n_id node) (\<lambda>n. n\<lparr>n_last_seen_at := Some now\<rparr>))))
          (if n_status node \<noteq> Healthy
           then on_fleet (db_stage (set_node (n_id node) (\<lambda>n. n\<lparr>n_status := Healthy\<rparr>)))
           else ret ()))
        else
          seq (modify (\<lambda>s. s\<lparr>mt_failures := (mt_failures s)(n_id node := mt_failures s (n_id node) + 1)\<rparr>))
          (bnd (gets (\<lambda>s. mt_failures s (n_id node))) (\<lambda>failures.
          if n_status node = Healthy \<and> int failures \<ge> node_failure_threshold (e_settings E)
          then on_fleet (db_stage (set_node (n_id node) (\<lambda>n. n\<lparr>n_status := Unreachable\<rparr>)))
          else ret ())))"

definition check_node_health :: "env \<Rightarrow> unit mio" where
  "check_node_health E =
     fleet_session (
     bnd (on_fleet (db_select (\<lambda>d. filter (\<lambda>n. n_status n \<noteq> Decommissioned) (nodes d)))) (\<lambda>ns.
     bnd (on_fleet (gather_all (\<lambda>n. is_healthy (n_address n)) ns)) (\<lambda>results.
     bnd (on_fleet (gets w_now)) (\<lambda>now.
     seq (mapM (note_probe E now) (zip ns results))
     (on_fleet db_commit)))))"

section \<open>Garbage collection\<close>

definition before :: "int \<Rightarrow> int \<Rightarrow> int" where
  "before now seconds = now - seconds * 1000000"

definition gc_stale_upload :: "env \<Rightarrow> file_row \<Rightarrow> unit wio" where
  "gc_stale_upload E file =
     bnd (db_select (placed_shards (f_id file))) (\<lambda>placed.
     bnd (delete_placed E placed) (\<lambda>results.
     if list_ex is_failure results then ret ()
     else seq (db_execute (delete_file_row (f_id file))) db_commit))"

definition gc_stale_uploads :: "env \<Rightarrow> unit wio" where
  "gc_stale_uploads E =
     bnd (gets w_now) (\<lambda>now.
     let cutoff = before now (stale_upload_seconds (e_settings E)) in
     with_session (
     bnd (db_select (\<lambda>d. filter (\<lambda>f. f_status f = Uploading \<and> f_uploaded_at f < cutoff) (files d))) (\<lambda>stale.
     seq (mapM (gc_stale_upload E) stale)
     (ret ()))))"

definition gc_deleted_files :: "env \<Rightarrow> unit wio" where
  "gc_deleted_files E =
     with_session (
     bnd (db_select (\<lambda>d. filter (\<lambda>f. f_status f = Deleted \<and> list_ex (\<lambda>s. s_file_id s = f_id f) (shards d)) (files d)))
       (\<lambda>pending.
     seq (mapM (\<lambda>f. remove_deleted_shards E (f_id f)) pending)
     (ret ())))"

section \<open>Repair\<close>

text \<open>One shard of a repair: the rebuilt block under a new id on the target, then the row, then the old copy.\<close>

definition repair_shard ::
  "env \<Rightarrow> ((shard_row \<times> node_row) \<times> bytes \<times> node_row) \<Rightarrow> nat \<Rightarrow> nat wio" where
  "repair_shard E r repaired =
     (case r of ((shard, old_node), block, target) \<Rightarrow>
        if sha256_hex block \<noteq> s_checksum_sha256 shard then ret repaired
        else
        bnd uuid4 (\<lambda>new_id.
        bnd (attempt (client_put E (n_address target) new_id block)) (\<lambda>stored.
        case stored of
          Inl e \<Rightarrow> if is_NodeError e then ret repaired else raise e
        | Inr _ \<Rightarrow>
            bnd (gets w_now) (\<lambda>now.
            seq (db_execute (set_shard (s_id shard)
                  (\<lambda>s. s\<lparr>s_id := new_id, s_node_id := n_id target, s_created_at := now\<rparr>)))
            (seq db_commit
            (seq (catching (client_delete E (n_address old_node) (s_id shard))
                   (\<lambda>e. if is_NodeError e then ret () else raise e))
            (ret (repaired + 1))))))))"

definition spare_nodes :: "(shard_row \<times> node_row) list \<Rightarrow> node_row list \<Rightarrow> node_row list" where
  "spare_nodes placed ns = filter (\<lambda>n. n_id n \<notin> (\<lambda>p. n_id (snd p)) ` set placed) ns"

text \<open>From k readable blocks on: rebuild the bad shards and move them to spare nodes.\<close>

definition repair_with ::
  "env \<Rightarrow> file_row \<Rightarrow> (shard_row \<times> node_row) list \<Rightarrow> (shard_row \<times> node_row) list \<Rightarrow> (nat \<times> bytes) list \<Rightarrow> nat wio" where
  "repair_with E file placed bad blocks =
     bnd healthy_nodes (\<lambda>healthy.
     bnd (random_shuffle (spare_nodes placed healthy)) (\<lambda>targets.
     bnd (lift_erasure (regenerate (e_zfec E) blocks (f_data_shards file) (f_parity_shards file)
            (map (\<lambda>p. s_shard_index (fst p)) bad))) (\<lambda>rebuilt.
     foldM (repair_shard E) (zip bad (zip rebuilt targets)) 0)))"

definition repair_found :: "env \<Rightarrow> uuid \<Rightarrow> uuid set \<Rightarrow> file_row \<Rightarrow> nat wio" where
  "repair_found E file_id bad_shard_ids file =
     bnd (db_select (placed_shards file_id)) (\<lambda>placed.
     let bad = filter (\<lambda>p. s_id (fst p) \<in> bad_shard_ids) placed in
     bnd (shard_candidates file bad_shard_ids) (\<lambda>good.
     bnd (fetch_blocks E good (f_data_shards file)) (\<lambda>blocks.
     if length blocks < f_data_shards file then ret 0
     else repair_with E file placed bad blocks)))"

definition repair_file :: "env \<Rightarrow> uuid \<Rightarrow> uuid set \<Rightarrow> nat wio" where
  "repair_file E file_id bad_shard_ids =
     with_session (
     bnd (db_select (get_file file_id)) (\<lambda>found.
     case found of
       None \<Rightarrow> ret 0
     | Some file \<Rightarrow>
         if f_status file \<noteq> Available then ret 0
         else repair_found E file_id bad_shard_ids file))"

text \<open>\<open>defaultdict(set)\<close>: \<open>d[i].add(u)\<close>.\<close>

definition dict_add :: "uuid \<Rightarrow> uuid \<Rightarrow> (uuid \<times> uuid set) list \<Rightarrow> (uuid \<times> uuid set) list" where
  "dict_add i u d = dict_set i (insert u (case map_of d i of None \<Rightarrow> {} | Some us \<Rightarrow> us)) d"

definition repair_files :: "env \<Rightarrow> (uuid \<times> uuid set) list \<Rightarrow> nat wio" where
  "repair_files E todo = foldM (\<lambda>t repaired. bnd (repair_file E (fst t) (snd t)) (\<lambda>n. ret (repaired + n))) todo 0"

text \<open>The joins of shards with their nodes and files.\<close>

definition placed_available :: "db \<Rightarrow> (shard_row \<times> node_row) list" where
  "placed_available d =
     filter (\<lambda>p. list_ex (\<lambda>f. f_id f = s_file_id (fst p) \<and> f_status f = Available) (files d))
       (concat (map (join_node d) (shards d)))"

definition lost_node :: "int \<Rightarrow> node_row \<Rightarrow> bool" where
  "lost_node cutoff n \<longleftrightarrow> n_status n = Decommissioned \<or>
     n_status n = Unreachable \<and> (case n_last_seen_at n of None \<Rightarrow> n_created_at n | Some t \<Rightarrow> t) < cutoff"

definition repair_lost_shards :: "env \<Rightarrow> nat wio" where
  "repair_lost_shards E =
     bnd (gets w_now) (\<lambda>now.
     let cutoff = before now (repair_grace_seconds (e_settings E)) in
     bnd (with_session (db_select (\<lambda>d. filter (\<lambda>p. lost_node cutoff (snd p)) (placed_available d)))) (\<lambda>rs.
     repair_files E (foldl (\<lambda>lost p. dict_add (s_file_id (fst p)) (s_id (fst p)) lost) [] rs)))"

section \<open>Scrubbing\<close>

definition scrub_shard ::
  "env \<Rightarrow> shard_row \<times> node_row \<Rightarrow> (uuid \<times> uuid set) list \<Rightarrow> (uuid \<times> uuid set) list wio" where
  "scrub_shard E p bad =
     (case p of (shard, node) \<Rightarrow>
        bnd (attempt (client_get E (n_address node) (s_id shard))) (\<lambda>r.
        case r of
          Inl e \<Rightarrow> if e = ShardMissingError \<or> e = ShardCorruptError
                    then ret (dict_add (s_file_id shard) (s_id shard) bad)
                    else if is_NodeError e then ret bad
                    else raise e
        | Inr data \<Rightarrow> if sha256_hex data \<noteq> s_checksum_sha256 shard
                      then ret (dict_add (s_file_id shard) (s_id shard) bad)
                      else ret bad))"

definition scrub :: "env \<Rightarrow> nat wio" where
  "scrub E =
     (if scrub_batch_size (e_settings E) = 0 then ret 0
      else
      bnd (with_session (
        bnd (db_select (\<lambda>d. filter (\<lambda>p. n_status (snd p) = Healthy) (placed_available d))) (\<lambda>rs.
        random_sample rs (nat (scrub_batch_size (e_settings E)))))) (\<lambda>sample.
      bnd (foldM (scrub_shard E) sample []) (repair_files E)))"

section \<open>The cycle\<close>

definition job :: "'a mio \<Rightarrow> unit mio" where
  "job m = bnd (attempt m) (\<lambda>_. ret ())"

definition run_cycle :: "env \<Rightarrow> unit mio" where
  "run_cycle E =
     seq (job (check_node_health E))
     (seq (job (on_fleet (gc_stale_uploads E)))
     (seq (job (on_fleet (gc_deleted_files E)))
     (seq (job (on_fleet (repair_lost_shards E)))
     (job (on_fleet (scrub E))))))"

end
