(* ===== verification/Upkeep.thy ===== *)
theory Upkeep
  imports Maintenance
begin

text \<open>
  What maintenance guarantees: no job, whatever fails during it, loses an intact shard of an available file.
\<close>

section \<open>Intact shards\<close>

text \<open>Shard \<open>j\<close> of file \<open>i\<close>, with checksum \<open>c\<close> in its row, is intact: the node the row names holds bytes
  with this checksum.\<close>

definition intact :: "db \<Rightarrow> (pystr \<Rightarrow> uuid \<Rightarrow> bytes option) \<Rightarrow> uuid \<Rightarrow> nat \<Rightarrow> pystr \<Rightarrow> bool" where
  "intact d h i j c \<longleftrightarrow>
     (\<exists>(s, n) \<in> set (placed_shards i d). s_shard_index s = j \<and> s_checksum_sha256 s = c \<and>
        (\<exists>x. h (n_address n) (s_id s) = Some (shard_file x) \<and> sha256_hex x = c))"

text \<open>No two shards of file \<open>i\<close> lie on one node.\<close>

definition spread :: "db \<Rightarrow> uuid \<Rightarrow> bool" where
  "spread d i \<longleftrightarrow> (\<forall>s \<in> set (shards d). \<forall>s' \<in> set (shards d).
     s_file_id s = i \<and> s_file_id s' = i \<and> s_node_id s = s_node_id s' \<longrightarrow> s = s')"

text \<open>The shards of a file keep their indices and checksums; \<open>laid S d d'\<close>: the files in \<open>S\<close> got no other ones.\<close>

definition shard_key :: "shard_row \<Rightarrow> uuid \<times> nat \<times> pystr" where
  "shard_key s = (s_file_id s, s_shard_index s, s_checksum_sha256 s)"

definition laid :: "uuid set \<Rightarrow> db \<Rightarrow> db \<Rightarrow> bool" where
  "laid S d d' \<longleftrightarrow> (\<forall>s \<in> set (shards d'). s_file_id s \<in> S \<inter> f_id ` set (files d) \<longrightarrow> shard_key s \<in> shard_key ` set (shards d))"

lemma laid_keys: "shard_key ` set (shards d') \<subseteq> shard_key ` set (shards d) \<Longrightarrow> laid S d d'"
  by (auto simp: laid_def)

lemma laid_sub [simp]: "set (shards d') \<subseteq> set (shards d) \<Longrightarrow> laid S d d'"
  by (rule laid_keys) blast

lemma laid_trans:
  assumes "laid S d d1" and "laid T d1 d2" and "S \<subseteq> T" and "\<And>f. f \<in> set (files d) \<Longrightarrow> f_id f \<in> S \<Longrightarrow> f \<in> set (files d1)"
  shows "laid S d d2"
  unfolding laid_def
proof (intro ballI impI)
  fix s
  assume s: "s \<in> set (shards d2)" "s_file_id s \<in> S \<inter> f_id ` set (files d)"
  obtain f where "f \<in> set (files d)" "f_id f = s_file_id s" using s(2) by auto
  then have "f \<in> set (files d1)" using assms(4) s(2) by auto
  then have "s_file_id s \<in> T \<inter> f_id ` set (files d1)" using \<open>f_id f = s_file_id s\<close> assms(3) s(2) by (auto intro: rev_image_eqI)
  then have "shard_key s \<in> shard_key ` set (shards d1)" using assms(2) s(1) by (simp add: laid_def)
  then obtain s1 where s1: "s1 \<in> set (shards d1)" "shard_key s = shard_key s1" by (rule imageE)
  then have "s_file_id s1 = s_file_id s" by (simp add: shard_key_def)
  then have "shard_key s1 \<in> shard_key ` set (shards d)" using assms(1) s1(1) s(2) by (simp add: laid_def)
  then show "shard_key s \<in> shard_key ` set (shards d)" using s1(2) by simp
qed

text \<open>From \<open>d, h\<close> to \<open>d', h'\<close> the files in \<open>S\<close> kept their rows and their intact shards.\<close>

definition spared :: "uuid set \<Rightarrow> db \<Rightarrow> (pystr \<Rightarrow> uuid \<Rightarrow> bytes option) \<Rightarrow> db \<Rightarrow> (pystr \<Rightarrow> uuid \<Rightarrow> bytes option) \<Rightarrow> bool" where
  "spared S d h d' h' \<longleftrightarrow>
     constraints_ok d' \<and> users d' = users d \<and> (\<exists>as. map a_id (audits d') = map a_id (audits d) @ as) \<and>
     (\<forall>f \<in> set (files d). f_id f \<in> S \<longrightarrow> f \<in> set (files d')) \<and>
     (\<forall>i \<in> S. \<forall>j c. intact d h i j c \<longrightarrow> intact d' h' i j c) \<and>
     (\<forall>i. spread d i \<longrightarrow> spread d' i) \<and> laid S d d'"

lemma spared_trans:
  assumes "spared S d h d1 h1" and "spared T d1 h1 d2 h2" and "S \<subseteq> T"
  shows "spared S d h d2 h2"
  using assms laid_trans [of S d d1 T d2] unfolding spared_def by (elim conjE exE, intro conjI) (auto simp: subset_iff)

lemma intactI:
  assumes "(s, n) \<in> set (placed_shards i d)" and "s_shard_index s = j" and "s_checksum_sha256 s = c"
    and "h (n_address n) (s_id s) = Some (shard_file x)" and "sha256_hex x = c"
  shows "intact d h i j c"
  unfolding intact_def using assms by blast

lemma intactE:
  assumes "intact d h i j c"
  obtains s n x where "(s, n) \<in> set (placed_shards i d)" "s_shard_index s = j" "s_checksum_sha256 s = c"
    "h (n_address n) (s_id s) = Some (shard_file x)" "sha256_hex x = c"
  using assms unfolding intact_def by blast

text \<open>The same rows, and nothing lost on the nodes.\<close>

lemma spared_more:
  assumes "constraints_ok d" and "\<And>a u. h a u \<noteq> None \<Longrightarrow> h' a u = h a u"
  shows "spared S d h d h'"
proof -
  have "intact d h' i j c" if "intact d h i j c" for i j c
    using that by (rule intactE) (rule intactI, auto simp: assms(2))
  then show ?thesis using assms(1) by (simp add: spared_def)
qed

text \<open>Nodes that only change their state.\<close>

definition same_but_nodes :: "db \<Rightarrow> db \<Rightarrow> bool" where
  "same_but_nodes d d' \<longleftrightarrow> users d' = users d \<and> files d' = files d \<and> shards d' = shards d \<and>
     audits d' = audits d \<and> map node_at (nodes d') = map node_at (nodes d)"

lemma spared_nodes:
  assumes "same_but_nodes d d'" and "constraints_ok d'"
  shows "spared S d h d' h"
proof -
  have "intact d' h i j c" if "intact d h i j c" for i j c
    using that
  proof (rule intactE)
    fix s n x
    assume p: "(s, n) \<in> set (placed_shards i d)" "s_shard_index s = j" "s_checksum_sha256 s = c"
      "h (n_address n) (s_id s) = Some (shard_file x)" "sha256_hex x = c"
    have "map (map_prod id node_at) (placed_shards i d') = map (map_prod id node_at) (placed_shards i d)"
      using assms(1) by (intro placed_shards_at) (simp_all add: same_but_nodes_def)
    then have "map_prod id node_at (s, n) \<in> map_prod id node_at ` set (placed_shards i d')"
      using p(1) by (metis imageI list.set_map)
    then obtain n' where "(s, n') \<in> set (placed_shards i d')" "n_address n' = n_address n"
      by (auto simp: node_at_def)
    then show "intact d' h i j c" using p by (intro intactI [of s n']) simp_all
  qed
  then show ?thesis using assms by (simp add: spared_def same_but_nodes_def spread_def)
qed

text \<open>Files in \<open>S\<close> are spared when shards of another file go.\<close>

lemma spared_removal:
  assumes d: "inj_on s_id (set (shards d))" and r: "shards_removed d i h d' w" and d': "constraints_ok d'"
  shows "spared (- {i}) d h d' (held w)"
proof -
  obtain X where X: "d' = removed_rows X d" "\<And>s. s \<in> set (shards d) \<Longrightarrow> s_id s \<in> X \<Longrightarrow> s_file_id s = i"
    using r by (auto simp: shards_removed_def)
  have kept: "held w a u = h a u \<or> (\<exists>(s, n) \<in> set (placed_shards i d). n_address n = a \<and> s_id s = u)" for a u
    using r unfolding shards_removed_def by blast
  have "intact d' (held w) k j c" if k: "k \<noteq> i" and t: "intact d h k j c" for k j c
    using t
  proof (rule intactE)
    fix s n x
    assume p: "(s, n) \<in> set (placed_shards k d)" "s_shard_index s = j" "s_checksum_sha256 s = c"
      "h (n_address n) (s_id s) = Some (shard_file x)" "sha256_hex x = c"
    then have s: "s \<in> set (shards d)" "s_file_id s = k" "n \<in> set (nodes d)" "n_id n = s_node_id s"
      by (simp_all add: placed_shards_iff)
    have "s_id s \<notin> X" using X(2) [OF s(1)] s(2) k by blast
    then have placed: "(s, n) \<in> set (placed_shards k d')"
      using s by (simp add: placed_shards_iff X(1) removed_rows_def)
    have "held w (n_address n) (s_id s) = h (n_address n) (s_id s)"
    proof (rule ccontr)
      assume "held w (n_address n) (s_id s) \<noteq> h (n_address n) (s_id s)"
      then obtain s' n' where "(s', n') \<in> set (placed_shards i d)" "s_id s' = s_id s" using kept by blast
      then have "s' \<in> set (shards d)" "s_file_id s' = i" "s_id s' = s_id s" by (simp_all add: placed_shards_iff)
      then have "s' = s" using inj_onD [OF d] s(1) by blast
      then show False using \<open>s_file_id s' = i\<close> s(2) k by simp
    qed
    then show "intact d' (held w) k j c" using placed p by (intro intactI) auto
  qed
  then show ?thesis using d' by (simp add: spared_def X(1) removed_rows_def spread_def)
qed

lemma spared_delete_file:
  assumes d: "constraints_ok d"
    and kept: "\<And>a u. h' a u = h a u \<or> (a, u) \<in> (\<lambda>p. (n_address (snd p), s_id (fst p))) ` set (placed_shards i d)"
  shows "spared (- {i}) d h (delete_file_row i d) h'" and "spared (- {i}) d h d h'"
proof -
  have same: "h' (n_address n) (s_id s) = h (n_address n) (s_id s)"
    if "(s, n) \<in> set (placed_shards k d)" "k \<noteq> i" for s n k
  proof (rule ccontr)
    assume "h' (n_address n) (s_id s) \<noteq> h (n_address n) (s_id s)"
    then have "(n_address n, s_id s) \<in> (\<lambda>p. (n_address (snd p), s_id (fst p))) ` set (placed_shards i d)"
      using kept by blast
    then obtain p where "p \<in> set (placed_shards i d)" "s_id (fst p) = s_id s" by auto
    moreover have "s \<in> set (shards d)" "s_file_id s = k" using that(1) by (simp_all add: placed_shards_iff)
    ultimately have "fst p = s" "s_file_id (fst p) = i"
      using constraints_okD(2) [OF d] placed_shards_iff [of "fst p" "snd p" i d]
      by (simp_all add: keys_unique_def) (metis distinct_map inj_onD)
    then show False using \<open>s_file_id s = k\<close> that(2) by simp
  qed
  have "intact (delete_file_row i d) h' k j c \<and> intact d h' k j c" if k: "k \<noteq> i" and t: "intact d h k j c" for k j c
    using t
  proof (rule intactE)
    fix s n x
    assume p: "(s, n) \<in> set (placed_shards k d)" "s_shard_index s = j" "s_checksum_sha256 s = c"
      "h (n_address n) (s_id s) = Some (shard_file x)" "sha256_hex x = c"
    then have "(s, n) \<in> set (placed_shards k (delete_file_row i d))"
      using k by (simp add: placed_shards_iff delete_file_row_def)
    then show ?thesis using p same [OF p(1) k] by (auto intro!: intactI)
  qed
  moreover have "\<exists>as. map a_id (audits (delete_file_row i d)) = map a_id (audits d) @ as"
    by (rule exI [where x = "[]"]) (simp add: delete_file_row_def)
  moreover have "users (delete_file_row i d) = users d" "set (shards (delete_file_row i d)) \<subseteq> set (shards d)"
    "f \<in> set (files d) \<Longrightarrow> f_id f \<noteq> i \<Longrightarrow> f \<in> set (files (delete_file_row i d))" for f
    by (auto simp: delete_file_row_def)
  ultimately show "spared (- {i}) d h (delete_file_row i d) h'" "spared (- {i}) d h d h'"
    using d constraints_delete_file [OF d, of i] unfolding spared_def spread_def by (simp_all, blast)
qed

section \<open>Moving a shard\<close>

definition moved :: "shard_row \<Rightarrow> uuid \<Rightarrow> node_row \<Rightarrow> int \<Rightarrow> db \<Rightarrow> db" where
  "moved s new t now = set_shard (s_id s) (\<lambda>s. s\<lparr>s_id := new, s_node_id := n_id t, s_created_at := now\<rparr>)"

definition moved_row :: "shard_row \<Rightarrow> uuid \<Rightarrow> node_row \<Rightarrow> int \<Rightarrow> shard_row" where
  "moved_row s new t now = s\<lparr>s_id := new, s_node_id := n_id t, s_created_at := now\<rparr>"

lemma moved_row_simps [simp]:
  "s_file_id (moved_row s new t now) = s_file_id s" "s_shard_index (moved_row s new t now) = s_shard_index s"
  "s_checksum_sha256 (moved_row s new t now) = s_checksum_sha256 s" "s_id (moved_row s new t now) = new"
  "s_node_id (moved_row s new t now) = n_id t"
  by (simp_all add: moved_row_def)

lemma moved_tables [simp]:
  "users (moved s new t now d) = users d" "files (moved s new t now d) = files d"
  "nodes (moved s new t now d) = nodes d" "audits (moved s new t now d) = audits d"
  by (simp_all add: moved_def set_shard_def)

lemma in_moved:
  assumes d: "constraints_ok d" and s: "s \<in> set (shards d)"
  shows "r \<in> set (shards (moved s new t now d)) \<longleftrightarrow> r = moved_row s new t now \<or> r \<in> set (shards d) \<and> r \<noteq> s"
proof -
  have "x = s" if "x \<in> set (shards d)" "s_id x = s_id s" for x
    using inj_onD [OF keys_inj(6) [OF d]] that s by blast
  then have "set (shards (moved s new t now d)) = (\<lambda>r. if r = s then moved_row s new t now else r) ` set (shards d)"
    by (auto simp: moved_def set_shard_def moved_row_def intro!: image_cong)
  also have "r \<in> \<dots> \<longleftrightarrow> r = moved_row s new t now \<or> r \<in> set (shards d) \<and> r \<noteq> s"
    unfolding image_iff using s by metis
  finally show ?thesis .
qed

text \<open>A shard is moved to a node without shards of its file; its old copy may go.\<close>

lemma spared_moved:
  assumes d: "constraints_ok d" and d': "constraints_ok (moved s new t now d)"
    and s: "s \<in> set (shards d)" and n: "n \<in> set (nodes d)" "n_id n = s_node_id s" and t: "t \<in> set (nodes d)"
    and free: "\<And>r. r \<in> set (shards d) \<Longrightarrow> s_file_id r = s_file_id s \<Longrightarrow> s_node_id r \<noteq> n_id t"
    and put: "h' (n_address t) new = Some (shard_file x)" "sha256_hex x = s_checksum_sha256 s"
    and rest: "\<And>a u. (a, u) \<noteq> (n_address t, new) \<Longrightarrow> (a, u) \<noteq> (n_address n, s_id s) \<Longrightarrow> h' a u = h a u"
  shows "spared S d h (moved s new t now d) h'"
proof -
  let ?d' = "moved s new t now d"
  note ids = constraints_okD(2) [OF d] constraints_okD(2) [OF d']
  have "intact ?d' h' i j c" if "intact d h i j c" for i j c
    using that
  proof (rule intactE)
    fix s1 n1 y
    assume p: "(s1, n1) \<in> set (placed_shards i d)" "s_shard_index s1 = j" "s_checksum_sha256 s1 = c"
      "h (n_address n1) (s_id s1) = Some (shard_file y)" "sha256_hex y = c"
    show "intact ?d' h' i j c"
    proof (cases "s1 = s")
      case True
      have "(moved_row s new t now, t) \<in> set (placed_shards i ?d')"
        using p(1) t True by (simp add: placed_shards_iff in_moved [OF d s])
      then show ?thesis using p put True by (intro intactI [of "moved_row s new t now" t i _ j c h' x]) simp_all
    next
      case False
      have s1: "s1 \<in> set (shards d)" using p(1) by (simp add: placed_shards_iff)
      then have "s1 \<in> set (shards ?d')" "moved_row s new t now \<in> set (shards ?d')" using False by (simp_all add: in_moved [OF d s])
      moreover have "s1 \<noteq> moved_row s new t now"
      proof
        assume "s1 = moved_row s new t now"
        then have "s_file_id s1 = s_file_id s" "s_shard_index s1 = s_shard_index s" by simp_all
        then show False using ids(1) s1 s False by (auto simp: keys_unique_def distinct_map inj_on_def)
      qed
      ultimately have "s_id s1 \<noteq> new"
        using ids(2) by (metis distinct_map inj_onD keys_unique_def moved_row_simps(4))
      moreover have "s_id s1 \<noteq> s_id s" using ids(1) s1 s False by (metis distinct_map inj_onD keys_unique_def)
      ultimately have "h' (n_address n1) (s_id s1) = h (n_address n1) (s_id s1)" by (intro rest) auto
      moreover have "(s1, n1) \<in> set (placed_shards i ?d')"
        using p(1) False by (simp add: placed_shards_iff in_moved [OF d s])
      ultimately show ?thesis using p by (intro intactI [of s1 n1 i _ j c h' y]) simp_all
    qed
  qed
  moreover have "spread ?d' i" if "spread d i" for i
    using that free unfolding spread_def Ball_def in_moved [OF d s] by (metis moved_row_simps(1,5))
  moreover have "laid S d ?d'"
  proof (rule laid_keys, rule subsetI, erule imageE)
    fix k r
    assume r: "k = shard_key r" "r \<in> set (shards ?d')"
    have "shard_key (moved_row s new t now) = shard_key s" by (simp add: shard_key_def)
    then show "k \<in> shard_key ` set (shards d)" using r s unfolding in_moved [OF d s] by auto
  qed
  ultimately show ?thesis using d' by (simp add: spared_def)
qed

section \<open>The jobs on the worker's state\<close>

definition sparing :: "uuid set \<Rightarrow> db \<Rightarrow> (pystr \<Rightarrow> uuid \<Rightarrow> bytes option) \<Rightarrow> world \<Rightarrow> bool" where
  "sparing S d h w \<longleftrightarrow> fleet_ok w \<and> spared S d h (w_db w) (held w)"

lemma sparing_updates [simp]:
  "sparing S d h (w\<lparr>w_trips := k\<rparr>) = sparing S d h w" "sparing S d h (w\<lparr>w_tx := e\<rparr>) = sparing S d h w"
  "sparing S d h (w\<lparr>w_drawn := k\<rparr>) = sparing S d h w" "sparing S d h (w\<lparr>w_shuffled := k\<rparr>) = sparing S d h w"
  "sparing S d h (w\<lparr>w_sent := k\<rparr>) = sparing S d h w"
  by (simp_all add: sparing_def)

text \<open>\<open>settled\<close>: also, the open session has nothing pending.\<close>

definition settled :: "uuid set \<Rightarrow> db \<Rightarrow> (pystr \<Rightarrow> uuid \<Rightarrow> bytes option) \<Rightarrow> world \<Rightarrow> bool" where
  "settled S d h w \<longleftrightarrow> sparing S d h w \<and> w_tx w = w_db w"

lemma sparing_session:
  assumes "triple (settled S d h) m (\<lambda>_. sparing S d h) (\<lambda>_. sparing S d h)"
  shows "keeps (sparing S d h) (with_session m)"
proof (rule keepsI)
  fix w r w'
  assume w: "sparing S d h w" and run: "with_session m w = (r, w')"
  obtain v where v: "m (w\<lparr>w_tx := w_db w\<rparr>) = (r, v)" "w' = v\<lparr>w_tx := w_db v\<rparr>"
    using run by (rule with_session_run)
  have "settled S d h (w\<lparr>w_tx := w_db w\<rparr>)" using w by (simp add: settled_def)
  from tripleD [OF assms this] v show "sparing S d h w'" by (cases r) simp_all
qed

lemma steady_settled: "steady (settled S d h)"
  by (simp add: steady_def settled_def)

lemma select_settled:
  "triple (settled S d h) (db_select f) (\<lambda>x w. settled S d h w \<and> (\<exists>v. settled S d h v \<and> x = f (w_db v))) (\<lambda>_. sparing S d h)"
  by (rule triple_conseq [OF db_select_triple [OF steady_settled]]) (auto simp: settled_def)

lemma mapM_triple:
  assumes "\<And>x. x \<in> set xs \<Longrightarrow> triple P (f x) (\<lambda>_. P) E"
  shows "triple P (mapM f xs) (\<lambda>_. P) E"
  using assms
proof (induction xs)
  case (Cons x xs)
  have rest: "triple P (mapM f xs) (\<lambda>_. P) E" by (rule Cons.IH) (simp add: Cons.prems)
  show ?case
    unfolding mapM.simps
    by (rule triple_bnd [OF Cons.prems], simp, rule triple_bnd [OF rest], rule triple_ret)
qed (simp add: triple_ret)

text \<open>A step that spares the files of \<open>T\<close>, from wherever the job has come.\<close>

lemma sparing_step:
  assumes step: "\<And>d1 h1. constraints_ok d1 \<Longrightarrow>
      triple (\<lambda>w. rows d1 w \<and> fleet_ok w \<and> h1 = held w) m (\<lambda>_. settled T d1 h1) (\<lambda>_. sparing T d1 h1)"
    and sub: "S \<subseteq> T"
  shows "triple (settled S d h) m (\<lambda>_. settled S d h) (\<lambda>_. sparing S d h)"
proof -
  have pre: "constraints_ok (w_db w)" "rows (w_db w) w \<and> fleet_ok w \<and> held w = held w" if "settled S d h w" for w
    using that by (simp_all add: settled_def sparing_def spared_def rows_def)
  have trans: "sparing T (w_db w) (held w) v \<Longrightarrow> sparing S d h v" if "settled S d h w" for w v
    using that sub spared_trans by (auto simp: settled_def sparing_def)
  show ?thesis
  proof (rule tripleI)
    fix w x v
    assume w: "settled S d h w" and run: "m w = (Inr x, v)"
    from triple_InrD [OF step [OF pre(1) [OF w]] pre(2) [OF w] run] trans [OF w] show "settled S d h v"
      by (simp add: settled_def)
  next
    fix w e v
    assume w: "settled S d h w" and run: "m w = (Inl e, v)"
    from triple_InlD [OF step [OF pre(1) [OF w]] pre(2) [OF w] run] trans [OF w] show "sparing S d h v" by simp
  qed
qed

lemma commit_settles: "db_commit w = (Inr u, v) \<Longrightarrow> w_tx v = w_db v"
  by (auto simp: db_commit_def Let_def split: option.splits db_fault.splits if_splits)

section \<open>Garbage collection\<close>

lemma remove_sparing:
  assumes "i \<notin> S"
  shows "triple (settled S d h) (remove_deleted_shards E i) (\<lambda>_. settled S d h) (\<lambda>_. sparing S d h)"
proof (rule sparing_step [where T = "- {i}"])
  fix d1 h1
  assume d1: "constraints_ok d1"
  have post: "sparing (- {i}) d1 h1 v" if "removal d1 i h1 v" for v
    using that spared_removal [OF keys_inj(6) [OF d1]] by (simp add: removal_def sparing_def)
  have settles: "w_tx v = w_db v" if "remove_deleted_shards E i w = (Inr x, v)" for w x v
    using that unfolding remove_deleted_shards_def by (auto simp: bnd_Inr dest: commit_settles)
  show "triple (\<lambda>w. rows d1 w \<and> fleet_ok w \<and> h1 = held w) (remove_deleted_shards E i)
      (\<lambda>_. settled (- {i}) d1 h1) (\<lambda>_. sparing (- {i}) d1 h1)"
  proof (rule tripleI)
    fix w x v
    assume w: "rows d1 w \<and> fleet_ok w \<and> h1 = held w" and run: "remove_deleted_shards E i w = (Inr x, v)"
    show "settled (- {i}) d1 h1 v"
      using post [OF triple_InrD [OF remove_triple [OF d1, of h1 E i] w run]] settles [OF run]
      by (simp add: settled_def)
  next
    fix w e v
    assume w: "rows d1 w \<and> fleet_ok w \<and> h1 = held w" and run: "remove_deleted_shards E i w = (Inl e, v)"
    show "sparing (- {i}) d1 h1 v" by (rule post [OF triple_InlD [OF remove_triple [OF d1, of h1 E i] w run]])
  qed
qed (use assms in auto)

definition available_ids :: "db \<Rightarrow> uuid set" where
  "available_ids d = f_id ` {f \<in> set (files d). f_status f = Available}"

lemma not_available:
  assumes "settled (available_ids d) d h v" and "f \<in> set (files (w_db v))" and "f_status f \<noteq> Available"
  shows "f_id f \<notin> available_ids d"
proof
  assume "f_id f \<in> available_ids d"
  then obtain g where g: "g \<in> set (files d)" "f_status g = Available" "f_id g = f_id f" by (auto simp: available_ids_def)
  note v = assms(1) [unfolded settled_def sparing_def spared_def]
  have "g \<in> set (files (w_db v))" using v g(1,3) \<open>f_id f \<in> available_ids d\<close> by metis
  moreover have "keys_unique (w_db v)" using v constraints_okD(2) by blast
  ultimately have "g = f" using assms(2) g(3) by (metis distinct_map inj_onD keys_unique_def)
  then show False using g(2) assms(3) by simp
qed

text \<open>A job that works through the files it selected, none of them available.\<close>

lemma selected_sparing:
  assumes select: "\<And>e f. f \<in> set (sel e) \<Longrightarrow> f \<in> set (files e) \<and> f_status f \<noteq> Available"
    and step: "\<And>f S. f_id f \<notin> S \<Longrightarrow> triple (settled S d h) (m f) (\<lambda>_. settled S d h) (\<lambda>_. sparing S d h)"
  shows "keeps (sparing (available_ids d) d h) (with_session (bnd (db_select sel) (\<lambda>fs. seq (mapM m fs) (ret ()))))"
proof (rule sparing_session, rule triple_bnd [OF select_settled])
  let ?S = "available_ids d"
  fix fs
  show "triple (\<lambda>w. settled ?S d h w \<and> (\<exists>v. settled ?S d h v \<and> fs = sel (w_db v))) (seq (mapM m fs) (ret ()))
      (\<lambda>_. sparing ?S d h) (\<lambda>_. sparing ?S d h)"
  proof (cases "\<exists>v. settled ?S d h v \<and> fs = sel (w_db v)")
    case True
    then obtain v where v: "settled ?S d h v" "fs = sel (w_db v)" by blast
    have "f_id f \<notin> ?S" if "f \<in> set fs" for f
      using not_available [OF v(1)] select that unfolding v(2) by blast
    then have "triple (settled ?S d h) (mapM m fs) (\<lambda>_. settled ?S d h) (\<lambda>_. sparing ?S d h)"
      by (intro mapM_triple step)
    then have "triple (settled ?S d h) (seq (mapM m fs) (ret ())) (\<lambda>_. sparing ?S d h) (\<lambda>_. sparing ?S d h)"
      by (rule triple_bnd) (rule triple_ret, simp add: settled_def)
    then show ?thesis by (rule triple_pre) simp
  qed (auto simp: triple_def)
qed

lemma gc_deleted_sparing: "keeps (sparing (available_ids d) d h) (gc_deleted_files E)"
  unfolding gc_deleted_files_def by (rule selected_sparing) (auto intro: remove_sparing)

lemma stale_sparing:
  assumes "f_id f \<notin> S"
  shows "triple (settled S d h) (gc_stale_upload E f) (\<lambda>_. settled S d h) (\<lambda>_. sparing S d h)"
proof (rule sparing_step [where T = "- {f_id f}"])
  let ?T = "- {f_id f}"
  fix d1 h1
  assume d1: "constraints_ok d1"
  let ?keys = "(\<lambda>p. (n_address (snd p), s_id (fst p))) ` set (placed_shards (f_id f) d1)"
  let ?gone = "\<lambda>w. rows d1 w \<and> fleet_ok w \<and> (\<forall>a u. held w a u = h1 a u \<or> (a, u) \<in> ?keys)"
  let ?E = "\<lambda>_. sparing ?T d1 h1"
  have still: "sparing ?T d1 h1 w" "settled ?T d1 h1 w" if "?gone w" for w
    using that spared_delete_file(2) [OF d1, of "held w" h1 "f_id f"] by (simp_all add: settled_def sparing_def rows_def)
  have sel: "triple (\<lambda>w. rows d1 w \<and> fleet_ok w \<and> h1 = held w) (db_select (placed_shards (f_id f)))
      (\<lambda>ps w. (rows d1 w \<and> fleet_ok w \<and> h1 = held w) \<and> ps = placed_shards (f_id f) d1) ?E"
    by (rule triple_conseq [OF db_select_triple [of "\<lambda>w. rows d1 w \<and> fleet_ok w \<and> h1 = held w"]])
      (use still in \<open>auto simp: steady_def rows_def\<close>)
  have del: "triple (\<lambda>w. rows d1 w \<and> fleet_ok w \<and> h1 = held w) (delete_placed E (placed_shards (f_id f) d1))
      (\<lambda>_. ?gone) ?E"
    by (rule triple_conseq [OF delete_placed_triple [OF distinct_placed_shards [OF d1], of d1 h1 E "f_id f" ?E]]) auto
  have exec: "triple ?gone (db_execute (delete_file_row (f_id f)))
      (\<lambda>_ w. w_db w = d1 \<and> w_tx w = delete_file_row (f_id f) d1 \<and> fleet_ok w \<and> (\<forall>a u. held w a u = h1 a u \<or> (a, u) \<in> ?keys)) ?E"
    by (rule db_execute_triple) (use still in \<open>auto simp: rows_def\<close>)
  have commit: "triple (\<lambda>w. w_db w = d1 \<and> w_tx w = delete_file_row (f_id f) d1 \<and> fleet_ok w \<and> (\<forall>a u. held w a u = h1 a u \<or> (a, u) \<in> ?keys))
      db_commit (\<lambda>_. settled ?T d1 h1) ?E"
    by (rule db_commit_triple)
      (use spared_delete_file [OF d1, of _ h1 "f_id f"] in \<open>auto simp: settled_def sparing_def\<close>)
  show "triple (\<lambda>w. rows d1 w \<and> fleet_ok w \<and> h1 = held w) (gc_stale_upload E f) (\<lambda>_. settled ?T d1 h1) ?E"
    unfolding gc_stale_upload_def
  proof (rule triple_bnd [OF sel])
    fix ps
    have "triple ?gone (if list_ex is_failure rs then ret () else seq (db_execute (delete_file_row (f_id f))) db_commit)
        (\<lambda>_. settled ?T d1 h1) ?E" for rs
      by (intro triple_if triple_ret still(2) triple_bnd [OF exec] commit)
    then have "triple (\<lambda>w. rows d1 w \<and> fleet_ok w \<and> h1 = held w)
        (bnd (delete_placed E (placed_shards (f_id f) d1)) (\<lambda>results.
          if list_ex is_failure results then ret () else seq (db_execute (delete_file_row (f_id f))) db_commit))
        (\<lambda>_. settled ?T d1 h1) ?E"
      by (rule triple_bnd [OF del])
    then show "triple (\<lambda>w. (rows d1 w \<and> fleet_ok w \<and> h1 = held w) \<and> ps = placed_shards (f_id f) d1)
        (bnd (delete_placed E ps) (\<lambda>results.
          if list_ex is_failure results then ret () else seq (db_execute (delete_file_row (f_id f))) db_commit))
        (\<lambda>_. settled ?T d1 h1) ?E"
      by (cases "ps = placed_shards (f_id f) d1") (auto simp: triple_def)
  qed
qed (use assms in auto)

lemma gc_stale_sparing: "keeps (sparing (available_ids d) d h) (gc_stale_uploads E)"
  unfolding gc_stale_uploads_def Let_def
  by (intro wp selected_sparing stale_sparing) auto

end
