(* ===== verification/Repairs.thy ===== *)
theory Repairs
  imports Upkeep
begin

text \<open>
  Repair, scrubbing and the whole maintenance cycle.
\<close>

section \<open>Repair\<close>

text \<open>What is left of a repair of file \<open>i\<close>: rows to move, each to a node of its own without a shard of the file.\<close>

type_synonym repair = "(shard_row \<times> node_row) \<times> bytes \<times> node_row"

definition repairable :: "db \<Rightarrow> uuid \<Rightarrow> repair list \<Rightarrow> bool" where
  "repairable d i todo \<longleftrightarrow>
     distinct (map (\<lambda>r. s_id (fst (fst r))) todo) \<and> distinct (map (\<lambda>r. n_id (snd (snd r))) todo) \<and>
     (\<forall>((s, n), b, t) \<in> set todo. (s, n) \<in> set (placed_shards i d) \<and> t \<in> set (nodes d) \<and>
        (\<forall>r \<in> set (shards d). s_file_id r = i \<longrightarrow> s_node_id r \<noteq> n_id t))"

lemma repairableD:
  assumes "repairable d i (((s, n), b, t) # todo)"
  shows "s \<in> set (shards d)" "s_file_id s = i" "n \<in> set (nodes d)" "n_id n = s_node_id s" "t \<in> set (nodes d)"
    "\<And>r. r \<in> set (shards d) \<Longrightarrow> s_file_id r = i \<Longrightarrow> s_node_id r \<noteq> n_id t" "repairable d i todo"
  using assms by (auto simp: repairable_def placed_shards_iff)

lemma repairable_moved:
  assumes d: "constraints_ok d" and r: "repairable d i (((s, n), b, t) # todo)"
  shows "repairable (moved s new t now d) i todo"
proof -
  note x = repairableD [OF r]
  have "(s', n') \<in> set (placed_shards i (moved s new t now d)) \<and> t' \<in> set (nodes d) \<and>
      (\<forall>r \<in> set (shards (moved s new t now d)). s_file_id r = i \<longrightarrow> s_node_id r \<noteq> n_id t')"
    if y: "((s', n'), b', t') \<in> set todo" for s' n' b' t'
  proof -
    have "s_id s \<notin> (\<lambda>r. s_id (fst (fst r))) ` set todo" "n_id t \<notin> (\<lambda>r. n_id (snd (snd r))) ` set todo"
      using r by (simp_all add: repairable_def)
    then have ne: "s' \<noteq> s" "n_id t' \<noteq> n_id t"
      using imageI [OF y, of "\<lambda>r. s_id (fst (fst r))"] imageI [OF y, of "\<lambda>r. n_id (snd (snd r))"]
      by (metis fst_conv, metis snd_conv)
    have old: "(s', n') \<in> set (placed_shards i d)" "t' \<in> set (nodes d)"
      "\<And>q. q \<in> set (shards d) \<Longrightarrow> s_file_id q = i \<Longrightarrow> s_node_id q \<noteq> n_id t'"
      using bspec [OF conjunct2 [OF conjunct2 [OF x(7) [unfolded repairable_def]]] y] by simp_all
    have "s_node_id q \<noteq> n_id t'" if "q \<in> set (shards (moved s new t now d))" "s_file_id q = i" for q
      using that ne(2) old(3) unfolding in_moved [OF d x(1)] by (metis moved_row_simps(5))
    then show ?thesis
      using old(1,2) ne(1) by (simp add: placed_shards_iff in_moved [OF d x(1)])
  qed
  moreover have "distinct (map (\<lambda>r. s_id (fst (fst r))) todo)" "distinct (map (\<lambda>r. n_id (snd (snd r))) todo)"
    using r by (simp_all add: repairable_def)
  ultimately show ?thesis unfolding repairable_def moved_tables by (auto split: prod.split)
qed

text \<open>The states of the move of one shard: bytes added only; the rebuilt block stored.\<close>

definition added :: "db \<Rightarrow> (pystr \<Rightarrow> uuid \<Rightarrow> bytes option) \<Rightarrow> world \<Rightarrow> bool" where
  "added d h w \<longleftrightarrow> w_db w = d \<and> fleet_ok w \<and> (\<forall>a u. h a u \<noteq> None \<longrightarrow> held w a u = h a u)"

definition holding :: "(pystr \<Rightarrow> uuid \<Rightarrow> bytes option) \<Rightarrow> pystr \<Rightarrow> uuid \<Rightarrow> bytes \<Rightarrow> world \<Rightarrow> bool" where
  "holding h a u b w \<longleftrightarrow> fleet_ok w \<and> h a u = None \<and> held w = h(a := (h a)(u := Some (shard_file b)))"

lemma holding_updates [simp]:
  "holding h a u b (w\<lparr>w_trips := k\<rparr>) = holding h a u b w" "holding h a u b (w\<lparr>w_tx := d\<rparr>) = holding h a u b w"
  "holding h a u b (w\<lparr>w_db := d\<rparr>) = holding h a u b w"
  by (simp_all add: holding_def)

lemma holding_added: "holding h a u b w \<Longrightarrow> w_db w = d \<Longrightarrow> added d h w"
  by (auto simp: holding_def added_def)

lemma added_sparing: "constraints_ok d \<Longrightarrow> added d h w \<Longrightarrow> sparing S d h w"
  using spared_more [of d h "held w"] by (auto simp: added_def sparing_def)

lemma put_repair_triple:
  "triple (\<lambda>w. rows d w \<and> fleet_ok w \<and> h = held w) (attempt (client_put E a u b))
    (\<lambda>r w. rows d w \<and> (case r of Inl e \<Rightarrow> added d h w | Inr _ \<Rightarrow> holding h a u b w)) Er"
proof (rule tripleI)
  fix w r v
  assume w: "rows d w \<and> fleet_ok w \<and> h = held w" and run: "attempt (client_put E a u b) w = (Inr r, v)"
  have put: "client_put E a u b w = (r, v)" using run by (simp add: attempt_apply prod_eq_iff)
  have l: "fleet_ok v" "rest_of v = rest_of w" "\<And>c x. (c, x) \<noteq> (a, u) \<Longrightarrow> held v c x = h c x"
    "held v a u = h a u \<or> h a u = None \<and> held v a u = Some (shard_file b)"
    "r = Inr () \<Longrightarrow> h a u = None \<and> held v a u = Some (shard_file b)"
    using fleet.put_law [OF _ put] w by simp_all
  have "rows d v" using w rows_rest [OF l(2)] by blast
  moreover have "h c x \<noteq> None \<Longrightarrow> held v c x = h c x" for c x
    using l(3,4) by (cases "(c, x) = (a, u)") auto
  moreover have "r = Inr () \<Longrightarrow> held v = h(a := (h a)(u := Some (shard_file b)))"
    using l(3,5) by (intro ext) auto
  ultimately show "rows d v \<and> (case r of Inl e \<Rightarrow> added d h v | Inr _ \<Rightarrow> holding h a u b v)"
    using l(1,5) by (cases r) (simp_all add: added_def holding_def rows_def)
qed (simp add: attempt_apply)

lemma delete_old_triple:
  "triple (\<lambda>w. rows d w \<and> holding h a u b w)
    (catching (client_delete E a' u') (\<lambda>e. if is_NodeError e then ret () else raise e))
    (\<lambda>_ w. rows d w \<and> fleet_ok w \<and> (\<forall>c x. (c, x) \<noteq> (a', u') \<longrightarrow> held w c x = (h(a := (h a)(u := Some (shard_file b)))) c x))
    (\<lambda>_ w. rows d w \<and> fleet_ok w \<and> (\<forall>c x. (c, x) \<noteq> (a', u') \<longrightarrow> held w c x = (h(a := (h a)(u := Some (shard_file b)))) c x))"
proof -
  let ?Q = "\<lambda>w. rows d w \<and> fleet_ok w \<and> (\<forall>c x. (c, x) \<noteq> (a', u') \<longrightarrow> held w c x = (h(a := (h a)(u := Some (shard_file b)))) c x)"
  have "?Q v" if w: "rows d w \<and> holding h a u b w" and run: "client_delete E a' u' w = (r, v)" for w r v
  proof -
    have l: "fleet_ok v" "rest_of v = rest_of w" "\<And>c x. (c, x) \<noteq> (a', u') \<Longrightarrow> held v c x = held w c x"
      using fleet.del_law [OF _ run] w by (simp_all add: holding_def)
    have "rows d v" using w rows_rest [OF l(2)] by blast
    moreover have "held w = h(a := (h a)(u := Some (shard_file b)))" using w by (simp add: holding_def)
    ultimately show ?thesis using l(1,3) by metis
  qed
  then have del: "triple (\<lambda>w. rows d w \<and> holding h a u b w) (client_delete E a' u') (\<lambda>_. ?Q) (\<lambda>_. ?Q)"
    by (intro tripleI) blast+
  show ?thesis
    by (rule triple_catching [OF del], rule triple_if) (rule triple_ret, simp, rule triple_raise, simp)
qed

text \<open>Once the new row may be committed, the old shard does not matter any more.\<close>

lemma move_sparing:
  assumes d: "constraints_ok d" and r: "repairable d i (((s, n), b, t) # todo)"
    and ok: "sha256_hex b = s_checksum_sha256 s"
    and m: "constraints_ok (moved s new t now d)" "w_db w = moved s new t now d" "fleet_ok w" "h (n_address t) new = None"
    and h: "\<And>c u. (c, u) \<noteq> (n_address n, s_id s) \<Longrightarrow>
      held w c u = (h(n_address t := (h (n_address t))(new := Some (shard_file b)))) c u"
  shows "sparing UNIV d h w"
proof -
  note x = repairableD [OF r]
  have "n_address n \<noteq> n_address t"
  proof
    assume "n_address n = n_address t"
    then have "n = t" using inj_onD [OF keys_inj(5) [OF d]] x(3,5) by blast
    then show False using x(1,2,4,6) by metis
  qed
  then have stored: "held w (n_address t) new = Some (shard_file b)" using h [of "n_address t" new] by simp
  have "spared UNIV d h (moved s new t now d) (held w)"
    by (rule spared_moved [where h' = "held w", OF d m(1) x(1,3,4,5) _ stored ok]) (use x(2,6) m(4) h in \<open>auto split: if_splits\<close>)
  then show ?thesis using m(2,3) by (simp add: sparing_def)
qed

text \<open>The row moves to the new shard in one transaction.\<close>

lemma move_row_triple:
  fixes new
  assumes d: "constraints_ok d" and r: "repairable d i (((s, n), b, t) # todo)"
    and ok: "sha256_hex b = s_checksum_sha256 s"
  defines "d' \<equiv> \<lambda>now. moved s new t now d"
  shows "triple (\<lambda>w. rows d w \<and> holding h (n_address t) new b w)
    (seq (db_execute (set_shard (s_id s) (\<lambda>s. s\<lparr>s_id := new, s_node_id := n_id t, s_created_at := now\<rparr>))) db_commit)
    (\<lambda>_ w. (rows (d' now) w \<and> holding h (n_address t) new b w) \<and> constraints_ok (d' now)) (\<lambda>_. sparing UNIV d h)"
proof (rule triple_bnd)
  let ?mid = "\<lambda>w. w_db w = d \<and> w_tx w = d' now \<and> holding h (n_address t) new b w"
  show "triple (\<lambda>w. rows d w \<and> holding h (n_address t) new b w)
      (db_execute (set_shard (s_id s) (\<lambda>s. s\<lparr>s_id := new, s_node_id := n_id t, s_created_at := now\<rparr>)))
      (\<lambda>_. ?mid) (\<lambda>_. sparing UNIV d h)"
    by (rule db_execute_triple)
      (use holding_added [of h "n_address t" new b _ d] added_sparing [OF d] in \<open>auto simp: rows_def moved_def d'_def\<close>)
  show "triple ?mid db_commit
      (\<lambda>_ w. (rows (d' now) w \<and> holding h (n_address t) new b w) \<and> constraints_ok (d' now)) (\<lambda>_. sparing UNIV d h)"
  proof (rule db_commit_triple)
    fix w k
    assume w: "?mid w" and c: "constraints_ok (w_tx w)"
    let ?w = "w\<lparr>w_trips := k, w_db := w_tx w\<rparr>"
    show "(rows (d' now) ?w \<and> holding h (n_address t) new b ?w) \<and> constraints_ok (d' now)"
      using w c by (simp add: rows_def)
    show "sparing UNIV d h ?w"
      by (rule move_sparing [OF d r ok, of new now]) (use w c in \<open>auto simp: holding_def d'_def\<close>)
  next
    fix w k
    assume w: "?mid w"
    then have "added d h w" using holding_added by blast
    then show "sparing UNIV d h (w\<lparr>w_trips := k, w_tx := w_db w\<rparr>)" "sparing UNIV d h (w\<lparr>w_trips := k, w_tx := w_db w\<rparr>)"
      using added_sparing [OF d] by simp_all
  qed
qed

lemma drop_old_triple:
  assumes d: "constraints_ok d" and r: "repairable d i (((s, n), b, t) # todo)"
    and ok: "sha256_hex b = s_checksum_sha256 s" and c: "constraints_ok (moved s new t now d)"
  shows "triple (\<lambda>w. rows (moved s new t now d) w \<and> holding h (n_address t) new b w)
    (seq (catching (client_delete E (n_address n) (s_id s)) (\<lambda>e. if is_NodeError e then ret () else raise e))
      (ret (cnt + 1)))
    (\<lambda>_ w. settled UNIV d h w \<and> repairable (w_db w) i todo) (\<lambda>_. sparing UNIV d h)"
proof (cases "h (n_address t) new = None")
  case True
  have gone: "sparing UNIV d h w" "settled UNIV d h w \<and> repairable (w_db w) i todo"
    if "rows (moved s new t now d) w \<and> fleet_ok w \<and> (\<forall>c x. (c, x) \<noteq> (n_address n, s_id s) \<longrightarrow>
         held w c x = (h(n_address t := (h (n_address t))(new := Some (shard_file b)))) c x)" for w
  proof -
    show "sparing UNIV d h w" by (rule move_sparing [OF d r ok c]) (use that True in \<open>auto simp: rows_def\<close>)
    then show "settled UNIV d h w \<and> repairable (w_db w) i todo"
      using that repairable_moved [OF d r] by (simp add: settled_def rows_def)
  qed
  show ?thesis
    by (rule triple_bnd, rule triple_conseq [OF delete_old_triple,
          where Q = "\<lambda>_ w. settled UNIV d h w \<and> repairable (w_db w) i todo" and E = "\<lambda>_. sparing UNIV d h"])
      (use gone in \<open>auto intro!: triple_ret\<close>)
qed (auto simp: triple_def holding_def)

lemma repair_shard_triple:
  assumes d: "constraints_ok d" and r: "repairable d i (((s, n), b, t) # todo)"
  shows "triple (\<lambda>w. rows d w \<and> fleet_ok w \<and> h = held w) (repair_shard E ((s, n), b, t) cnt)
    (\<lambda>_ w. settled UNIV d h w \<and> repairable (w_db w) i todo) (\<lambda>_. sparing UNIV d h)"
proof (cases "sha256_hex b = s_checksum_sha256 s")
  case ok: True
  let ?P = "\<lambda>w. rows d w \<and> fleet_ok w \<and> h = held w"
  let ?Q = "\<lambda>_ w. settled UNIV d h w \<and> repairable (w_db w) i todo" and ?E = "\<lambda>_. sparing UNIV d h"
  have agrees: "\<not> sha256_hex b \<noteq> s_checksum_sha256 s" using ok by simp
  have same: "settled UNIV d h w \<and> repairable (w_db w) i todo" if "rows d w" "added d h w" for w
    using that added_sparing [OF d] repairableD(7) [OF r] by (simp add: settled_def rows_def)
  have new: "triple ?P uuid4 (\<lambda>_. ?P) ?E" by (rule uuid4_triple) (simp add: steady_def rows_def)
  have finish: "triple (\<lambda>w. rows d w \<and> holding h (n_address t) new b w)
      (bnd (gets w_now) (\<lambda>now.
         seq (db_execute (set_shard (s_id s) (\<lambda>s. s\<lparr>s_id := new, s_node_id := n_id t, s_created_at := now\<rparr>)))
         (seq db_commit
         (seq (catching (client_delete E (n_address n) (s_id s)) (\<lambda>e. if is_NodeError e then ret () else raise e))
         (ret (cnt + 1)))))) ?Q ?E" for new
    by (rule triple_bnd [OF gets_triple], rule triple_pre [OF triple_split [OF move_row_triple [OF d r ok]]],
        rule triple_fact, rule drop_old_triple [OF d r ok]) simp_all
  have after: "triple (\<lambda>w. rows d w \<and> (case stored of Inl e \<Rightarrow> added d h w | Inr _ \<Rightarrow> holding h (n_address t) new b w))
      (case stored of Inl e \<Rightarrow> if is_NodeError e then ret cnt else raise e
       | Inr _ \<Rightarrow> bnd (gets w_now) (\<lambda>now.
         seq (db_execute (set_shard (s_id s) (\<lambda>s. s\<lparr>s_id := new, s_node_id := n_id t, s_created_at := now\<rparr>)))
         (seq db_commit
         (seq (catching (client_delete E (n_address n) (s_id s)) (\<lambda>e. if is_NodeError e then ret () else raise e))
         (ret (cnt + 1)))))) ?Q ?E" for stored new
    using finish same added_sparing [OF d] by (cases stored) (auto intro!: triple_ret triple_raise)
  show ?thesis
    unfolding repair_shard_def prod.case if_not_P [OF agrees]
    by (intro triple_bnd [OF new] triple_bnd [OF put_repair_triple] after)
next
  case False
  have "settled UNIV d h w \<and> repairable (w_db w) i todo" if "rows d w \<and> fleet_ok w \<and> h = held w" for w
    using that spared_more [OF d] repairableD(7) [OF r] by (simp add: settled_def sparing_def rows_def)
  then show ?thesis using False unfolding repair_shard_def prod.case by (simp add: triple_def ret_def)
qed

lemma repair_todo_triple:
  "triple (\<lambda>w. settled UNIV d h w \<and> repairable (w_db w) i todo) (foldM (repair_shard E) todo cnt)
    (\<lambda>_. settled UNIV d h) (\<lambda>_. sparing UNIV d h)"
proof (induction todo arbitrary: cnt)
  case (Cons r todo)
  obtain s n b t where r: "r = ((s, n), b, t)" by (metis prod.exhaust)
  show ?case
    unfolding foldM.simps
  proof (rule triple_bnd [OF _ Cons.IH], rule tripleI)
    fix w c v
    assume w: "settled UNIV d h w \<and> repairable (w_db w) i (r # todo)" and run: "repair_shard E r cnt w = (Inr c, v)"
    have pre: "constraints_ok (w_db w)" "rows (w_db w) w \<and> fleet_ok w \<and> held w = held w"
      using w by (simp_all add: settled_def sparing_def spared_def rows_def)
    have "settled UNIV (w_db w) (held w) v \<and> repairable (w_db v) i todo"
      using triple_InrD [OF repair_shard_triple [OF pre(1)] pre(2)] w run unfolding r by blast
    then show "settled UNIV d h v \<and> repairable (w_db v) i todo"
      using w spared_trans [OF _ _ subset_refl] by (auto simp: settled_def sparing_def)
  next
    fix w e v
    assume w: "settled UNIV d h w \<and> repairable (w_db w) i (r # todo)" and run: "repair_shard E r cnt w = (Inl e, v)"
    have pre: "constraints_ok (w_db w)" "rows (w_db w) w \<and> fleet_ok w \<and> held w = held w"
      using w by (simp_all add: settled_def sparing_def spared_def rows_def)
    have "sparing UNIV (w_db w) (held w) v"
      using triple_InlD [OF repair_shard_triple [OF pre(1)] pre(2)] w run unfolding r by blast
    then show "sparing UNIV d h v"
      using w spared_trans [OF _ _ subset_refl] by (auto simp: settled_def sparing_def)
  qed
qed (auto intro: triple_ret)

text \<open>The rows and nodes a repair pairs up.\<close>

lemma repairable_zip:
  assumes d: "constraints_ok d" and targets: "mset targets = mset (spare_nodes (placed_shards i d) ns)"
    and ns: "set ns \<subseteq> set (nodes d)" "distinct (map n_id ns)"
  shows "repairable d i (zip (filter p (placed_shards i d)) (zip rebuilt targets))"
proof -
  let ?bad = "filter p (placed_shards i d)" and ?todo = "zip (filter p (placed_shards i d)) (zip rebuilt targets)"
  have set_t: "set targets = set (spare_nodes (placed_shards i d) ns)" using targets by (rule mset_eq_setD)
  have dist_t: "distinct (map n_id targets)"
  proof -
    have "distinct (map n_id (spare_nodes (placed_shards i d) ns))"
      using ns(2) by (simp add: spare_nodes_def distinct_map_filter)
    then show ?thesis using targets by (metis mset_map mset_eq_imp_distinct_iff)
  qed
  have "map (\<lambda>r. s_id (fst (fst r))) ?todo = map (s_id \<circ> fst) (map fst ?todo)" by simp
  also have "\<dots> = take (length ?todo) (map (s_id \<circ> fst) ?bad)" by (simp add: map_fst_zip_take take_map)
  finally have "distinct (map (\<lambda>r. s_id (fst (fst r))) ?todo)"
    using distinct_placed_ids [OF d, of i] by (simp add: distinct_map_filter distinct_take)
  moreover have "distinct (map (\<lambda>r. n_id (snd (snd r))) ?todo)"
  proof -
    have "map (n_id \<circ> snd) (zip rebuilt targets) = take (min (length rebuilt) (length targets)) (map n_id targets)"
      by (simp add: map_snd_zip_take take_map flip: map_map)
    then have "distinct (map (n_id \<circ> snd) (zip rebuilt targets))" using dist_t by (simp add: distinct_take)
    moreover have "map (n_id \<circ> snd) (map snd ?todo) = take (min (length ?bad) (length (zip rebuilt targets))) (map (n_id \<circ> snd) (zip rebuilt targets))"
      by (simp add: map_snd_zip_take take_map del: map_map)
    ultimately have "distinct (map (n_id \<circ> snd) (map snd ?todo))" by (simp only: distinct_take)
    then show ?thesis by (simp add: comp_def)
  qed
  moreover have "(s, n) \<in> set (placed_shards i d) \<and> t \<in> set (nodes d) \<and>
      (\<forall>r \<in> set (shards d). s_file_id r = i \<longrightarrow> s_node_id r \<noteq> n_id t)" if "((s, n), b, t) \<in> set ?todo" for s n b t
  proof -
    have "(s, n) \<in> set ?bad" "t \<in> set targets" using that by (auto dest: set_zip_leftD set_zip_rightD)
    then have t: "(s, n) \<in> set (placed_shards i d)" "t \<in> set ns" "n_id t \<notin> (\<lambda>p. n_id (snd p)) ` set (placed_shards i d)"
      by (simp_all add: set_t spare_nodes_def)
    have "s_node_id r \<noteq> n_id t" if r: "r \<in> set (shards d)" "s_file_id r = i" for r
    proof -
      obtain m where "m \<in> set (nodes d)" "n_id m = s_node_id r"
        using references_okD(3) [OF constraints_okD(3) [OF d] r(1)] by auto
      then have "(r, m) \<in> set (placed_shards i d)" using r by (simp add: placed_shards_iff)
      then show ?thesis using t(3) \<open>n_id m = s_node_id r\<close> by force
    qed
    then show ?thesis using t ns(1) by blast
  qed
  ultimately show ?thesis unfolding repairable_def by (auto split: prod.split)
qed

lemma settled_self: "settled UNIV d h w \<Longrightarrow> constraints_ok (w_db w) \<and> fleet_ok w \<and> rows (w_db w) w"
  by (simp add: settled_def sparing_def spared_def rows_def)

lemma settled_same:
  "settled S d h w \<Longrightarrow> fleet_ok v \<Longrightarrow> w_db v = w_db w \<Longrightarrow> w_tx v = w_tx w \<Longrightarrow> held v = held w \<Longrightarrow> settled S d h v"
  by (simp add: settled_def sparing_def)

text \<open>Reading blocks changes nothing.\<close>

lemma fetch_settled:
  "triple (\<lambda>w. settled S d h w \<and> w_db w = d1) (fetch_blocks E C k) (\<lambda>_ w. settled S d h w \<and> w_db w = d1) (\<lambda>_. sparing S d h)"
proof (rule tripleI)
  fix w r v
  have same: "settled S d h v \<and> w_db v = d1" if w: "settled S d h w \<and> w_db w = d1" and run: "fetch_blocks E C k w = (r, v)" for r v
  proof -
    have "fleet_ok w" using w by (simp add: settled_def sparing_def)
    from fetch_blocks_run(1) [OF run this] have "fleet_ok v" "held v = held w" "w_db v = w_db w" "w_tx v = w_tx w"
      using rest_of_rows [of v w] by (simp_all add: calls_only_def)
    with w show ?thesis using settled_same [of S d h w v] by simp
  qed
  { fix bs assume "settled S d h w \<and> w_db w = d1" "fetch_blocks E C k w = (Inr bs, v)"
    then show "settled S d h v \<and> w_db v = d1" by (rule same) }
  { fix e assume "settled S d h w \<and> w_db w = d1" "fetch_blocks E C k w = (Inl e, v)"
    from same [OF this] show "sparing S d h v" by (simp add: settled_def) }
qed

lemma select_at:
  "triple (\<lambda>w. settled S d h w \<and> w_db w = d1) (db_select f) (\<lambda>x w. (settled S d h w \<and> w_db w = d1) \<and> x = f d1) (\<lambda>_. sparing S d h)"
  by (rule triple_conseq [OF db_select_triple [of "\<lambda>w. settled S d h w \<and> w_db w = d1"]])
    (auto simp: steady_def settled_def)

text \<open>Each job step may take the committed rows as given.\<close>

lemma settled_at:
  assumes "\<And>d1. constraints_ok d1 \<Longrightarrow> triple (\<lambda>w. settled S d h w \<and> w_db w = d1) m Q E"
  shows "triple (settled S d h) m Q E"
  unfolding triple_def
proof (intro allI impI)
  fix w
  assume w: "settled S d h w"
  then have "constraints_ok (w_db w)" by (simp add: settled_def sparing_def spared_def)
  from tripleD [OF assms [OF this], of w] w
  show "case m w of (Inl e, t) \<Rightarrow> E e t | (Inr x, t) \<Rightarrow> Q x t" by simp
qed

lemma repair_with_sparing:
  assumes d1: "constraints_ok d1"
  shows "triple (\<lambda>w. settled UNIV d h w \<and> w_db w = d1)
    (repair_with E f (placed_shards i d1) (filter p (placed_shards i d1)) blocks) (\<lambda>_. sparing UNIV d h) (\<lambda>_. sparing UNIV d h)"
proof -
  let ?A = "\<lambda>w. settled UNIV d h w \<and> w_db w = d1" and ?E = "\<lambda>_. sparing UNIV d h"
  let ?healthy = "filter (\<lambda>n. n_status n = Healthy) (nodes d1)"
  have healthy: "triple ?A healthy_nodes (\<lambda>ns w. ?A w \<and> ns = ?healthy) ?E"
    unfolding healthy_nodes_def by (rule select_at)
  have shuffle: "triple ?A (random_shuffle ns) (\<lambda>ts w. ?A w \<and> mset ts = mset ns) ?E" for ns :: "node_row list"
    by (rule random_shuffle_triple) (auto simp: steady_def settled_def)
  have moves: "triple ?A (bnd (lift_erasure r) (\<lambda>rebuilt.
        foldM (repair_shard E) (zip (filter p (placed_shards i d1)) (zip rebuilt targets)) 0)) ?E ?E"
    if t: "mset targets = mset (spare_nodes (placed_shards i d1) ?healthy)" for targets r
  proof -
    have "distinct (map n_id ?healthy)"
      using constraints_okD(2) [OF d1] by (simp add: keys_unique_def distinct_map_filter)
    then have "repairable d1 i (zip (filter p (placed_shards i d1)) (zip rebuilt targets))" for rebuilt
      by (intro repairable_zip [OF d1 t]) auto
    then have "triple ?A (foldM (repair_shard E) (zip (filter p (placed_shards i d1)) (zip rebuilt targets)) 0) ?E ?E" for rebuilt
      by (intro triple_conseq [OF repair_todo_triple [of d h i]]) (auto simp: settled_def)
    then show ?thesis
      by (cases r) (auto simp: lift_erasure_def settled_def intro!: triple_raise)
  qed
  show ?thesis
    unfolding repair_with_def
    by (rule triple_bnd [OF healthy], rule triple_fact, rule triple_bnd [OF shuffle], rule triple_fact)
      (simp add: moves)
qed

lemma repair_file_sparing: "keeps (sparing UNIV d h) (repair_file E i bad)"
  unfolding repair_file_def
proof (intro sparing_session settled_at)
  fix d1
  assume d1: "constraints_ok d1"
  let ?A = "\<lambda>w. settled UNIV d h w \<and> w_db w = d1" and ?E = "\<lambda>_. sparing UNIV d h"
  have zero: "triple ?A (ret 0) ?E ?E" by (rule triple_ret) (simp add: settled_def)
  have found: "triple ?A (repair_found E i bad f) ?E ?E" for f
    unfolding repair_found_def Let_def shard_candidates_def
    by (rule triple_bnd [OF select_at], rule triple_fact, rule triple_bnd [OF select_at], rule triple_fact,
        rule triple_bnd [OF fetch_settled], rule triple_if [OF zero]) (simp add: repair_with_sparing [OF d1])
  show "triple ?A (bnd (db_select (get_file i)) (\<lambda>found. case found of None \<Rightarrow> ret 0
      | Some f \<Rightarrow> if f_status f \<noteq> Available then ret 0 else repair_found E i bad f)) ?E ?E"
    by (rule triple_bnd [OF select_at], rule triple_fact) (auto intro: zero found split: option.split)
qed

section \<open>Scrubbing and lost shards\<close>

lemma sparing_any:
  assumes "\<And>d h. keeps (sparing UNIV d h) m"
  shows "keeps (sparing S d h) m"
proof (rule keepsI)
  fix w r v
  assume w: "sparing S d h w" and run: "m w = (r, v)"
  have "sparing UNIV (w_db w) (held w) w"
    using w spared_more [of "w_db w" "held w" "held w"] by (auto simp: sparing_def spared_def)
  from keepsD [OF assms this run] w show "sparing S d h v"
    using spared_trans [of S d h "w_db w" "held w" UNIV] by (auto simp: sparing_def)
qed

lemma sparing_select: "keeps (sparing S d h) (db_select f)"
  by (auto simp: keeps_def db_select_def db_trip_def Let_def split: option.split)

lemma sparing_sample: "keeps (sparing S d h) (random_sample xs k)"
  unfolding random_sample_def by (auto simp: keeps_def random_shuffle_def bnd_def ret_apply)

lemma sparing_get: "keeps (sparing S d h) (client_get E a u)"
proof (rule keepsI)
  fix w y v
  assume w: "sparing S d h w" and run: "client_get E a u w = (y, v)"
  then have "fleet_ok v" "rest_of v = rest_of w" "held v = held w"
    using fleet.get_law [OF _ run] by (simp_all add: sparing_def)
  then show "sparing S d h v" using w rest_of_rows [of v w] by (simp add: sparing_def)
qed

lemma repair_files_sparing: "keeps (sparing S d h) (repair_files E todo)"
  unfolding repair_files_def by (intro wp sparing_any [OF repair_file_sparing])

lemma scrub_sparing: "keeps (sparing S d h) (scrub E)"
  unfolding scrub_def scrub_shard_def
  by (intro wp keeps_session sparing_select sparing_sample sparing_get repair_files_sparing) simp

lemma repair_lost_sparing: "keeps (sparing S d h) (repair_lost_shards E)"
  unfolding repair_lost_shards_def Let_def
  by (intro wp keeps_session sparing_select repair_files_sparing) simp

section \<open>Node health\<close>

lemma on_fleet_triple:
  "triple P m Q E \<Longrightarrow> triple (\<lambda>s. P (mt_world s)) (on_fleet m) (\<lambda>x s. Q x (mt_world s)) (\<lambda>e s. E e (mt_world s))"
  by (fastforce simp: triple_def on_fleet_def split: prod.splits sum.splits)

lemma on_fleet_keeps: "keeps I m \<Longrightarrow> keeps (\<lambda>s. I (mt_world s)) (on_fleet m)"
  by (fastforce simp: keeps_def on_fleet_def split: prod.split)

lemma fleet_session_keeps:
  assumes "triple (\<lambda>s. settled S d h (mt_world s)) m (\<lambda>_ s. sparing S d h (mt_world s)) (\<lambda>_ s. sparing S d h (mt_world s))"
  shows "keeps (\<lambda>s. sparing S d h (mt_world s)) (fleet_session m)"
  unfolding keeps_def
proof (intro allI impI)
  fix s :: maint
  assume "sparing S d h (mt_world s)"
  then have "settled S d h (mt_world (s\<lparr>mt_world := (mt_world s)\<lparr>w_tx := w_db (mt_world s)\<rparr>\<rparr>))"
    by (simp add: settled_def)
  from tripleD [OF assms this] show "sparing S d h (mt_world (snd (fleet_session m s)))"
    by (auto simp: fleet_session_def split: prod.splits sum.splits)
qed

lemma probe_settled: "keeps (\<lambda>w. settled S d h w \<and> w_db w = d1) (is_healthy a)"
  unfolding is_healthy_def
proof (intro wp)
  show "keeps (\<lambda>w. settled S d h w \<and> w_db w = d1) (node_probe a)"
    by (auto simp: keeps_def node_probe_def Let_def settled_def split: option.split net_fault.split)
qed

lemma gather_all_triple:
  assumes "\<And>x. keeps I (f x)"
  shows "triple I (gather_all f xs) (\<lambda>_. I) (\<lambda>_. I)"
  unfolding gather_all_def by (intro triple_keeps wp assms)

text \<open>The session's changes to node rows.\<close>

definition touching :: "uuid set \<Rightarrow> db \<Rightarrow> (pystr \<Rightarrow> uuid \<Rightarrow> bytes option) \<Rightarrow> db \<Rightarrow> world \<Rightarrow> bool" where
  "touching S d h d1 w \<longleftrightarrow> sparing S d h w \<and> w_db w = d1 \<and> same_but_nodes d1 (w_tx w)"

lemma same_but_nodes_set:
  assumes "same_but_nodes d1 d" and "\<And>n. node_at (g n) = node_at n"
  shows "same_but_nodes d1 (set_node i g d)"
proof -
  have "map node_at (nodes (set_node i g d)) = map node_at (nodes d)"
    using assms(2) by (auto simp: set_node_def)
  moreover have "users (set_node i g d) = users d" "files (set_node i g d) = files d"
    "shards (set_node i g d) = shards d" "audits (set_node i g d) = audits d" by (simp_all add: set_node_def)
  ultimately show ?thesis using assms(1) by (simp add: same_but_nodes_def)
qed

lemma note_probe_keeps: "keeps (\<lambda>s. touching S d h d1 (mt_world s)) (note_probe E now r)"
proof -
  have stage: "keeps (\<lambda>s. touching S d h d1 (mt_world s)) (on_fleet (db_stage (set_node i g)))"
    if "\<And>n. node_at (g n) = node_at n" for i g
    by (rule on_fleet_keeps) (auto simp: keeps_def db_stage_def modify_apply touching_def intro!: same_but_nodes_set that)
  have tally: "keeps (\<lambda>s. touching S d h d1 (mt_world s)) (modify (\<lambda>s. s\<lparr>mt_failures := f s\<rparr>))" for f
    by (rule keeps_modify) simp
  show ?thesis
    unfolding note_probe_def by (intro wp stage tally) (simp_all add: node_at_def)
qed

lemma check_health_sparing: "keeps (\<lambda>s. sparing S d h (mt_world s)) (check_node_health E)"
  unfolding check_node_health_def
proof (rule fleet_session_keeps)
  let ?E = "\<lambda>_ s. sparing S d h (mt_world s)"
  have at: "triple (\<lambda>s. settled S d h (mt_world s) \<and> w_db (mt_world s) = d1)
      (bnd (on_fleet (db_select (\<lambda>d. filter (\<lambda>n. n_status n \<noteq> Decommissioned) (nodes d)))) (\<lambda>ns.
       bnd (on_fleet (gather_all (\<lambda>n. is_healthy (n_address n)) ns)) (\<lambda>results.
       bnd (on_fleet (gets w_now)) (\<lambda>now.
       seq (mapM (note_probe E now) (zip ns results))
       (on_fleet db_commit))))) ?E ?E" for d1
  proof -
    let ?A = "\<lambda>s. settled S d h (mt_world s) \<and> w_db (mt_world s) = d1"
    have sel: "triple ?A (on_fleet (db_select f)) (\<lambda>_. ?A) ?E" for f :: "db \<Rightarrow> node_row list"
      by (rule on_fleet_triple [OF triple_conseq [OF select_at [of S d h d1 f]]]) auto
    have probes: "triple ?A (on_fleet (gather_all (\<lambda>n. is_healthy (n_address n)) ns)) (\<lambda>_. ?A) ?E" for ns
      by (rule on_fleet_triple [OF triple_conseq [OF gather_all_triple [OF probe_settled]]]) (auto simp: settled_def)
    have now: "triple ?A (on_fleet (gets w_now)) (\<lambda>_ s. touching S d h d1 (mt_world s)) ?E"
      by (auto simp: triple_def on_fleet_def gets_def touching_def settled_def same_but_nodes_def)
    have marks: "triple (\<lambda>s. touching S d h d1 (mt_world s)) (mapM (note_probe E now) rs)
        (\<lambda>_ s. touching S d h d1 (mt_world s)) ?E" for now rs
      by (rule triple_conseq [OF triple_keeps [OF keeps_mapM [OF note_probe_keeps]]]) (auto simp: touching_def)
    have saved: "sparing S d h (w\<lparr>w_trips := k, w_db := w_tx w\<rparr>)" if "touching S d h d1 w" "constraints_ok (w_tx w)" for w k
      using that spared_trans [OF _ spared_nodes [of d1 "w_tx w"] subset_UNIV]
      by (auto simp: touching_def sparing_def)
    have commit: "triple (\<lambda>s. touching S d h d1 (mt_world s)) (on_fleet db_commit) ?E ?E"
      by (rule on_fleet_triple, rule db_commit_triple) (auto simp: saved, auto simp: touching_def)
    show ?thesis
      by (rule triple_bnd [OF sel], rule triple_bnd [OF probes], rule triple_bnd [OF now], rule triple_bnd [OF marks], rule commit)
  qed
  show "triple (\<lambda>s. settled S d h (mt_world s))
      (bnd (on_fleet (db_select (\<lambda>d. filter (\<lambda>n. n_status n \<noteq> Decommissioned) (nodes d)))) (\<lambda>ns.
       bnd (on_fleet (gather_all (\<lambda>n. is_healthy (n_address n)) ns)) (\<lambda>results.
       bnd (on_fleet (gets w_now)) (\<lambda>now.
       seq (mapM (note_probe E now) (zip ns results))
       (on_fleet db_commit))))) ?E ?E"
    by (rule triple_pre [OF triple_ex [of "\<lambda>d1 s. settled S d h (mt_world s) \<and> w_db (mt_world s) = d1", OF at]]) simp
qed

section \<open>The cycle\<close>

lemma job_keeps: "keeps I m \<Longrightarrow> keeps I (job m)"
  unfolding job_def by (intro wp)

lemma run_cycle_sparing: "keeps (\<lambda>s. sparing (available_ids d) d h (mt_world s)) (run_cycle E)"
  unfolding run_cycle_def
  by (intro wp job_keeps on_fleet_keeps check_health_sparing gc_stale_sparing gc_deleted_sparing
      repair_lost_sparing scrub_sparing)

lemma run_cycle_returns: "\<exists>t. run_cycle E s = (Inr (), t)"
  by (simp add: run_cycle_def job_def bnd_apply attempt_apply io_simps)

section \<open>Property\<close>

definition example_maint :: "world \<Rightarrow> maint" where
  "example_maint w = \<lparr>mt_world = w, mt_failures = (\<lambda>_. 0)\<rparr>"

text \<open>
  C7. A maintenance cycle loses nothing. Whatever fails during it (nodes, requests whose replies are lost, database
  round trips, commits of unknown outcome), the cycle runs all five jobs and returns; the database satisfies
  its constraints; users stay and no audit row goes; and for every available file the row is unchanged, every shard that was
  intact (its row's node holds bytes with the row's checksum) has an intact shard of the same index and checksum
  afterwards, and shards on distinct nodes stay on distinct nodes.
\<close>
theorem cycle_loses_nothing:
  assumes "fleet_ok (mt_world s)" and "constraints_ok (w_db (mt_world s))" and "run_cycle E s = (r, t)"
  shows "r = Inr () \<and> fleet_ok (mt_world t) \<and> constraints_ok (w_db (mt_world t)) \<and>
    users (w_db (mt_world t)) = users (w_db (mt_world s)) \<and>
    (\<exists>as. map a_id (audits (w_db (mt_world t))) = map a_id (audits (w_db (mt_world s))) @ as) \<and>
    (\<forall>f \<in> set (files (w_db (mt_world s))). f_status f = Available \<longrightarrow>
       f \<in> set (files (w_db (mt_world t))) \<and>
       (\<forall>j c. intact (w_db (mt_world s)) (held (mt_world s)) (f_id f) j c \<longrightarrow>
          intact (w_db (mt_world t)) (held (mt_world t)) (f_id f) j c)) \<and>
    (\<forall>i. spread (w_db (mt_world s)) i \<longrightarrow> spread (w_db (mt_world t)) i)"
proof -
  let ?d = "w_db (mt_world s)" and ?h = "held (mt_world s)"
  have "sparing (available_ids ?d) ?d ?h (mt_world s)"
    using assms(1) spared_more [OF assms(2)] by (simp add: sparing_def)
  from keepsD [OF run_cycle_sparing this assms(3)]
  have "sparing (available_ids ?d) ?d ?h (mt_world t)" .
  moreover have "f_id f \<in> available_ids ?d" if "f \<in> set (files ?d)" "f_status f = Available" for f
    using that by (simp add: available_ids_def)
  moreover have "r = Inr ()" using run_cycle_returns [of E s] assms(3) by simp
  ultimately show ?thesis unfolding sparing_def spared_def by blast
qed

theorem cycle_loses_nothing_witness:
  "\<exists>g w' t. with_session (upload_file example_env example_owner [97] [98] [1, 2, 3] 2 1 None) example_world = (Inr g, w') \<and>
    run_cycle example_env (example_maint w') = (Inr (), t) \<and> g \<in> set (files (w_db (mt_world t))) \<and>
    (\<forall>j c. intact (w_db w') (held w') (f_id g) j c \<longrightarrow> intact (w_db (mt_world t)) (held (mt_world t)) (f_id g) j c)"
proof (rule example_file)
  fix g w'
  assume run: "with_session (upload_file example_env example_owner [97] [98] [1, 2, 3] 2 1 None) example_world = (Inr g, w')"
    and w': "fleet_ok w'" "constraints_ok (w_db w')" and g: "g \<in> set (files (w_db w'))" "f_status g = Available"
  obtain r t where cycle: "run_cycle example_env (example_maint w') = (r, t)" by fastforce
  have "mt_world (example_maint w') = w'" by (simp add: example_maint_def)
  with cycle_loses_nothing [OF _ _ cycle] w' g
  have "r = Inr ()" "g \<in> set (files (w_db (mt_world t)))"
    "\<And>j c. intact (w_db w') (held w') (f_id g) j c \<Longrightarrow> intact (w_db (mt_world t)) (held (mt_world t)) (f_id g) j c"
    by simp_all
  with run cycle show ?thesis by blast
qed

end
