(* ===== verification/Worker.thy ===== *)
theory Worker
  imports Runs Repairs
begin

text \<open>
  \<open>worker.py\<close>: the process around the maintenance cycle and the advisory lock that keeps one of its replicas
  active. PostgreSQL owns the lock: a session gets it if nobody else holds it, and loses it when its connection
  ends. Replicas are numbered; sleeping between rounds is leaving out steps.
\<close>

section \<open>A replica\<close>

text \<open>Before the lock; at the top of the loop; past the check, before the cycle; gone.\<close>

datatype phase = Standby | Looping | Cycling | Exited

record worker =
  wk_phase :: phase
  wk_alive :: bool
  wk_failures :: "uuid \<Rightarrow> nat"

record pool =
  pl_workers :: "nat \<Rightarrow> worker"
  pl_lock :: "nat option"

definition set_worker :: "nat \<Rightarrow> worker \<Rightarrow> pool \<Rightarrow> pool" where
  "set_worker i x p = p\<lparr>pl_workers := (pl_workers p)(i := x)\<rparr>"

text \<open>\<open>pg_try_advisory_lock\<close> on the session of replica \<open>i\<close>.\<close>

definition try_lock :: "nat \<Rightarrow> nat option \<Rightarrow> bool \<times> nat option" where
  "try_lock i lock =
     (case lock of None \<Rightarrow> (True, Some i) | Some j \<Rightarrow> (j = i, lock))"

text \<open>One round of the first loop; with the lock, a fresh \<open>Maintenance\<close>. A dead connection raises.\<close>

definition worker_poll :: "nat \<Rightarrow> pool \<Rightarrow> pool" where
  "worker_poll i p =
     (let x = pl_workers p i
      in if \<not> wk_alive x then set_worker i (x\<lparr>wk_phase := Exited\<rparr>) p
         else
           (case try_lock i (pl_lock p) of (got, lock) \<Rightarrow>
              if got then set_worker i (x\<lparr>wk_phase := Looping, wk_failures := (\<lambda>_. 0)\<rparr>) (p\<lparr>pl_lock := lock\<rparr>)
              else p\<lparr>pl_lock := lock\<rparr>))"

text \<open>\<open>SELECT 1\<close> on the connection of the lock.\<close>

definition worker_check :: "nat \<Rightarrow> pool \<Rightarrow> pool" where
  "worker_check i p =
     (let x = pl_workers p i
      in set_worker i (x\<lparr>wk_phase := (if wk_alive x then Cycling else Exited)\<rparr>) p)"

text \<open>\<open>maintenance.run_cycle()\<close>.\<close>

definition worker_cycle :: "env \<Rightarrow> nat \<Rightarrow> pool \<Rightarrow> world \<Rightarrow> pool \<times> world" where
  "worker_cycle E i p w =
     (let x = pl_workers p i
      in case run_cycle E \<lparr>mt_world = w, mt_failures = wk_failures x\<rparr> of
           (Inr _, s) \<Rightarrow> (set_worker i (x\<lparr>wk_phase := Looping, wk_failures := mt_failures s\<rparr>) p, mt_world s)
         | (Inl _, s) \<Rightarrow> (set_worker i (x\<lparr>wk_phase := Exited, wk_failures := mt_failures s\<rparr>) p, mt_world s))"

section \<open>Steps of the replicas\<close>

text \<open>The connection of a replica ends, and the server frees its lock; a replica dies (its connection with it);
  the supervisor starts it again.\<close>

definition drop_lock :: "nat \<Rightarrow> pool \<Rightarrow> pool" where
  "drop_lock i p = (if pl_lock p = Some i then p\<lparr>pl_lock := None\<rparr> else p)"

definition connection_lost :: "nat \<Rightarrow> pool \<Rightarrow> pool" where
  "connection_lost i p = drop_lock i (set_worker i ((pl_workers p i)\<lparr>wk_alive := False\<rparr>) p)"

definition worker_killed :: "nat \<Rightarrow> pool \<Rightarrow> pool" where
  "worker_killed i p = drop_lock i (set_worker i ((pl_workers p i)\<lparr>wk_alive := False, wk_phase := Exited\<rparr>) p)"

definition worker_started :: "nat \<Rightarrow> pool \<Rightarrow> pool" where
  "worker_started i p = set_worker i \<lparr>wk_phase = Standby, wk_alive = True, wk_failures = (\<lambda>_. 0)\<rparr> p"

datatype pool_event = Poll nat | Check nat | Cycle nat | Connection_lost nat | Killed nat | Started nat

inductive pool_step :: "env \<Rightarrow> pool_event \<Rightarrow> pool \<times> world \<Rightarrow> pool \<times> world \<Rightarrow> bool" for E where
  poll: "wk_phase (pl_workers p i) = Standby \<Longrightarrow> pool_step E (Poll i) (p, w) (worker_poll i p, w)"
| check: "wk_phase (pl_workers p i) = Looping \<Longrightarrow> pool_step E (Check i) (p, w) (worker_check i p, w)"
| cycle: "wk_phase (pl_workers p i) = Cycling \<Longrightarrow> pool_step E (Cycle i) (p, w) (worker_cycle E i p w)"
| lost: "pool_step E (Connection_lost i) (p, w) (connection_lost i p, w)"
| killed: "pool_step E (Killed i) (p, w) (worker_killed i p, w)"
| started: "wk_phase (pl_workers p i) = Exited \<Longrightarrow> pool_step E (Started i) (p, w) (worker_started i p, w)"

inductive_cases pool_stepE: "pool_step E ev (p, w) (p', w')"

section \<open>The lock\<close>

text \<open>A replica past the lock with a living connection holds it; nobody else does.\<close>

definition active :: "worker \<Rightarrow> bool" where
  "active x \<longleftrightarrow> wk_alive x \<and> wk_phase x \<in> {Looping, Cycling}"

definition lock_ok :: "pool \<Rightarrow> bool" where
  "lock_ok p \<longleftrightarrow> (\<forall>i. pl_lock p = Some i \<longleftrightarrow> active (pl_workers p i))"

lemma lock_okD: "lock_ok p \<Longrightarrow> pl_lock p = Some i \<longleftrightarrow> active (pl_workers p i)"
  by (simp add: lock_ok_def)

lemma active_simps [simp]:
  "active (x\<lparr>wk_phase := ph\<rparr>) \<longleftrightarrow> wk_alive x \<and> ph \<in> {Looping, Cycling}" "active (x\<lparr>wk_failures := fs\<rparr>) = active x"
  "active (x\<lparr>wk_alive := False\<rparr>) = False"
  by (simp_all add: active_def)

lemma set_worker_simps [simp]:
  "pl_workers (set_worker i x p) j = (if j = i then x else pl_workers p j)" "pl_lock (set_worker i x p) = pl_lock p"
  by (simp_all add: set_worker_def)

lemma drop_lock_simps [simp]:
  "pl_workers (drop_lock i p) = pl_workers p" "pl_lock (drop_lock i p) = (if pl_lock p = Some i then None else pl_lock p)"
  by (simp_all add: drop_lock_def)

lemma worker_cycle_eq:
  obtains s where "worker_cycle E i p w =
      (set_worker i ((pl_workers p i)\<lparr>wk_phase := Looping, wk_failures := mt_failures s\<rparr>) p, mt_world s)"
    "run_cycle E \<lparr>mt_world = w, mt_failures = wk_failures (pl_workers p i)\<rparr> = (Inr (), s)"
  using run_cycle_returns [of E "\<lparr>mt_world = w, mt_failures = wk_failures (pl_workers p i)\<rparr>"]
  by (auto simp: worker_cycle_def Let_def)

text \<open>What a step does to one replica and the lock.\<close>

lemma lock_ok_set:
  assumes "lock_ok p" and "pl_workers p' = (pl_workers p)(i := x)" and "active x \<longleftrightarrow> pl_lock p' = Some i"
    and "pl_lock p' = pl_lock p \<or> pl_lock p = None \<and> pl_lock p' = Some i \<or> pl_lock p = Some i \<and> pl_lock p' = None"
  shows "lock_ok p'"
  unfolding lock_ok_def
proof
  fix j
  show "pl_lock p' = Some j \<longleftrightarrow> active (pl_workers p' j)"
    using assms(2-4) lock_okD [OF assms(1), of j] by (cases "j = i") auto
qed

lemma lock_ok_step:
  assumes "pool_step E ev (p, w) (p', w')" and ok: "lock_ok p"
  shows "lock_ok p'"
  using assms(1)
proof (cases rule: pool_step.cases)
  case (poll i)
  let ?x = "pl_workers p i"
  have other: "pl_lock p \<noteq> Some i" using poll lock_okD [OF ok, of i] by (simp add: active_def)
  consider (dead) "\<not> wk_alive ?x" | (free) "wk_alive ?x" "pl_lock p = None" | (held) j where "wk_alive ?x" "pl_lock p = Some j" "j \<noteq> i"
    using other by (metis option.exhaust)
  then show ?thesis
  proof cases
    case dead
    then have "p' = set_worker i (?x\<lparr>wk_phase := Exited\<rparr>) p" using poll by (simp add: worker_poll_def)
    then show ?thesis by (intro lock_ok_set [OF ok, of _ i]) (use other in \<open>auto simp: set_worker_def\<close>)
  next
    case free
    then have "p' = set_worker i (?x\<lparr>wk_phase := Looping, wk_failures := (\<lambda>_. 0)\<rparr>) (p\<lparr>pl_lock := Some i\<rparr>)"
      using poll by (simp add: worker_poll_def try_lock_def)
    then show ?thesis by (intro lock_ok_set [OF ok, of _ i]) (use free in \<open>auto simp: set_worker_def\<close>)
  next
    case held
    then have "p' = p" using poll by (simp add: worker_poll_def try_lock_def)
    then show ?thesis using ok by simp
  qed
next
  case (check i)
  then have "active (pl_workers p i) = wk_alive (pl_workers p i)" by (simp add: active_def)
  then show ?thesis using check lock_okD [OF ok, of i]
    by (intro lock_ok_set [OF ok, of p' i "(pl_workers p i)\<lparr>wk_phase := (if wk_alive (pl_workers p i) then Cycling else Exited)\<rparr>"])
      (auto simp: worker_check_def set_worker_def Let_def)
next
  case (cycle i)
  obtain s :: maint where "worker_cycle E i p w =
      (set_worker i ((pl_workers p i)\<lparr>wk_phase := Looping, wk_failures := mt_failures s\<rparr>) p, mt_world s)"
    by (rule worker_cycle_eq [of E i p w]) fast
  then show ?thesis using cycle lock_okD [OF ok, of i]
    by (intro lock_ok_set [OF ok, of _ i]) (auto simp: set_worker_def active_def)
next
  case (lost i)
  then show ?thesis
    by (intro lock_ok_set [OF ok, of _ i]) (auto simp: connection_lost_def drop_lock_def set_worker_def)
next
  case (killed i)
  then show ?thesis
    by (intro lock_ok_set [OF ok, of _ i]) (auto simp: worker_killed_def drop_lock_def set_worker_def)
next
  case (started i)
  then show ?thesis using lock_okD [OF ok, of i]
    by (intro lock_ok_set [OF ok, of _ i]) (auto simp: worker_started_def set_worker_def active_def)
qed

section \<open>Runs\<close>

abbreviation pool_run :: "env \<Rightarrow> pool \<times> world \<Rightarrow> pool_event list \<Rightarrow> pool \<times> world \<Rightarrow> bool" where
  "pool_run E \<equiv> runs (pool_step E)"

interpretation pool: step_system "pool_step E" "\<lambda>c. lock_ok (fst c)" "\<lambda>_. True" "\<lambda>_ _. True" for E
  by unfold_locales (auto intro: lock_ok_step)

definition fresh_pool :: pool where
  "fresh_pool = \<lparr>pl_workers = (\<lambda>_. \<lparr>wk_phase = Standby, wk_alive = True, wk_failures = (\<lambda>_. 0)\<rparr>), pl_lock = None\<rparr>"

lemma fresh_lock_ok: "lock_ok fresh_pool"
  by (simp add: lock_ok_def fresh_pool_def active_def)

text \<open>A replica whose connection is gone: the cycles it may still run.\<close>

definition left :: "pool \<Rightarrow> nat \<Rightarrow> nat" where
  "left p i = (if wk_phase (pl_workers p i) = Cycling then 1 else 0)"

lemma dead_step:
  assumes "pool_step E ev (p, w) (p', w')" and "\<not> wk_alive (pl_workers p i)" and "ev \<noteq> Started i"
  shows "\<not> wk_alive (pl_workers p' i) \<and> left p' i + (if ev = Cycle i then 1 else 0) \<le> left p i"
  using assms(1)
proof (cases rule: pool_step.cases)
  case (poll j)
  then show ?thesis using assms(2)
    by (auto simp: worker_poll_def try_lock_def left_def Let_def set_worker_def split: option.splits)
next
  case (check j)
  then show ?thesis using assms(2) by (auto simp: worker_check_def left_def Let_def)
next
  case (cycle j)
  obtain s :: maint where "worker_cycle E j p w =
      (set_worker j ((pl_workers p j)\<lparr>wk_phase := Looping, wk_failures := mt_failures s\<rparr>) p, mt_world s)"
    by (rule worker_cycle_eq [of E j p w]) fast
  then show ?thesis using cycle assms(2) by (auto simp: left_def)
qed (use assms(2,3) in \<open>auto simp: left_def connection_lost_def worker_killed_def worker_started_def\<close>)

interpretation cut_off: counted_system "pool_step E" "\<lambda>c. \<not> wk_alive (pl_workers (fst c) i)" "\<lambda>ev. ev \<noteq> Started i" "\<lambda>_ _. True"
    "\<lambda>c. left (fst c) i" "(=) (Cycle i)"
  for E i
  by unfold_locales (use dead_step in fastforce)+

text \<open>
  C18. One maintenance worker. However replicas poll, check, run cycles, lose their connections, die and are started
  again: at most one replica with a living connection is past the lock, and it holds the lock; and a replica that
  lost its connection (and with it the lock) runs at most the cycle it had begun, until it is started again.
\<close>
theorem one_active_worker:
  assumes "pool_run E (fresh_pool, w) evs (p, v)"
  shows "(\<forall>i j. active (pl_workers p i) \<and> active (pl_workers p j) \<longrightarrow> i = j) \<and>
    (\<forall>i. active (pl_workers p i) \<longleftrightarrow> pl_lock p = Some i) \<and>
    (\<forall>i evs' c. pool_run E (p, v) evs' c \<and> \<not> wk_alive (pl_workers p i) \<and> Started i \<notin> set evs' \<longrightarrow>
       count_list evs' (Cycle i) \<le> (if wk_phase (pl_workers p i) = Cycling then 1 else 0))"
proof -
  have ok: "lock_ok p" using pool.run_step_system [OF assms] fresh_lock_ok by simp
  have "i = j" if "active (pl_workers p i)" "active (pl_workers p j)" for i j
    using that lock_okD [OF ok, of i] lock_okD [OF ok, of j] by simp
  moreover have "count_list evs' (Cycle i) \<le> (if wk_phase (pl_workers p i) = Cycling then 1 else 0)"
    if "pool_run E (p, v) evs' c" "\<not> wk_alive (pl_workers p i)" "Started i \<notin> set evs'" for i evs' c
    using cut_off.run_counted_system [OF that(1), of i] that(2,3) by (fastforce simp: left_def count_list_eq_length_filter split: if_splits)
  ultimately show ?thesis using lock_okD [OF ok] by blast
qed

text \<open>Two replicas: the first gets the lock and passes its check, then loses its connection; the second takes over.\<close>

theorem one_active_worker_witness:
  "\<exists>p. pool_run example_env (fresh_pool, example_world) [Poll 0, Check 0, Connection_lost 0, Poll 1] (p, example_world) \<and>
    active (pl_workers p 1) \<and> pl_lock p = Some 1 \<and> wk_phase (pl_workers p 0) = Cycling"
proof -
  let ?p1 = "worker_poll 0 fresh_pool" and ?p2 = "worker_check 0 (worker_poll 0 fresh_pool)"
    and ?p3 = "connection_lost 0 (worker_check 0 (worker_poll 0 fresh_pool))"
  note parts = worker_poll_def worker_check_def connection_lost_def fresh_pool_def try_lock_def drop_lock_def Let_def
  have "pool_step example_env (Poll 0) (fresh_pool, example_world) (?p1, example_world)" by (rule pool_step.poll) (simp add: parts)
  moreover have "pool_step example_env (Check 0) (?p1, example_world) (?p2, example_world)" by (rule pool_step.check) (simp add: parts)
  moreover have "pool_step example_env (Connection_lost 0) (?p2, example_world) (?p3, example_world)" by (rule pool_step.lost)
  moreover have "pool_step example_env (Poll 1) (?p3, example_world) (worker_poll 1 ?p3, example_world)" by (rule pool_step.poll) (simp add: parts)
  ultimately have "pool_run example_env (fresh_pool, example_world) [Poll 0, Check 0, Connection_lost 0, Poll 1] (worker_poll 1 ?p3, example_world)"
    by (blast intro: runs.intros)
  moreover from one_active_worker [OF this]
  have "active (pl_workers (worker_poll 1 ?p3) 1) \<longleftrightarrow> pl_lock (worker_poll 1 ?p3) = Some 1" by blast
  ultimately show ?thesis
    by (intro exI [of _ "worker_poll 1 ?p3"])
      (simp add: parts)
qed

end
