(* ===== verification/Query.thy ===== *)
theory Query
  imports Filenames
begin

text \<open>
  The query of a URL in the access log: \<open>redact_query\<close> of \<open>middleware.py\<close>, with the parts of \<open>urllib.parse\<close> it calls
  (\<open>parse_qsl\<close>, \<open>unquote\<close>, \<open>urlencode\<close>). Queries are Latin-1 text, the bytes of the URL.
\<close>

section \<open>Decoding\<close>

text \<open>Is \<open>b\<close> a possible second byte after the first byte \<open>n\<close> of a sequence of three or four?\<close>

definition second_ok :: "nat \<Rightarrow> byte \<Rightarrow> bool" where
  "second_ok n b \<longleftrightarrow> is_cont b \<and> (n = 224 \<longrightarrow> 160 \<le> unat b) \<and> (n = 237 \<longrightarrow> unat b < 160) \<and>
     (n = 240 \<longrightarrow> 144 \<le> unat b) \<and> (n = 244 \<longrightarrow> unat b < 144)"

text \<open>The length of the ill-formed part that one replacement character stands for.\<close>

definition utf8_bad :: "bytes \<Rightarrow> nat" where
  "utf8_bad bs =
     (case bs of
        b0 # b1 # r \<Rightarrow>
          (if 224 \<le> unat b0 \<and> unat b0 < 245 \<and> second_ok (unat b0) b1
           then (case r of
                   [] \<Rightarrow> 2
                 | b2 # _ \<Rightarrow> if 240 \<le> unat b0 \<and> is_cont b2 then 3 else 2)
           else 1)
      | _ \<Rightarrow> 1)"

text \<open>\<open>bs.decode("utf-8", "replace")\<close>.\<close>

fun utf8_decode_replace :: "bytes \<Rightarrow> pystr" where
  "utf8_decode_replace [] = []"
| "utf8_decode_replace (b # bs) =
     (case utf8_next (b # bs) of
        Some (c, n) \<Rightarrow> c # utf8_decode_replace (drop (n - 1) bs)
      | None \<Rightarrow> 65533 # utf8_decode_replace (drop (utf8_bad (b # bs) - 1) bs))"

text \<open>\<open>unquote_to_bytes\<close>: a percent sign without two hexadecimal digits after it stands for itself.\<close>

fun unquote_bytes :: "pystr \<Rightarrow> bytes" where
  "unquote_bytes [] = []"
| "unquote_bytes (c # s) =
     (if c = 37 then
        (case s of
           a # b # r \<Rightarrow>
             (case (hexval a, hexval b) of
                (Some x, Some y) \<Rightarrow> byte_of (x * 16 + y) # unquote_bytes r
              | _ \<Rightarrow> byte_of c # unquote_bytes s)
         | _ \<Rightarrow> byte_of c # unquote_bytes s)
      else byte_of c # unquote_bytes s)"

text \<open>\<open>unquote\<close> decodes each run of ASCII characters.\<close>

function unquote :: "pystr \<Rightarrow> pystr" where
  "unquote [] = []"
| "unquote (c # s) =
     (if c < 128
      then utf8_decode_replace (unquote_bytes (takeWhile (\<lambda>x. x < 128) (c # s))) @ unquote (dropWhile (\<lambda>x. x < 128) (c # s))
      else c # unquote s)"
  by pat_completeness auto
termination
  by (relation "measure length") (auto simp: length_dropWhile_le le_imp_less_Suc)

definition plus_to_space :: "pystr \<Rightarrow> pystr" where
  "plus_to_space s = map (\<lambda>c. if c = 43 then 32 else c) s"

definition parse_pair :: "pystr \<Rightarrow> pystr \<times> pystr" where
  "parse_pair name_value =
     (case py_partition 61 name_value of (name, _, v) \<Rightarrow> (unquote (plus_to_space name), unquote (plus_to_space v)))"

text \<open>\<open>parse_qsl(query, keep_blank_values=True)\<close>.\<close>

definition parse_qsl :: "pystr \<Rightarrow> (pystr \<times> pystr) list" where
  "parse_qsl query = map parse_pair (filter (\<lambda>p. p \<noteq> []) (py_split 38 query))"

section \<open>Encoding\<close>

definition plus_byte :: "byte \<Rightarrow> pystr" where
  "plus_byte b = (if unat b = 32 then [43] else quote_byte b)"

definition quote_plus :: "pystr \<Rightarrow> pystr option" where
  "quote_plus s = map_option (\<lambda>bs. concat (map plus_byte bs)) (py_encode s)"

fun join_amp :: "pystr list \<Rightarrow> pystr" where
  "join_amp [] = []"
| "join_amp [w] = w"
| "join_amp (w # ws) = w @ 38 # join_amp ws"

definition encode_pair :: "pystr \<times> pystr \<Rightarrow> pystr option" where
  "encode_pair p = (case (quote_plus (fst p), quote_plus (snd p)) of (Some k, Some v) \<Rightarrow> Some (k @ 61 # v) | _ \<Rightarrow> None)"

definition urlencode :: "(pystr \<times> pystr) list \<Rightarrow> pystr option" where
  "urlencode ps = map_option join_amp (those (map encode_pair ps))"

definition REDACTED_QUERY_PARAMS :: "pystr list" where
  "REDACTED_QUERY_PARAMS = [ustr ''sig'']"

definition redacted :: "pystr \<times> pystr \<Rightarrow> pystr \<times> pystr" where
  "redacted p = (fst p, if fst p \<in> set REDACTED_QUERY_PARAMS then ustr ''REDACTED'' else snd p)"

text \<open>\<open>None\<close> is \<open>UnicodeEncodeError\<close>.\<close>

definition redact_query :: "pystr \<Rightarrow> pystr option" where
  "redact_query query = urlencode (map redacted (parse_qsl query))"

section \<open>Round trips\<close>

lemma decode_replace_utf8: "list_all encodable s \<Longrightarrow> utf8_decode_replace (utf8 s) = s"
proof (induction s)
  case (Cons c s)
  obtain b bs where b: "utf8_char c = b # bs"
    using utf8_char_length [of c] by (cases "utf8_char c") auto
  then show ?case using Cons utf8_next_char [of c "utf8 s"] by simp
qed simp

lemma utf8_next_encodable: "utf8_next bs = Some (c, n) \<Longrightarrow> encodable c"
  by (auto simp: utf8_next_def Let_def encodable_def is_cont_def split: list.splits if_splits)

lemma decode_replace_encodable: "list_all encodable (utf8_decode_replace bs)"
proof (induction bs rule: utf8_decode_replace.induct)
  case (2 b bs)
  then show ?case using utf8_next_encodable [of "b # bs"] by (auto simp: encodable_def split: option.split)
qed simp

lemma unquote_encodable: "list_all encodable s \<Longrightarrow> list_all encodable (unquote s)"
proof (induction s rule: unquote.induct)
  case (2 c s)
  have "list_all encodable (dropWhile (\<lambda>x. x < 128) (c # s))"
    using 2(3) by (auto simp: list_all_iff dest: set_dropWhileD)
  then show ?case using 2 by (auto simp: decode_replace_encodable)
qed simp

lemma unquote_ascii: "is_ascii s \<Longrightarrow> unquote s = utf8_decode_replace (unquote_bytes s)"
proof (cases s)
  case (Cons c t)
  assume "is_ascii s"
  then have "takeWhile (\<lambda>x. x < 128) s = s" "dropWhile (\<lambda>x. x < 128) s = []"
    by (simp_all add: is_ascii_def list_all_iff takeWhile_eq_all_conv)
  moreover have "unquote s = (if c < 128
      then utf8_decode_replace (unquote_bytes (takeWhile (\<lambda>x. x < 128) s)) @ unquote (dropWhile (\<lambda>x. x < 128) s)
      else c # unquote t)" unfolding Cons by (rule unquote.simps(2))
  moreover have "c < 128" using \<open>is_ascii s\<close> Cons by simp
  ultimately show ?thesis by (simp only: if_True unquote.simps(1) append_Nil2)
qed simp

lemma unquote_plus_byte: "unquote_bytes (plus_to_space (plus_byte b) @ s) = b # unquote_bytes s"
proof (cases "unreserved (unat b) \<or> unat b = 32")
  case True
  then show ?thesis
    by (auto simp: plus_to_space_def plus_byte_def quote_byte_def unreserved_def is_digit_def Let_def)
      (metis byte_of_unat)+
next
  case False
  then have "unat b div 16 < 16" using unat_byte_less [of b] by (simp add: less_mult_imp_div_less)
  moreover have "HEXDIGIT n \<noteq> 43" for n by (auto simp: HEXDIGIT_def)
  ultimately show ?thesis using False
    by (simp add: plus_to_space_def plus_byte_def quote_byte_def Let_def)
qed

lemma unquote_quoted: "unquote_bytes (plus_to_space (concat (map plus_byte bs))) = bs"
  by (induction bs) (simp_all add: unquote_plus_byte [unfolded plus_to_space_def] plus_to_space_def)

lemma plus_byte_chars: "c \<in> set (plus_byte b) \<Longrightarrow> c < 128 \<and> c \<noteq> 38 \<and> c \<noteq> 61"
  using quote_byte_chars [of c b] by (auto simp: plus_byte_def unreserved_def is_digit_def split: if_splits)

lemma quote_plus_facts:
  assumes "list_all encodable s"
  obtains q where "quote_plus s = Some q" "38 \<notin> set q" "61 \<notin> set q" "unquote (plus_to_space q) = s"
proof
  let ?q = "concat (map plus_byte (utf8 s))"
  show "quote_plus s = Some ?q" using assms by (simp add: quote_plus_def py_encode_def)
  show "38 \<notin> set ?q" "61 \<notin> set ?q" by (auto dest: plus_byte_chars)
  have "is_ascii (plus_to_space ?q)" by (auto simp: plus_to_space_def is_ascii_def list_all_iff dest: plus_byte_chars)
  then show "unquote (plus_to_space ?q) = s" using assms by (simp add: unquote_ascii unquote_quoted decode_replace_utf8)
qed

lemma encode_pair_facts:
  assumes "list_all encodable (fst p)" and "list_all encodable (snd p)"
  obtains w where "encode_pair p = Some w" "38 \<notin> set w" "w \<noteq> []" "parse_pair w = p"
proof -
  obtain k where k: "quote_plus (fst p) = Some k" "38 \<notin> set k" "61 \<notin> set k" "unquote (plus_to_space k) = fst p"
    using quote_plus_facts [OF assms(1)] .
  obtain v where v: "quote_plus (snd p) = Some v" "38 \<notin> set v" "61 \<notin> set v" "unquote (plus_to_space v) = snd p"
    using quote_plus_facts [OF assms(2)] .
  have "parse_pair (k @ 61 # v) = p" using k v by (simp add: parse_pair_def py_partition_free)
  then show ?thesis using k v that [of "k @ 61 # v"] by (simp add: encode_pair_def)
qed

lemma split_join_amp: "ws \<noteq> [] \<Longrightarrow> (\<And>w. w \<in> set ws \<Longrightarrow> 38 \<notin> set w) \<Longrightarrow> py_split 38 (join_amp ws) = ws"
proof (induction ws rule: join_amp.induct)
  case (3 w x ws)
  then show ?case using py_split_append [of 38 w "join_amp (x # ws)"] by simp
qed (simp_all add: py_split_free)

definition pairs_ok :: "(pystr \<times> pystr) list \<Rightarrow> bool" where
  "pairs_ok ps \<longleftrightarrow> (\<forall>p \<in> set ps. list_all encodable (fst p) \<and> list_all encodable (snd p))"

lemma urlencode_parses:
  assumes "pairs_ok ps"
  shows "\<exists>q. urlencode ps = Some q \<and> parse_qsl q = ps"
proof -
  have "\<exists>ws. those (map encode_pair ps) = Some ws \<and> map parse_pair ws = ps \<and> (\<forall>w \<in> set ws. 38 \<notin> set w \<and> w \<noteq> [])"
    using assms
  proof (induction ps)
    case (Cons p ps)
    then obtain ws where ws: "those (map encode_pair ps) = Some ws" "map parse_pair ws = ps" "\<forall>w \<in> set ws. 38 \<notin> set w \<and> w \<noteq> []"
      by (auto simp: pairs_ok_def)
    obtain w where "encode_pair p = Some w" "38 \<notin> set w" "w \<noteq> []" "parse_pair w = p"
      using encode_pair_facts [of p] Cons.prems by (auto simp: pairs_ok_def)
    then show ?case using ws by (intro exI [of _ "w # ws"]) simp
  qed simp
  then obtain ws where ws: "those (map encode_pair ps) = Some ws" "map parse_pair ws = ps" "\<forall>w \<in> set ws. 38 \<notin> set w \<and> w \<noteq> []"
    by blast
  have "parse_qsl (join_amp ws) = ps"
  proof (cases "ws = []")
    case False
    then show ?thesis using ws split_join_amp [of ws] by (simp add: parse_qsl_def)
  qed (use ws in \<open>simp add: parse_qsl_def\<close>)
  then show ?thesis using ws(1) by (simp add: urlencode_def)
qed

section \<open>Redaction\<close>

lemma parsed_encodable:
  assumes "list_all encodable q"
  shows "pairs_ok (parse_qsl q)"
proof -
  have piece: "set w \<subseteq> set q" if "w \<in> set (py_split 38 q)" for w
    using that by (induction q arbitrary: w) (auto split: if_splits list.splits, blast+)
  have plus: "list_all encodable s \<Longrightarrow> list_all encodable (plus_to_space s)" for s
    by (auto simp: plus_to_space_def list_all_iff encodable_def)
  have "list_all encodable (fst (parse_pair w)) \<and> list_all encodable (snd (parse_pair w))"
    if "w \<in> set (py_split 38 q)" for w
  proof -
    obtain n e v where p: "py_partition 61 w = (n, e, v)" by (metis prod.exhaust)
    then have "set n \<subseteq> set w" "set v \<subseteq> set w"
      by (auto simp: py_partition_def Let_def dest: set_takeWhileD in_set_dropD set_dropWhileD)
    then have "list_all encodable n" "list_all encodable v" using piece [OF that] assms by (auto simp: list_all_iff)
    then show ?thesis using p plus unquote_encodable by (simp add: parse_pair_def)
  qed
  then show ?thesis by (auto simp: pairs_ok_def parse_qsl_def)
qed

lemma redacted_ok: "pairs_ok ps \<Longrightarrow> pairs_ok (map redacted ps)"
  by (auto simp: pairs_ok_def redacted_def encodable_def)

lemma split_append: "py_split d (a @ d # b) = py_split d a @ py_split d b"
  by (induction a) (auto split: list.splits)

lemma parse_qsl_append: "parse_qsl (a @ 38 # b) = parse_qsl a @ parse_qsl b"
  by (simp add: parse_qsl_def split_append)

definition latin1 :: "bytes \<Rightarrow> pystr" where
  "latin1 bs = map unat bs"

lemma latin1_encodable: "list_all encodable (latin1 bs)"
proof -
  have "encodable n" if "n < 256" for n using that by (simp add: encodable_def)
  then show ?thesis using unat_byte_less by (simp add: latin1_def list_all_iff)
qed

lemma redaction_total: "\<exists>line. redact_query (latin1 query) = Some line"
  using urlencode_parses [OF redacted_ok [OF parsed_encodable [OF latin1_encodable [of query]]]]
  unfolding redact_query_def by blast

text \<open>
  C31. The access log shows the query without its signatures. For every query string a client sends, redaction succeeds, and
  the logged text parses to the same list of names and values except that the value of every \<open>sig\<close> is
  \<open>REDACTED\<close>; what a client writes as a \<open>sig\<close> parameter does not change the logged line at all.
\<close>
theorem log_hides_signatures:
  "(\<exists>line. redact_query (latin1 query) = Some line \<and>
      parse_qsl line = map (\<lambda>(k, v). (k, if k = ustr ''sig'' then ustr ''REDACTED'' else v)) (parse_qsl (latin1 query))) \<and>
   (38 \<notin> set s1 \<and> 38 \<notin> set s2 \<longrightarrow>
      redact_query (pre @ ustr ''&sig='' @ s1 @ ustr ''&'' @ post) = redact_query (pre @ ustr ''&sig='' @ s2 @ ustr ''&'' @ post))"
proof
  have eq: "map redacted ps = map (\<lambda>(k, v). (k, if k = ustr ''sig'' then ustr ''REDACTED'' else v)) ps" for ps
    by (auto simp: redacted_def REDACTED_QUERY_PARAMS_def)
  show "\<exists>line. redact_query (latin1 query) = Some line \<and>
      parse_qsl line = map (\<lambda>(k, v). (k, if k = ustr ''sig'' then ustr ''REDACTED'' else v)) (parse_qsl (latin1 query))"
    using urlencode_parses [OF redacted_ok [OF parsed_encodable [OF latin1_encodable]]]
    unfolding redact_query_def eq [symmetric] .
  have one: "map redacted (parse_qsl (pre @ 38 # (ustr ''sig='' @ s) @ 38 # post)) =
      map redacted (parse_qsl pre) @ (ustr ''sig'', ustr ''REDACTED'') # map redacted (parse_qsl post)"
    if "38 \<notin> set s" for s
  proof -
    have "py_partition 61 (ustr ''sig'' @ 61 # s) = (ustr ''sig'', True, s)" by (rule py_partition_free) simp
    then have "parse_qsl (ustr ''sig='' @ s) = [(unquote (ustr ''sig''), unquote (plus_to_space s))]"
      using that by (simp add: parse_qsl_def py_split_free parse_pair_def plus_to_space_def)
    moreover have "unquote (ustr ''sig'') = ustr ''sig''" by code_simp
    ultimately have sig: "parse_qsl (ustr ''sig='' @ s) = [(ustr ''sig'', unquote (plus_to_space s))]" by (simp only:)
    show ?thesis unfolding parse_qsl_append sig by (simp add: redacted_def REDACTED_QUERY_PARAMS_def)
  qed
  show "38 \<notin> set s1 \<and> 38 \<notin> set s2 \<longrightarrow>
      redact_query (pre @ ustr ''&sig='' @ s1 @ ustr ''&'' @ post) = redact_query (pre @ ustr ''&sig='' @ s2 @ ustr ''&'' @ post)"
    using one [of s1] one [of s2] by (simp add: redact_query_def)
qed

theorem log_hides_signatures_witness:
  "redact_query (ustr ''x=1'' @ ustr ''&sig='' @ ustr ''abc'' @ ustr ''&'' @ ustr ''y=2'') =
     redact_query (ustr ''x=1'' @ ustr ''&sig='' @ [] @ ustr ''&'' @ ustr ''y=2'')"
  by (rule log_hides_signatures [THEN conjunct2, rule_format]) simp

end
