(* ===== verification/Auth.thy ===== *)
theory Auth
  imports World Signing
begin

text \<open>
  \<open>services/auth.py\<close> and \<open>scripts/create_user.py\<close>: API keys. The random bytes \<open>secrets\<close> draws are an
  argument. Only the SHA-256 of a key is stored.
\<close>

definition API_KEY_PREFIX :: pystr where
  "API_KEY_PREFIX = ustr ''sfs_''"

definition generate_api_key :: "bytes \<Rightarrow> pystr" where
  "generate_api_key token = API_KEY_PREFIX @ b64url token"

text \<open>\<open>None\<close> is \<open>UnicodeEncodeError\<close>.\<close>

definition hash_api_key :: "pystr \<Rightarrow> pystr option" where
  "hash_api_key api_key = map_option sha256_hex (py_encode api_key)"

definition find_user :: "pystr \<Rightarrow> db \<Rightarrow> user_row option" where
  "find_user h d = find (\<lambda>u. u_api_key_hash u = h) (users d)"

definition UNAUTHORIZED_HEADERS :: "(pystr \<times> pystr) list" where
  "UNAUTHORIZED_HEADERS = [(ustr ''WWW-Authenticate'', ustr ''Bearer'')]"

abbreviation unauthorized :: exn where
  "unauthorized \<equiv> HTTPException 401 UNAUTHORIZED_HEADERS"

definition get_current_user :: "ucd \<Rightarrow> pystr option \<Rightarrow> user_row wio" where
  "get_current_user U authorization =
     (let (scheme, _, api_key) = py_partition 32 (case authorization of None \<Rightarrow> [] | Some a \<Rightarrow> a)
      in if py_lower U scheme \<noteq> ustr ''bearer'' \<or> \<not> py_startswith api_key API_KEY_PREFIX
         then raise unauthorized
         else
           (case hash_api_key (py_strip api_key) of
              None \<Rightarrow> raise ValueErrorRaised
            | Some h \<Rightarrow>
                bnd (db_select (find_user h)) (\<lambda>user.
                case user of None \<Rightarrow> raise unauthorized | Some u \<Rightarrow> ret u)))"

section \<open>Creating users\<close>

definition find_email :: "pystr \<Rightarrow> db \<Rightarrow> user_row option" where
  "find_email email d = find (\<lambda>u. u_email u = email) (users d)"

definition add_user :: "user_row \<Rightarrow> db \<Rightarrow> db" where
  "add_user u d = d\<lparr>users := users d @ [u]\<rparr>"

definition set_user :: "uuid \<Rightarrow> (user_row \<Rightarrow> user_row) \<Rightarrow> db \<Rightarrow> db" where
  "set_user i g d = d\<lparr>users := map (\<lambda>u. if u_id u = i then g u else u) (users d)\<rparr>"

text \<open>\<open>main()\<close> on parsed arguments: the id and the key it prints, or \<open>None\<close> for exit status 1.\<close>

definition create_user :: "ucd \<Rightarrow> bytes \<Rightarrow> pystr \<Rightarrow> bool \<Rightarrow> (uuid \<times> pystr) option wio" where
  "create_user U token arg rot =
     (let email = py_lower U (py_strip arg); api_key = generate_api_key token
      in case hash_api_key api_key of
           None \<Rightarrow> raise ValueErrorRaised
         | Some h \<Rightarrow>
             with_session
               (bnd (db_select (find_email email)) (\<lambda>user.
                if user = None \<and> rot then ret None
                else if user \<noteq> None \<and> \<not> rot then ret None
                else
                  (case user of
                     None \<Rightarrow>
                       bnd uuid4 (\<lambda>i.
                       bnd (gets w_now) (\<lambda>now.
                       seq (db_stage (add_user \<lparr>u_id = i, u_email = email, u_api_key_hash = h, u_created_at = now\<rparr>))
                       (seq db_commit (ret (Some (i, api_key))))))
                   | Some u \<Rightarrow>
                       seq (db_stage (set_user (u_id u) (\<lambda>x. x\<lparr>u_api_key_hash := h\<rparr>)))
                       (seq db_commit (ret (Some (u_id u, api_key))))))))"

end
