(* ===== verification/Api.thy ===== *)
theory Api
  imports Auth RateLimit Files Filenames
begin

text \<open>
  The request handlers of the API: \<open>deps.py\<close>, \<open>routers/files.py\<close>, \<open>routers/download.py\<close>,
  \<open>schemas/files.py\<close> and the exception handler of \<open>main.py\<close>. A handler runs on the world, the two rate
  limiters, the free transfer slots and the monotonic clock of the process. Path parameters typed \<open>uuid.UUID\<close>
  and the fields of the bodies arrive parsed; the multipart parser is not part of the repository, so an
  upload carries its parsed form field. \<open>fl\<close> is the rounding of the limiters' floats.
\<close>

record api =
  ap_world :: world
  ap_downloads :: limiter
  ap_calls :: limiter
  ap_slots :: nat
  ap_monotonic :: rat

type_synonym 'a aio = "(api, exn, 'a) io"

definition on_world :: "'a wio \<Rightarrow> 'a aio" where
  "on_world m = (\<lambda>s. case m (ap_world s) of (r, w) \<Rightarrow> (r, s\<lparr>ap_world := w\<rparr>))"

definition db_session :: "'a aio \<Rightarrow> 'a aio" where
  "db_session m = (\<lambda>s.
     case m (s\<lparr>ap_world := (ap_world s)\<lparr>w_tx := w_db (ap_world s)\<rparr>\<rparr>) of
       (r, t) \<Rightarrow> (r, t\<lparr>ap_world := (ap_world t)\<lparr>w_tx := w_db (ap_world t)\<rparr>\<rparr>))"

text \<open>\<open>int(time.time())\<close>.\<close>

definition unix_time :: "int aio" where
  "unix_time = gets (\<lambda>s. w_now (ap_world s) div 1000000)"

section \<open>Answers\<close>

record file_out =
  o_id :: uuid
  o_filename :: pystr
  o_content_type :: pystr
  o_size_bytes :: nat
  o_checksum_sha256 :: pystr
  o_uploaded_at :: int
  o_status :: file_status
  o_availability :: availability

text \<open>A link: the path parameter and the query parameters of its URL, and \<open>expires_at\<close>.\<close>

record link_out =
  k_file_id :: pystr
  k_exp :: pystr
  k_v :: pystr
  k_kid :: pystr
  k_sig :: pystr
  k_expires_at :: int

datatype api_content =
    FileBytes bytes
  | OneFile file_out
  | FileList "file_out list" nat nat
  | LinkMade link_out
  | NoBody
  | Detail

record api_resp =
  rs_status :: nat
  rs_content :: api_content
  rs_headers :: "(pystr \<times> pystr) list"

definition answer :: "nat \<Rightarrow> api_content \<Rightarrow> api_resp aio" where
  "answer n c = ret \<lparr>rs_status = n, rs_content = c, rs_headers = []\<rparr>"

section \<open>Dependencies\<close>

definition RETRY_AFTER_SECONDS :: pystr where
  "RETRY_AFTER_SECONDS = ustr ''5''"

text \<open>An answer that asks the client to come back later.\<close>

definition retry_headers :: "(pystr \<times> pystr) list" where
  "retry_headers = [(ustr ''Retry-After'', RETRY_AFTER_SECONDS)]"

abbreviation retry_later :: "nat \<Rightarrow> exn" where
  "retry_later n \<equiv> HTTPException n retry_headers"

definition transfer_slot :: "'a aio \<Rightarrow> 'a aio" where
  "transfer_slot m =
     bnd (gets ap_slots) (\<lambda>slots.
     if slots = 0 then raise (retry_later 503)
     else seq (modify (\<lambda>s. s\<lparr>ap_slots := ap_slots s - 1\<rparr>))
            (ensuring m (modify (\<lambda>s. s\<lparr>ap_slots := ap_slots s + 1\<rparr>))))"

definition enforce_api_limit :: "(rat \<Rightarrow> rat) \<Rightarrow> pystr \<Rightarrow> unit aio" where
  "enforce_api_limit fl key = (\<lambda>s.
     case allow fl (ap_monotonic s) key (ap_calls s) of
       (ok, l) \<Rightarrow> (if ok then Inr () else Inl (retry_later 429), s\<lparr>ap_calls := l\<rparr>))"

definition enforce_download_limit :: "(rat \<Rightarrow> rat) \<Rightarrow> pystr \<Rightarrow> unit aio" where
  "enforce_download_limit fl key = (\<lambda>s.
     case allow fl (ap_monotonic s) key (ap_downloads s) of
       (ok, l) \<Rightarrow> (if ok then Inr () else Inl (retry_later 429), s\<lparr>ap_downloads := l\<rparr>))"

definition user_key :: "user_row \<Rightarrow> pystr" where
  "user_key u = ustr ''user:'' @ uuid_str (u_id u)"

definition ip_key :: "pystr option \<Rightarrow> pystr" where
  "ip_key ip = ustr ''ip:'' @ (case ip of None \<Rightarrow> ustr ''None'' | Some a \<Rightarrow> a)"

definition current_user :: "env \<Rightarrow> pystr option \<Rightarrow> user_row aio" where
  "current_user E authorization = on_world (get_current_user (e_ucd E) authorization)"

section \<open>Files\<close>

definition out_of_file :: "file_row \<Rightarrow> availability \<Rightarrow> file_out" where
  "out_of_file f av =
     \<lparr>o_id = f_id f, o_filename = f_original_name f, o_content_type = f_content_type f,
      o_size_bytes = f_size_bytes f, o_checksum_sha256 = f_checksum_sha256 f,
      o_uploaded_at = f_uploaded_at f, o_status = f_status f, o_availability = av\<rparr>"

definition with_availability :: "file_row list \<Rightarrow> file_out list aio" where
  "with_availability fs =
     bnd (on_world (file_availability fs)) (\<lambda>av.
     mapM (\<lambda>f. case map_of av (f_id f) of None \<Rightarrow> raise InvalidRequestError
                | Some a \<Rightarrow> ret (out_of_file f a)) fs)"

definition owned :: "user_row \<Rightarrow> uuid \<Rightarrow> file_row \<Rightarrow> bool" where
  "owned user i f \<longleftrightarrow> f_id f = i \<and> f_owner_user_id f = u_id user \<and> f_status f = Available"

definition owned_file :: "user_row \<Rightarrow> uuid \<Rightarrow> file_row aio" where
  "owned_file user i =
     bnd (on_world (db_select (\<lambda>d. find (owned user i) (files d)))) (\<lambda>file.
     case file of None \<Rightarrow> raise (HTTPException 404 []) | Some f \<Rightarrow> ret f)"

text \<open>The form field \<open>file\<close>: absent (or not a file), or a file with its name, declared type and bytes.\<close>

type_synonym form_file = "(pystr option \<times> pystr option \<times> bytes) option"

definition store_upload ::
  "env \<Rightarrow> user_row \<Rightarrow> pystr option \<Rightarrow> pystr option \<Rightarrow> bytes \<Rightarrow> pystr option \<Rightarrow> file_row aio" where
  "store_upload E user filename content_type data ip =
     catching
       (case sanitize_filename filename of
          None \<Rightarrow> raise ValueErrorRaised
        | Some name \<Rightarrow>
            on_world (upload_file E user name (sanitize_content_type (e_ucd E) content_type) data
              (nat (shard_data_count (e_settings E))) (nat (shard_parity_count (e_settings E))) ip))
       (\<lambda>e. if e = InsufficientNodesError then raise (HTTPException 503 [])
             else if e = UploadFailedError then raise (HTTPException 502 []) else raise e)"

text \<open>The answer for the file just stored, read afresh.\<close>

definition uploaded_answer :: "file_row \<Rightarrow> api_resp aio" where
  "uploaded_answer file =
     bnd (on_world (db_select (get_file (f_id file)))) (\<lambda>fresh.
     case fresh of
       None \<Rightarrow> raise InvalidRequestError
     | Some f \<Rightarrow>
         bnd (with_availability [f]) (\<lambda>out.
         answer 201 (OneFile (hd out))))"

text \<open>The handler's body, for the authenticated user.\<close>

definition upload_body ::
  "env \<Rightarrow> (rat \<Rightarrow> rat) \<Rightarrow> user_row \<Rightarrow> pystr option \<Rightarrow> form_file \<Rightarrow> api_resp aio" where
  "upload_body E fl user ip form =
     seq (enforce_api_limit fl (user_key user))
     (case form of
        None \<Rightarrow> raise (HTTPException 422 [])
      | Some (filename, content_type, content) \<Rightarrow>
          (let data = take (nat (max_upload_bytes (e_settings E) + 1)) content
           in if int (length data) > max_upload_bytes (e_settings E) then raise (HTTPException 413 [])
              else if data = [] then raise (HTTPException 400 [])
              else bnd (store_upload E user filename content_type data ip) uploaded_answer))"

definition post_files ::
  "env \<Rightarrow> (rat \<Rightarrow> rat) \<Rightarrow> pystr option \<Rightarrow> pystr option \<Rightarrow> form_file \<Rightarrow> api_resp aio" where
  "post_files E fl authorization ip form =
     transfer_slot (db_session (
     bnd (current_user E authorization) (\<lambda>user.
     upload_body E fl user ip form)))"

text \<open>One page of a user's files, newest first.\<close>

definition user_files :: "user_row \<Rightarrow> db \<Rightarrow> file_row list" where
  "user_files user d =
     sort_key (\<lambda>f. (- f_uploaded_at f, f_id f))
       (filter (\<lambda>f. f_owner_user_id f = u_id user \<and> f_status f = Available) (files d))"

definition get_files ::
  "env \<Rightarrow> pystr option \<Rightarrow> int \<Rightarrow> int \<Rightarrow> api_resp aio" where
  "get_files E authorization limit offset =
     db_session (
     bnd (current_user E authorization) (\<lambda>user.
     if \<not> (1 \<le> limit \<and> limit \<le> 100 \<and> 0 \<le> offset) then raise (HTTPException 422 [])
     else
     bnd (on_world (db_select (\<lambda>d. take (nat limit) (drop (nat offset) (user_files user d))))) (\<lambda>page.
     bnd (with_availability page) (\<lambda>items.
     answer 200 (FileList items (nat limit) (nat offset))))))"

definition get_file_endpoint :: "env \<Rightarrow> pystr option \<Rightarrow> uuid \<Rightarrow> api_resp aio" where
  "get_file_endpoint E authorization i =
     db_session (
     bnd (current_user E authorization) (\<lambda>user.
     bnd (owned_file user i) (\<lambda>file.
     bnd (with_availability [file]) (\<lambda>out.
     answer 200 (OneFile (hd out))))))"

text \<open>The largest time \<open>datetime.fromtimestamp\<close> represents.\<close>

definition MAX_TIMESTAMP :: int where
  "MAX_TIMESTAMP = 253402300799"

definition create_link ::
  "env \<Rightarrow> (rat \<Rightarrow> rat) \<Rightarrow> pystr option \<Rightarrow> pystr option \<Rightarrow> uuid \<Rightarrow> int \<Rightarrow> api_resp aio" where
  "create_link E fl authorization ip i ttl_seconds =
     (let settings = e_settings E in
     db_session (
     bnd (current_user E authorization) (\<lambda>user.
     seq (enforce_api_limit fl (user_key user))
     (if \<not> (min_ttl_seconds settings \<le> ttl_seconds \<and> ttl_seconds \<le> max_ttl_seconds settings)
      then raise (HTTPException 422 [])
      else
      bnd (owned_file user i) (\<lambda>file.
      bnd unix_time (\<lambda>now.
      let expires = now + ttl_seconds
      in case sign (secret_key settings) (secret_key_id settings) (f_id file) expires (f_link_version file) of
           None \<Rightarrow> raise ValueErrorRaised
         | Some sig \<Rightarrow>
             seq (on_world (audit_record link_generated (Some (f_id file)) (Some (u_id user)) (Some ttl_seconds) ip))
             (seq (on_world db_commit)
             (if expires > MAX_TIMESTAMP then raise ValueErrorRaised
              else answer 201 (LinkMade
                     \<lparr>k_file_id = uuid_str (f_id file), k_exp = py_str_int expires,
                      k_v = py_str_int (f_link_version file), k_kid = secret_key_id settings, k_sig = sig,
                      k_expires_at = expires\<rparr>)))))))))"

definition delete_endpoint :: "env \<Rightarrow> pystr option \<Rightarrow> pystr option \<Rightarrow> uuid \<Rightarrow> api_resp aio" where
  "delete_endpoint E authorization ip i =
     db_session (
     bnd (current_user E authorization) (\<lambda>user.
     bnd (owned_file user i) (\<lambda>file.
     seq (on_world (delete_file E file user ip))
     (answer 204 NoBody))))"

section \<open>Downloads\<close>

definition DOWNLOAD_HEADERS :: "(pystr \<times> pystr) list" where
  "DOWNLOAD_HEADERS =
     [(ustr ''X-Content-Type-Options'', ustr ''nosniff''),
      (ustr ''Content-Security-Policy'', ustr ''default-src '' @ [39] @ ustr ''none'' @ [39] @ ustr ''; sandbox''),
      (ustr ''Cache-Control'', ustr ''no-store''),
      (ustr ''Referrer-Policy'', ustr ''no-referrer'')]"

abbreviation denied :: "nat \<Rightarrow> exn" where
  "denied n \<equiv> HTTPException n [(ustr ''Referrer-Policy'', ustr ''no-referrer'')]"

text \<open>\<open>raise await _deny(...)\<close>.\<close>

definition deny :: "env \<Rightarrow> pystr \<Rightarrow> pystr option \<Rightarrow> nat \<Rightarrow> 'a aio" where
  "deny E raw_file_id ip status =
     bnd (case uuid_parse (e_ucd E) raw_file_id of
            None \<Rightarrow> ret None
          | Some candidate \<Rightarrow>
              bnd (on_world (db_select (get_file candidate))) (\<lambda>f.
              ret (if f \<noteq> None then Some candidate else None))) (\<lambda>file_id.
     seq (on_world (audit_record download_denied file_id None None ip))
     (seq (on_world db_commit)
     (raise (denied status))))"

definition send_file :: "env \<Rightarrow> file_row \<Rightarrow> pystr option \<Rightarrow> api_resp aio" where
  "send_file E file ip =
     bnd (catching (on_world (read_file E file))
            (\<lambda>e. if e = FileUnavailableError then raise (HTTPException 503 [])
                  else if e = FileCorruptedError then raise (HTTPException 500 []) else raise e)) (\<lambda>data.
     seq (on_world (audit_record download_success (Some (f_id file)) None None ip))
     (seq (on_world db_commit)
     (case content_disposition (e_ucd E) (f_original_name file) of
        None \<Rightarrow> raise ValueErrorRaised
      | Some cd \<Rightarrow>
          ret \<lparr>rs_status = 200, rs_content = FileBytes data,
               rs_headers = DOWNLOAD_HEADERS @ [(ustr ''Content-Disposition'', cd)]\<rparr>)))"

definition download_file ::
  "env \<Rightarrow> (rat \<Rightarrow> rat) \<Rightarrow> pystr option \<Rightarrow> pystr \<Rightarrow> pystr option \<Rightarrow> pystr option \<Rightarrow> pystr option
    \<Rightarrow> pystr option \<Rightarrow> api_resp aio" where
  "download_file E fl ip file_id xp v kid sig =
     transfer_slot (db_session (
     seq (enforce_download_limit fl (ip_key ip))
     (case signing_keys (e_settings E) of
        Inl e \<Rightarrow> raise ValueErrorRaised
      | Inr keys \<Rightarrow>
          bnd unix_time (\<lambda>now.
          case verify (e_ucd E) keys file_id xp v kid sig now of
            Inl UnicodeEncode \<Rightarrow> raise ValueErrorRaised
          | Inl (InvalidLink reason) \<Rightarrow> deny E file_id ip 403
          | Inr claims \<Rightarrow>
              bnd (on_world (db_select (get_file (lc_file_id claims)))) (\<lambda>found.
              case found of
                None \<Rightarrow> deny E file_id ip 404
              | Some file \<Rightarrow>
                  if f_status file \<noteq> Available then deny E file_id ip 404
                  else if f_link_version file \<noteq> lc_version claims then deny E file_id ip 403
                  else send_file E file ip)))))"

section \<open>The application\<close>

datatype api_request =
    Healthz
  | PostFiles "pystr option" "pystr option" form_file
  | GetFiles "pystr option" int int
  | GetFile "pystr option" uuid
  | CreateLink "pystr option" "pystr option" uuid int
  | DeleteFile "pystr option" "pystr option" uuid
  | Download "pystr option" pystr "pystr option" "pystr option" "pystr option" "pystr option"

fun route :: "env \<Rightarrow> (rat \<Rightarrow> rat) \<Rightarrow> api_request \<Rightarrow> api_resp aio" where
  "route E fl Healthz = answer 200 NoBody"
| "route E fl (PostFiles a ip form) = post_files E fl a ip form"
| "route E fl (GetFiles a limit offset) = get_files E a limit offset"
| "route E fl (GetFile a i) = get_file_endpoint E a i"
| "route E fl (CreateLink a ip i ttl) = create_link E fl a ip i ttl"
| "route E fl (DeleteFile a ip i) = delete_endpoint E a ip i"
| "route E fl (Download ip i xp v kid sig) = download_file E fl ip i xp v kid sig"

text \<open>The status of an exception that leaves a handler; a lost database is 503.\<close>

fun status_of :: "exn \<Rightarrow> nat" where
  "status_of (HTTPException n hs) = n"
| "status_of OperationalError = 503"
| "status_of _ = 500"

text \<open>The headers such an exception brings along.\<close>

fun error_headers :: "exn \<Rightarrow> (pystr \<times> pystr) list" where
  "error_headers (HTTPException n hs) = hs"
| "error_headers _ = []"

definition serve :: "env \<Rightarrow> (rat \<Rightarrow> rat) \<Rightarrow> api_request \<Rightarrow> api \<Rightarrow> api_resp \<times> api" where
  "serve E fl q s =
     (case route E fl q s of
        (Inr p, t) \<Rightarrow> (p, t)
      | (Inl e, t) \<Rightarrow> (\<lparr>rs_status = status_of e, rs_content = Detail, rs_headers = error_headers e\<rparr>, t))"

end
