(* ===== verification/Download.thy ===== *)
theory Download
  imports Api Deletion
begin

text \<open>
  Downloads: what a link opens, what is audited, and what revocation means.
\<close>

section \<open>Handlers on the world\<close>

lemma on_world_triple:
  "triple P m Q E \<Longrightarrow> triple (\<lambda>s. P (ap_world s)) (on_world m) (\<lambda>x s. Q x (ap_world s)) (\<lambda>e s. E e (ap_world s))"
  by (fastforce simp: triple_def on_world_def split: prod.splits sum.splits)

lemma enforce_limit_triple:
  "triple (\<lambda>s. P (ap_world s)) (enforce_api_limit fl k) (\<lambda>_ s. P (ap_world s)) (\<lambda>e s. P (ap_world s) \<and> e = retry_later 429)"
  "triple (\<lambda>s. P (ap_world s)) (enforce_download_limit fl k) (\<lambda>_ s. P (ap_world s)) (\<lambda>e s. P (ap_world s) \<and> e = retry_later 429)"
  by (auto simp: triple_def enforce_api_limit_def enforce_download_limit_def split: prod.splits)

lemma unix_time_triple:
  "triple (\<lambda>s. P (ap_world s)) unix_time (\<lambda>now s. P (ap_world s) \<and> now = w_now (ap_world s) div 1000000) E"
  by (simp add: triple_def unix_time_def gets_def)

lemma transfer_slot_triple:
  assumes "triple (\<lambda>s. P (ap_world s)) m (\<lambda>x s. Q x (ap_world s)) (\<lambda>e s. E e (ap_world s))"
    and "\<And>w. P w \<Longrightarrow> E (retry_later 503) w"
  shows "triple (\<lambda>s. P (ap_world s)) (transfer_slot m) (\<lambda>x s. Q x (ap_world s)) (\<lambda>e s. E e (ap_world s))"
  unfolding triple_def
proof (intro allI impI)
  fix s :: api
  assume P: "P (ap_world s)"
  show "case transfer_slot m s of (Inl e, t) \<Rightarrow> E e (ap_world t) | (Inr x, t) \<Rightarrow> Q x (ap_world t)"
  proof (cases "ap_slots s = 0")
    case True
    then show ?thesis using P assms(2) by (simp add: transfer_slot_def io_simps)
  next
    case False
    have "P (ap_world (s\<lparr>ap_slots := ap_slots s - 1\<rparr>))" using P by simp
    then have "case m (s\<lparr>ap_slots := ap_slots s - 1\<rparr>) of (Inl e, t) \<Rightarrow> E e (ap_world t) | (Inr x, t) \<Rightarrow> Q x (ap_world t)"
      by (rule tripleD [OF assms(1)])
    then show ?thesis using False
      by (auto simp: transfer_slot_def io_simps ensuring_def split: prod.splits sum.splits)
  qed
qed

text \<open>A session opens on the committed rows; what it leaves uncommitted is gone.\<close>

lemma db_session_triple:
  assumes "triple (\<lambda>s. P (ap_world s)) m (\<lambda>x s. Q x (ap_world s)) (\<lambda>e s. E e (ap_world s))"
    and "\<And>w. P' w \<Longrightarrow> P (w\<lparr>w_tx := w_db w\<rparr>)"
    and "\<And>x w d. Q x w \<Longrightarrow> Q x (w\<lparr>w_tx := d\<rparr>)" and "\<And>e w d. E e w \<Longrightarrow> E e (w\<lparr>w_tx := d\<rparr>)"
  shows "triple (\<lambda>s. P' (ap_world s)) (db_session m) (\<lambda>x s. Q x (ap_world s)) (\<lambda>e s. E e (ap_world s))"
  unfolding triple_def
proof (intro allI impI)
  fix s :: api
  assume "P' (ap_world s)"
  then have "P (ap_world (s\<lparr>ap_world := (ap_world s)\<lparr>w_tx := w_db (ap_world s)\<rparr>\<rparr>))" using assms(2) by simp
  then have "case m (s\<lparr>ap_world := (ap_world s)\<lparr>w_tx := w_db (ap_world s)\<rparr>\<rparr>) of
      (Inl e, t) \<Rightarrow> E e (ap_world t) | (Inr x, t) \<Rightarrow> Q x (ap_world t)"
    by (rule tripleD [OF assms(1)])
  then show "case db_session m s of (Inl e, t) \<Rightarrow> E e (ap_world t) | (Inr x, t) \<Rightarrow> Q x (ap_world t)"
    using assms(3,4) by (auto simp: db_session_def split: prod.splits sum.splits)
qed

lemma serve_cases:
  assumes "triple P (route E fl q) Q Er" and "P s" and "serve E fl q s = (p, t)"
  obtains (returned) "Q p t" | (raised) e where "Er e t" "p = \<lparr>rs_status = status_of e, rs_content = Detail, rs_headers = error_headers e\<rparr>"
proof (cases "route E fl q s")
  case (Pair r u)
  then show ?thesis
    using assms that by (cases r) (auto simp: serve_def triple_def)
qed

section \<open>Exceptions that are no HTTP answers\<close>

definition no_http :: "('s, exn, 'a) io \<Rightarrow> bool" where
  "no_http m \<longleftrightarrow> (\<forall>s n hs t. m s \<noteq> (Inl (HTTPException n hs), t))"

lemma status_of_other: "\<forall>n hs. e \<noteq> HTTPException n hs \<Longrightarrow> status_of e = 503 \<or> status_of e = 500"
  by (cases e) auto

lemma no_http_intros:
  "no_http (ret x)" "(\<And>n hs. e \<noteq> HTTPException n hs) \<Longrightarrow> no_http (raise e)" "no_http (db_select f)"
  "no_http (gather f xs)"
  by (auto simp: no_http_def io_simps db_select_def db_trip_def Let_def split: option.splits)

lemma no_http_bnd: "no_http m \<Longrightarrow> (\<And>x. no_http (f x)) \<Longrightarrow> no_http (bnd m f)"
  by (fastforce simp: no_http_def bnd_Inl)

lemma no_http_if: "(c \<Longrightarrow> no_http m) \<Longrightarrow> (\<not> c \<Longrightarrow> no_http n) \<Longrightarrow> no_http (if c then m else n)"
  by simp

lemma no_http_fetch_loop: "no_http (fetch_loop E k c rem)"
proof (induction E k c rem rule: fetch_loop.induct)
  case (1 E k c rem)
  have gather: "e \<noteq> HTTPException n hs" if "get_batch E b w = (Inr rs, w')" "Inl e \<in> set rs" for b w rs w' e n hs
    using that
  proof (induction b arbitrary: w rs)
    case (Cons p b)
    then show ?case
      by (auto simp: get_batch_def gather_Cons bnd_Inr attempt_apply client_get_def bnd_apply node_request_def Let_def
          io_simps split: prod.splits sum.splits if_splits option.splits)
  qed (simp add: get_batch_def)
  have round: "no_http (bnd (get_batch E b) (\<lambda>results. bnd (foldM collect (zip b results) c) (\<lambda>c'. fetch_loop E k c' r)))"
    if "\<And>c'. no_http (fetch_loop E k c' r)" for b r
    unfolding no_http_def
  proof (intro allI notI)
    fix w n hs t
    assume run: "bnd (get_batch E b) (\<lambda>results. bnd (foldM collect (zip b results) c) (\<lambda>c'. fetch_loop E k c' r)) w
      = (Inl (HTTPException n hs), t)"
    obtain rs v where g: "get_batch E b w = (Inr rs, v)"
      using gather_total [of _ b w] unfolding get_batch_def by blast
    obtain x u where f: "foldM collect (zip b rs) c v = (x, u)" by fastforce
    show False
    proof (cases x)
      case (Inl e)
      then have "e = HTTPException n hs" using run g f by (simp add: bnd_apply)
      moreover have "Inl e \<in> set rs" using foldM_collect(3) [OF f Inl] by (metis prod.collapse set_zip_rightD)
      ultimately show False using gather [OF g] by blast
    next
      case (Inr c')
      then have "fetch_loop E k c' r u = (Inl (HTTPException n hs), t)" using run g f by (simp add: bnd_apply)
      then show False using that by (simp add: no_http_def)
    qed
  qed
  show ?case
  proof (cases "length c < k \<and> rem \<noteq> []")
    case True
    show ?thesis unfolding fetch_loop_round [OF True] by (rule round [OF 1 [OF True refl]])
  qed (simp add: fetch_loop_stop no_http_intros)
qed

lemma no_http_read_file: "no_http (read_file E f)"
  unfolding read_file_def shard_candidates_def fetch_blocks_def
  by (intro no_http_bnd no_http_if no_http_intros no_http_fetch_loop)
    (auto simp: lift_erasure_def no_http_def io_simps db_select_def db_trip_def Let_def split: sum.split option.splits)

section \<open>One download\<close>

text \<open>The database as it was, or with one audit row of a download more.\<close>

definition quiet :: "db \<Rightarrow> (pystr \<Rightarrow> uuid \<Rightarrow> bytes option) \<Rightarrow> world \<Rightarrow> bool" where
  "quiet d h w \<longleftrightarrow> w_db w = d \<and> fleet_ok w \<and> held w = h"

definition download_row :: "audit_event_type \<Rightarrow> uuid option \<Rightarrow> pystr option \<Rightarrow> audit_row \<Rightarrow> bool" where
  "download_row ev i ip a \<longleftrightarrow> a_event_type a = ev \<and> a_file_id a = i \<and> a_actor_user_id a = None \<and>
     a_ttl_seconds a = None \<and> a_ip_address a = ip"

text \<open>The rows with one audit row more, for which \<open>R\<close> holds.\<close>

definition noted :: "(audit_row \<Rightarrow> bool) \<Rightarrow> db \<Rightarrow> (pystr \<Rightarrow> uuid \<Rightarrow> bytes option) \<Rightarrow> world \<Rightarrow> bool" where
  "noted R d h w \<longleftrightarrow> (\<exists>a. R a \<and> w_db w = add_audit a d) \<and> constraints_ok (w_db w) \<and> fleet_ok w \<and> held w = h"

abbreviation audited :: "audit_event_type \<Rightarrow> uuid option \<Rightarrow> pystr option \<Rightarrow> db \<Rightarrow> (pystr \<Rightarrow> uuid \<Rightarrow> bytes option) \<Rightarrow> world \<Rightarrow> bool" where
  "audited ev i ip \<equiv> noted (download_row ev i ip)"

definition opened :: "db \<Rightarrow> (pystr \<Rightarrow> uuid \<Rightarrow> bytes option) \<Rightarrow> world \<Rightarrow> bool" where
  "opened d h w \<longleftrightarrow> rows d w \<and> fleet_ok w \<and> held w = h"

lemma opened_quiet: "opened d h w \<Longrightarrow> quiet d h w"
  by (simp add: opened_def quiet_def rows_def)

text \<open>Staging an audit row and committing it: afterwards it is there, or the commit failed.\<close>

lemma audit_commit_triple:
  assumes R: "\<And>u now. R \<lparr>a_id = u, a_file_id = i, a_actor_user_id = actor, a_event_type = ev, a_ttl_seconds = ttl,
      a_ip_address = ip, a_created_at = now\<rparr>"
  shows "triple (opened d h) (seq (audit_record ev i actor ttl ip) db_commit) (\<lambda>_. noted R d h)
    (\<lambda>e w. e \<in> {OperationalError, IntegrityError} \<and> (quiet d h w \<or> noted R d h w))"
proof (rule triple_bnd)
  let ?staged = "\<lambda>w. quiet d h w \<and> (\<exists>a. R a \<and> w_tx w = add_audit a d)"
  show "triple (opened d h) (audit_record ev i actor ttl ip) (\<lambda>_. ?staged)
      (\<lambda>e w. e \<in> {OperationalError, IntegrityError} \<and> (quiet d h w \<or> noted R d h w))"
    unfolding audit_record_def using R
    by (auto simp: triple_def uuid4_def gets_def db_stage_def modify_def bnd_def opened_def rows_def quiet_def
        intro!: exI)
  show "triple ?staged db_commit (\<lambda>_. noted R d h)
      (\<lambda>e w. e \<in> {OperationalError, IntegrityError} \<and> (quiet d h w \<or> noted R d h w))"
    by (rule db_commit_triple) (auto simp: noted_def quiet_def)
qed

lemma on_world_seq: "seq (on_world a) (seq (on_world b) k) = seq (on_world (seq a b)) k"
  by (rule ext) (simp add: bnd_def on_world_def split: prod.split sum.split)

definition denied_id :: "ucd \<Rightarrow> pystr \<Rightarrow> db \<Rightarrow> uuid option" where
  "denied_id U raw d = (case uuid_parse U raw of None \<Rightarrow> None
     | Some c \<Rightarrow> if get_file c d \<noteq> None then Some c else None)"

text \<open>An answer of 403 or 404, or the database failed.\<close>

definition refused ::
  "env \<Rightarrow> pystr \<Rightarrow> pystr option \<Rightarrow> db \<Rightarrow> (pystr \<Rightarrow> uuid \<Rightarrow> bytes option) \<Rightarrow> exn \<Rightarrow> world \<Rightarrow> bool" where
  "refused E raw ip d h e w \<longleftrightarrow>
     e \<in> {denied 403, denied 404} \<and> audited download_denied (denied_id (e_ucd E) raw d) ip d h w \<or>
     e \<in> {OperationalError, IntegrityError} \<and>
       (quiet d h w \<or> audited download_denied (denied_id (e_ucd E) raw d) ip d h w)"

lemma steady_opened: "steady (opened d h)"
  by (simp add: steady_def opened_def rows_def)

lemma deny_triple:
  assumes "st \<in> {403, 404}"
  shows "triple (\<lambda>s. opened d h (ap_world s)) (deny E raw ip st) (\<lambda>_ _. False)
    (\<lambda>e s. refused E raw ip d h e (ap_world s))"
proof -
  let ?E = "\<lambda>e s. refused E raw ip d h e (ap_world s)"
  have look: "triple (opened d h) (db_select (get_file c)) (\<lambda>f w. opened d h w \<and> f = get_file c d) (refused E raw ip d h)" for c
    by (rule triple_conseq [OF db_select_triple [OF steady_opened]])
      (auto simp: opened_def rows_def refused_def quiet_def)
  have who: "triple (\<lambda>s. opened d h (ap_world s))
      (case uuid_parse (e_ucd E) raw of None \<Rightarrow> ret None
       | Some c \<Rightarrow> bnd (on_world (db_select (get_file c))) (\<lambda>f. ret (if f \<noteq> None then Some c else None)))
      (\<lambda>i s. opened d h (ap_world s) \<and> i = denied_id (e_ucd E) raw d) ?E"
  proof (cases "uuid_parse (e_ucd E) raw")
    case None
    then show ?thesis by (simp add: triple_ret denied_id_def)
  next
    case (Some c)
    show ?thesis
      unfolding Some option.case
      by (rule triple_bnd [OF on_world_triple [OF look]]) (simp add: triple_ret denied_id_def Some)
  qed
  have commit: "triple (opened d h) (seq (audit_record download_denied i None None ip) db_commit)
      (\<lambda>_. audited download_denied i ip d h)
      (\<lambda>e w. e \<in> {OperationalError, IntegrityError} \<and> (quiet d h w \<or> audited download_denied i ip d h w))" for i
    by (rule audit_commit_triple) (simp add: download_row_def)
  show ?thesis
    unfolding deny_def on_world_seq
  proof (rule triple_bnd [OF who])
    fix i
    show "triple (\<lambda>s. opened d h (ap_world s) \<and> i = denied_id (e_ucd E) raw d)
        (seq (on_world (seq (audit_record download_denied i None None ip) db_commit)) (raise (denied st)))
        (\<lambda>_ _. False) ?E"
    proof (cases "i = denied_id (e_ucd E) raw d")
      case True
      have "triple (\<lambda>s. opened d h (ap_world s)) (on_world (seq (audit_record download_denied i None None ip) db_commit))
          (\<lambda>_ s. audited download_denied i ip d h (ap_world s)) ?E"
        by (rule triple_conseq [OF on_world_triple [OF commit]]) (auto simp: refused_def True)
      then show ?thesis
        by (intro triple_bnd [of _ _ "\<lambda>_ s. audited download_denied i ip d h (ap_world s)"])
          (use assms in \<open>auto intro: triple_pre triple_raise simp: refused_def True\<close>)
    qed (simp add: triple_def)
  qed
qed

definition sent :: "file_row \<Rightarrow> pystr option \<Rightarrow> db \<Rightarrow> (pystr \<Rightarrow> uuid \<Rightarrow> bytes option) \<Rightarrow> api_resp \<Rightarrow> world \<Rightarrow> bool" where
  "sent f ip d h p w \<longleftrightarrow>
     (\<exists>data. rs_status p = 200 \<and> rs_content p = FileBytes data \<and> sha256_hex data = f_checksum_sha256 f) \<and>
     (\<exists>U cd. content_disposition U (f_original_name f) = Some cd \<and>
        rs_headers p = DOWNLOAD_HEADERS @ [(ustr ''Content-Disposition'', cd)]) \<and>
     audited download_success (Some (f_id f)) ip d h w"

lemma send_file_triple:
  "triple (\<lambda>s. opened d h (ap_world s)) (send_file E f ip) (\<lambda>p s. sent f ip d h p (ap_world s))
    (\<lambda>e s. status_of e \<notin> {403, 404} \<and>
       (quiet d h (ap_world s) \<or> audited download_success (Some (f_id f)) ip d h (ap_world s)))"
proof -
  let ?E = "\<lambda>e s. status_of e \<notin> {403, 404} \<and>
       (quiet d h (ap_world s) \<or> audited download_success (Some (f_id f)) ip d h (ap_world s))"
  have read: "triple (opened d h) (read_file E f) (\<lambda>data w. opened d h w \<and> sha256_hex data = f_checksum_sha256 f)
      (\<lambda>e w. opened d h w \<and> (\<forall>n hs. e \<noteq> HTTPException n hs))"
  proof (rule tripleI)
    fix w data w'
    assume w: "opened d h w" and run: "read_file E f w = (Inr data, w')"
    then show "opened d h w' \<and> sha256_hex data = f_checksum_sha256 f"
      using read_file_run [OF run] by (auto simp: opened_def rows_def)
  next
    fix w e w'
    assume w: "opened d h w" and run: "read_file E f w = (Inl e, w')"
    then show "opened d h w' \<and> (\<forall>n hs. e \<noteq> HTTPException n hs)"
      using read_file_run [OF run] no_http_read_file [of E f] by (auto simp: opened_def rows_def no_http_def)
  qed
  have body: "triple (\<lambda>s. opened d h (ap_world s))
      (catching (on_world (read_file E f))
        (\<lambda>e. if e = FileUnavailableError then raise (HTTPException 503 [])
              else if e = FileCorruptedError then raise (HTTPException 500 []) else raise e))
      (\<lambda>data s. opened d h (ap_world s) \<and> sha256_hex data = f_checksum_sha256 f) ?E"
    by (rule triple_catching [OF on_world_triple [OF read]])
      (auto intro!: triple_raise simp: opened_quiet dest!: status_of_other)
  have commit: "triple (\<lambda>s. opened d h (ap_world s) \<and> c)
      (on_world (seq (audit_record download_success (Some (f_id f)) None None ip) db_commit))
      (\<lambda>_ s. audited download_success (Some (f_id f)) ip d h (ap_world s) \<and> c) ?E" for c
  proof (cases c)
    case True
    show ?thesis
      by (rule triple_conseq [OF on_world_triple [OF audit_commit_triple [of "download_row download_success (Some (f_id f)) ip"]]])
        (auto simp: True download_row_def)
  qed (simp add: triple_def)
  show ?thesis
    unfolding send_file_def on_world_seq
    by (rule triple_bnd [OF body], rule triple_bnd [OF commit])
      (auto intro!: triple_ret triple_raise simp: sent_def split: option.split)
qed

section \<open>What a download does\<close>

text \<open>The link in a request opens a file: its signature verifies, it has not expired, and the file it names is
  available at the link version it was signed for.\<close>

definition link_opens ::
  "env \<Rightarrow> db \<Rightarrow> int \<Rightarrow> pystr \<Rightarrow> pystr option \<Rightarrow> pystr option \<Rightarrow> pystr option \<Rightarrow> pystr option \<Rightarrow> file_row \<Rightarrow> bool" where
  "link_opens E d now file_id xp v kid sig file =
     (case signing_keys (e_settings E) of
        Inl e \<Rightarrow> False
      | Inr keys \<Rightarrow>
          (case verify (e_ucd E) keys file_id xp v kid sig now of
             Inl e \<Rightarrow> False
           | Inr claims \<Rightarrow>
               get_file (lc_file_id claims) d = Some file \<and> f_status file = Available \<and>
               f_link_version file = lc_version claims))"

definition download_raises ::
  "env \<Rightarrow> pystr \<Rightarrow> pystr option \<Rightarrow> (file_row \<Rightarrow> bool) \<Rightarrow> db \<Rightarrow> (pystr \<Rightarrow> uuid \<Rightarrow> bytes option) \<Rightarrow> exn \<Rightarrow> world \<Rightarrow> bool" where
  "download_raises E raw ip opens d h e w \<longleftrightarrow>
     (\<forall>f. \<not> opens f) \<and> refused E raw ip d h e w \<or>
     status_of e \<notin> {403, 404} \<and>
       (quiet d h w \<or> (\<exists>f. opens f \<and> audited download_success (Some (f_id f)) ip d h w))"

lemma quiet_raises:
  "opened d h w \<Longrightarrow> status_of e \<notin> {403, 404} \<Longrightarrow> download_raises E raw ip opens d h e w"
  using opened_quiet by (auto simp: download_raises_def)

lemma raise_download:
  "status_of e \<notin> {403, 404} \<Longrightarrow>
    triple (\<lambda>s. opened d h (ap_world s)) (raise e) Q (\<lambda>e s. download_raises E raw ip opens d h e (ap_world s))"
  by (rule triple_raise) (rule quiet_raises)

lemma deny_download:
  assumes "st \<in> {403, 404}" and "\<And>f. \<not> opens f"
  shows "triple (\<lambda>s. opened d h (ap_world s)) (deny E raw ip st) (\<lambda>p s. Q p s)
    (\<lambda>e s. download_raises E raw ip opens d h e (ap_world s))"
  by (rule triple_conseq [OF deny_triple [OF assms(1), of d h E raw ip]]) (use assms(2) in \<open>auto simp: download_raises_def\<close>)

lemma send_download:
  assumes "opens f"
  shows "triple (\<lambda>s. opened d h (ap_world s)) (send_file E f ip) (\<lambda>p s. \<exists>f. opens f \<and> sent f ip d h p (ap_world s))
    (\<lambda>e s. download_raises E raw ip opens d h e (ap_world s))"
  by (rule triple_conseq [OF send_file_triple [of d h E f ip]]) (use assms in \<open>auto simp: download_raises_def\<close>)

text \<open>The row the claims name decides.\<close>

lemma claimed_download:
  assumes "\<And>g. opens g \<longleftrightarrow> get_file i d = Some g \<and> f_status g = Available \<and> f_link_version g = version"
  shows "triple (\<lambda>s. opened d h (ap_world s))
    (bnd (on_world (db_select (get_file i))) (\<lambda>found.
      case found of None \<Rightarrow> deny E raw ip 404
      | Some f \<Rightarrow> if f_status f \<noteq> Available then deny E raw ip 404
                  else if f_link_version f \<noteq> version then deny E raw ip 403
                  else send_file E f ip))
    (\<lambda>p s. \<exists>f. opens f \<and> sent f ip d h p (ap_world s)) (\<lambda>e s. download_raises E raw ip opens d h e (ap_world s))"
    (is "triple _ _ ?Q ?E")
proof -
  have look: "triple (\<lambda>s. opened d h (ap_world s)) (on_world (db_select (get_file i)))
      (\<lambda>f s. opened d h (ap_world s) \<and> f = get_file i d) ?E"
    by (rule triple_conseq [OF on_world_triple [OF db_select_triple [OF steady_opened [of d h], of "get_file i"]]])
      (use quiet_raises in \<open>auto simp: opened_def rows_def\<close>)
  show ?thesis
  proof (rule triple_bnd [OF look], rule triple_fact)
    fix found
    assume found: "found = get_file i d"
    show "triple (\<lambda>s. opened d h (ap_world s))
       (case found of None \<Rightarrow> deny E raw ip 404
           | Some f \<Rightarrow> if f_status f \<noteq> Available then deny E raw ip 404
                       else if f_link_version f \<noteq> version then deny E raw ip 403
                       else send_file E f ip) ?Q ?E"
    proof (cases found)
      case None
      then have "\<not> opens g" for g using assms found by simp
      then show ?thesis using None by (simp add: deny_download)
    next
      case (Some f)
      then have "opens g \<longleftrightarrow> g = f \<and> f_status f = Available \<and> f_link_version f = version" for g
        using assms found by auto
      then show ?thesis unfolding Some option.case by (intro triple_if deny_download send_download) auto
    qed
  qed
qed

lemma verified_download:
  assumes keys: "signing_keys (e_settings E) = Inr keys"
  shows "triple (\<lambda>s. opened d h (ap_world s))
    (case verify (e_ucd E) keys raw xp v kid sig now of
       Inl UnicodeEncode \<Rightarrow> raise ValueErrorRaised
     | Inl (InvalidLink reason) \<Rightarrow> deny E raw ip 403
     | Inr claims \<Rightarrow>
         bnd (on_world (db_select (get_file (lc_file_id claims)))) (\<lambda>found.
           case found of None \<Rightarrow> deny E raw ip 404
           | Some f \<Rightarrow> if f_status f \<noteq> Available then deny E raw ip 404
                       else if f_link_version f \<noteq> lc_version claims then deny E raw ip 403
                       else send_file E f ip))
    (\<lambda>p s. \<exists>f. link_opens E d now raw xp v kid sig f \<and> sent f ip d h p (ap_world s))
    (\<lambda>e s. download_raises E raw ip (link_opens E d now raw xp v kid sig) d h e (ap_world s))"
proof (cases "verify (e_ucd E) keys raw xp v kid sig now")
  case (Inl e)
  then have "\<not> link_opens E d now raw xp v kid sig f" for f using keys by (simp add: link_opens_def)
  then show ?thesis using Inl by (cases e) (simp_all add: raise_download deny_download)
next
  case (Inr claims)
  show ?thesis
    unfolding Inr sum.case by (rule claimed_download) (simp add: link_opens_def keys Inr)
qed

lemma download_triple:
  "triple (\<lambda>s. w_db (ap_world s) = d \<and> fleet_ok (ap_world s) \<and> held (ap_world s) = h \<and> w_now (ap_world s) = T)
    (download_file E fl ip raw xp v kid sig)
    (\<lambda>p s. \<exists>f. link_opens E d (T div 1000000) raw xp v kid sig f \<and> sent f ip d h p (ap_world s))
    (\<lambda>e s. download_raises E raw ip (link_opens E d (T div 1000000) raw xp v kid sig) d h e (ap_world s))"
proof -
  let ?opens = "link_opens E d (T div 1000000) raw xp v kid sig"
  let ?Q = "\<lambda>p w. \<exists>f. ?opens f \<and> sent f ip d h p w"
  let ?E = "\<lambda>e w. download_raises E raw ip ?opens d h e w"
  let ?P = "\<lambda>w. opened d h w \<and> w_now w = T"
  have limit: "triple (\<lambda>s. ?P (ap_world s)) (enforce_download_limit fl k) (\<lambda>_ s. ?P (ap_world s)) (\<lambda>e s. ?E e (ap_world s))" for k
    by (rule triple_conseq [OF enforce_limit_triple(2) [of ?P]]) (use quiet_raises in auto)
  have time: "triple (\<lambda>s. ?P (ap_world s)) unix_time (\<lambda>now s. opened d h (ap_world s) \<and> now = T div 1000000) Er" for Er
    by (rule triple_conseq [OF unix_time_triple [of ?P]]) auto
  have signed: "triple (\<lambda>s. ?P (ap_world s)) (bnd unix_time F) (\<lambda>p s. ?Q p (ap_world s)) (\<lambda>e s. ?E e (ap_world s))"
    if "triple (\<lambda>s. opened d h (ap_world s)) (F (T div 1000000)) (\<lambda>p s. ?Q p (ap_world s)) (\<lambda>e s. ?E e (ap_world s))" for F
    by (rule triple_bnd [OF time], rule triple_fact) (use that in simp)
  show ?thesis
    unfolding download_file_def
  proof (rule transfer_slot_triple, rule db_session_triple [where P = ?P], rule triple_bnd [OF limit], goal_cases)
    case 1
    show ?case
    proof (cases "signing_keys (e_settings E)")
      case (Inl e)
      show ?thesis unfolding Inl sum.case by (rule triple_pre [OF raise_download]) simp_all
    next
      case (Inr keys)
      show ?thesis unfolding Inr sum.case by (rule signed, rule verified_download [OF Inr])
    qed
  qed (auto simp: opened_def rows_def sent_def noted_def download_raises_def refused_def quiet_def)
qed

lemma download_served:
  assumes "fleet_ok (ap_world s)" and "serve E fl (Download ip raw xp v kid sig) s = (p, t)"
  defines "opens \<equiv> link_opens E (w_db (ap_world s)) (w_now (ap_world s) div 1000000) raw xp v kid sig"
  shows "(\<exists>f. opens f \<and> sent f ip (w_db (ap_world s)) (held (ap_world s)) p (ap_world t)) \<or>
    (\<exists>e. download_raises E raw ip opens (w_db (ap_world s)) (held (ap_world s)) e (ap_world t) \<and>
       p = \<lparr>rs_status = status_of e, rs_content = Detail, rs_headers = error_headers e\<rparr>)"
  using download_triple [of "w_db (ap_world s)" "held (ap_world s)" "w_now (ap_world s)" E fl ip raw xp v kid sig]
  by (rule serve_cases [where q = "Download ip raw xp v kid sig", simplified route.simps, OF _ _ assms(2)])
    (use assms(1) in \<open>auto simp: opens_def\<close>)

section \<open>Properties\<close>

text \<open>The API in front of a world, with full buckets and slots; and a world with one deleted file.\<close>

definition example_api :: "world \<Rightarrow> api" where
  "example_api w = \<lparr>ap_world = w, ap_downloads = rate_limiter id 60, ap_calls = rate_limiter id 120,
     ap_slots = 4, ap_monotonic = 0\<rparr>"

definition gone_file :: file_row where
  "gone_file = (new_file 5 0 1 [97] [98] [1] [] 2 1)\<lparr>f_status := Deleted, f_link_version := 2\<rparr>"

definition gone_world :: world where
  "gone_world = example_world\<lparr>w_db := example_db\<lparr>files := [gone_file]\<rparr>\<rparr>"

lemma gone_fleet: "fleet_ok (ap_world (example_api gone_world))"
  using example_fleet by (simp add: example_api_def gone_world_def)

lemma gone_get: "get_file 5 (w_db (ap_world (example_api gone_world))) = Some gone_file"
  by (simp add: example_api_def gone_world_def get_file_def gone_file_def new_file_def)

text \<open>
  C9. No unaudited and no unauthorised download. For any request to the download endpoint and whatever fails: bytes are
  answered only when the link opens a file (it verifies under a configured key, has not expired, and the file is
  available at the signed link version), they have the digest recorded for this file, and a
  \<open>download_success\<close> row for it is committed; an answer of 403 or 404 comes with a committed
  \<open>download_denied\<close> row, which names the requested file exactly if it exists, and forbids a referrer; nothing else in the database and nothing
  on the nodes changes.
\<close>
theorem download_audited:
  assumes "fleet_ok (ap_world s)" and "serve E fl (Download ip raw xp v kid sig) s = (p, t)"
  shows "held (ap_world t) = held (ap_world s) \<and>
    (\<forall>data. rs_content p = FileBytes data \<longrightarrow>
       (\<exists>f a. link_opens E (w_db (ap_world s)) (w_now (ap_world s) div 1000000) raw xp v kid sig f \<and>
          sha256_hex data = f_checksum_sha256 f \<and> download_row download_success (Some (f_id f)) ip a \<and>
          w_db (ap_world t) = add_audit a (w_db (ap_world s)))) \<and>
    (rs_status p \<in> {403, 404} \<longrightarrow> rs_headers p = [(ustr ''Referrer-Policy'', ustr ''no-referrer'')] \<and>
       (\<exists>a. download_row download_denied (denied_id (e_ucd E) raw (w_db (ap_world s))) ip a \<and>
          w_db (ap_world t) = add_audit a (w_db (ap_world s)))) \<and>
    (w_db (ap_world t) = w_db (ap_world s) \<or>
       (\<exists>a. a_event_type a \<in> {download_success, download_denied} \<and>
          w_db (ap_world t) = add_audit a (w_db (ap_world s))))"
  using download_served [OF assms]
proof (elim disjE exE conjE)
  fix f
  assume "link_opens E (w_db (ap_world s)) (w_now (ap_world s) div 1000000) raw xp v kid sig f"
    and "sent f ip (w_db (ap_world s)) (held (ap_world s)) p (ap_world t)"
  then show ?thesis by (auto simp: sent_def noted_def download_row_def)
next
  fix e
  assume r: "download_raises E raw ip (link_opens E (w_db (ap_world s)) (w_now (ap_world s) div 1000000) raw xp v kid sig)
      (w_db (ap_world s)) (held (ap_world s)) e (ap_world t)"
    and p: "p = \<lparr>rs_status = status_of e, rs_content = Detail, rs_headers = error_headers e\<rparr>"
  show ?thesis using r p by (auto simp: download_raises_def refused_def quiet_def noted_def download_row_def)
qed

theorem download_audited_witness:
  "\<exists>p t. serve example_env id (Download None [] None None None None) (example_api gone_world) = (p, t) \<and>
    held (ap_world t) = held gone_world \<and> (\<forall>data. rs_content p \<noteq> FileBytes data) \<and>
    (rs_status p = 403 \<longrightarrow> (\<exists>a. download_row download_denied None None a \<and>
       w_db (ap_world t) = add_audit a (w_db gone_world)))"
proof -
  obtain p t where run: "serve example_env id (Download None [] None None None None) (example_api gone_world) = (p, t)"
    by fastforce
  have "\<not> link_opens example_env d n [] None None None None f" for d n f
    by (simp add: link_opens_def verify_def split: sum.split)
  moreover have "denied_id ascii_ucd [] d = None" for d
    using strip_by_idI [of "[]"] by (simp add: denied_id_def uuid_parse_def py_remove_free Let_def)
  moreover have "e_ucd example_env = ascii_ucd" "ap_world (example_api gone_world) = gone_world"
    by (simp_all add: example_env_def example_api_def)
  ultimately show ?thesis
    using download_audited [OF gone_fleet run] run by auto
qed

text \<open>
  C10. Revocation is immediate: a link that names a file whose row is no longer available, or that was signed for another
  link version than the row's (deletion marks the row and raises the version), is never answered with
  bytes, however valid its signature is.
\<close>
theorem revoked_link_closed:
  assumes "fleet_ok (ap_world s)" and "serve E fl (Download ip raw xp (Some v) kid sig) s = (p, t)"
    and "uuid_parse (e_ucd E) raw = Some i" and "get_file i (w_db (ap_world s)) = Some f"
    and "f_status f \<noteq> Available \<or> f_link_version f \<noteq> int (dec_value v)"
  shows "rs_content p = Detail \<and> held (ap_world t) = held (ap_world s)"
proof -
  have closed: "\<not> link_opens E (w_db (ap_world s)) now raw xp (Some v) kid sig g" for now g
  proof
    assume "link_opens E (w_db (ap_world s)) now raw xp (Some v) kid sig g"
    then have "lc_file_id c = i \<and> lc_version c = int (dec_value v) \<and> get_file (lc_file_id c) (w_db (ap_world s)) = Some g \<and>
        f_status g = Available \<and> f_link_version g = lc_version c"
      if "signing_keys (e_settings E) = Inr keys" "verify (e_ucd E) keys raw xp (Some v) kid sig now = Inr c" for keys c
      using that assms(3) by (auto simp: link_opens_def verify_def Let_def split: option.splits if_splits)
    then show False
      using assms(4,5) \<open>link_opens E (w_db (ap_world s)) now raw xp (Some v) kid sig g\<close>
      by (auto simp: link_opens_def split: sum.splits)
  qed
  then show ?thesis
    using download_served [OF assms(1,2)]
    by (auto simp: download_raises_def refused_def quiet_def noted_def)
qed

theorem revoked_link_closed_witness:
  "\<exists>p t. serve example_env id (Download None (uuid_str 5) (Some [57]) (Some [49]) (Some [107]) (Some [115]))
      (example_api gone_world) = (p, t) \<and> rs_content p = Detail \<and> held (ap_world t) = held gone_world"
proof -
  obtain p t where run: "serve example_env id (Download None (uuid_str 5) (Some [57]) (Some [49]) (Some [107]) (Some [115]))
      (example_api gone_world) = (p, t)" by fastforce
  have "rs_content p = Detail \<and> held (ap_world t) = held (ap_world (example_api gone_world))"
    by (rule revoked_link_closed [OF gone_fleet run _ gone_get]) (simp_all add: gone_file_def)
  with run show ?thesis by (auto simp: example_api_def)
qed

end
