(* ===== verification/Endpoints.thy ===== *)
theory Endpoints
  imports Download Repairs
begin

text \<open>
  The owner's endpoints: who is authenticated, what each answers and what it changes.
\<close>

section \<open>Authentication\<close>

text \<open>The user a header authenticates against the rows of \<open>d\<close>.\<close>

definition key_user :: "ucd \<Rightarrow> pystr option \<Rightarrow> db \<Rightarrow> exn + user_row" where
  "key_user U authorization d =
     (let (scheme, _, api_key) = py_partition 32 (case authorization of None \<Rightarrow> [] | Some a \<Rightarrow> a)
      in if py_lower U scheme \<noteq> ustr ''bearer'' \<or> \<not> py_startswith api_key API_KEY_PREFIX
         then Inl unauthorized
         else
           (case hash_api_key (py_strip api_key) of
              None \<Rightarrow> Inl ValueErrorRaised
            | Some h \<Rightarrow> (case find_user h d of None \<Rightarrow> Inl unauthorized | Some u \<Rightarrow> Inr u)))"

lemma key_user_error: "key_user U a d = Inl e \<Longrightarrow> e \<in> {unauthorized, ValueErrorRaised}"
  by (auto simp: key_user_def Let_def split: prod.splits if_splits option.splits)

lemma key_user_row: "key_user U a d = Inr u \<Longrightarrow> u \<in> set (users d)"
  by (auto simp: key_user_def Let_def find_user_def find_Some_iff split: prod.splits if_splits option.splits)

text \<open>An open session on the rows \<open>d\<close> at time \<open>T\<close>, with \<open>h\<close> on the nodes.\<close>

definition opened_at :: "db \<Rightarrow> (pystr \<Rightarrow> uuid \<Rightarrow> bytes option) \<Rightarrow> int \<Rightarrow> world \<Rightarrow> bool" where
  "opened_at d h T w \<longleftrightarrow> opened d h w \<and> w_now w = T"

lemma steady_opened_at: "steady (opened_at d h T)"
  by (simp add: steady_def opened_at_def opened_def rows_def)

lemma opened_at_quiet: "opened_at d h T w \<Longrightarrow> quiet d h w"
  by (simp add: opened_at_def opened_quiet)

lemma quiet_tx [simp]: "quiet d h (w\<lparr>w_tx := e\<rparr>) = quiet d h w"
  by (simp add: quiet_def)

lemma noted_tx [simp]: "noted R d h (w\<lparr>w_tx := e\<rparr>) = noted R d h w"
  by (simp add: noted_def)

lemma select_opened:
  "triple (\<lambda>s. opened_at d h T (ap_world s)) (on_world (db_select f))
    (\<lambda>x s. opened_at d h T (ap_world s) \<and> x = f d) (\<lambda>e s. quiet d h (ap_world s) \<and> e = OperationalError)"
  by (rule triple_conseq [OF on_world_triple [OF db_select_triple [OF steady_opened_at]]])
    (auto simp: opened_at_quiet, simp add: opened_at_def opened_def rows_def)

lemma current_user_triple:
  "triple (\<lambda>s. opened_at d h T (ap_world s)) (current_user E a)
    (\<lambda>u s. opened_at d h T (ap_world s) \<and> key_user (e_ucd E) a d = Inr u)
    (\<lambda>e s. quiet d h (ap_world s) \<and> (key_user (e_ucd E) a d = Inl e \<or> e = OperationalError))"
proof -
  let ?U = "e_ucd E"
  have one: "triple (opened_at d h T)
      (case u of None \<Rightarrow> raise unauthorized | Some u \<Rightarrow> ret u)
      (\<lambda>u' w. opened_at d h T w \<and> u = Some u') (\<lambda>e w. quiet d h w \<and> u = None \<and> e = unauthorized)" for u :: "user_row option"
    by (cases u) (auto intro: triple_ret triple_raise simp: opened_at_quiet)
  have sel: "triple (opened_at d h T) (db_select (find_user k)) (\<lambda>u w. opened_at d h T w \<and> u = find_user k d)
      (\<lambda>e w. quiet d h w \<and> e = OperationalError)" for k
    by (rule triple_conseq [OF db_select_triple [OF steady_opened_at]])
      (auto simp: opened_at_quiet, simp add: opened_at_def opened_def rows_def)
  have look: "triple (opened_at d h T) (bnd (db_select (find_user k)) (\<lambda>u.
        case u of None \<Rightarrow> raise unauthorized | Some u \<Rightarrow> ret u))
      (\<lambda>u w. opened_at d h T w \<and> find_user k d = Some u)
      (\<lambda>e w. quiet d h w \<and> (find_user k d = None \<and> e = unauthorized \<or> e = OperationalError))" for k
    by (rule triple_bnd [OF triple_conseq [OF sel]], assumption, assumption, blast,
        rule triple_fact, rule triple_conseq [OF one]) auto
  have "triple (opened_at d h T) (get_current_user ?U a) (\<lambda>u w. opened_at d h T w \<and> key_user ?U a d = Inr u)
      (\<lambda>e w. quiet d h w \<and> (key_user ?U a d = Inl e \<or> e = OperationalError))"
  proof -
    obtain scheme sep key where p: "py_partition 32 (case a of None \<Rightarrow> [] | Some a \<Rightarrow> a) = (scheme, sep, key)"
      by (metis prod.exhaust)
    show ?thesis
    proof (cases "py_lower ?U scheme \<noteq> ustr ''bearer'' \<or> \<not> py_startswith key API_KEY_PREFIX")
      case True
      then show ?thesis
        unfolding get_current_user_def key_user_def p Let_def prod.case if_P [OF True]
        by (intro triple_raise) (simp add: opened_at_quiet)
    next
      case False
      show ?thesis
      proof (cases "hash_api_key (py_strip key)")
        case None
        then show ?thesis
          unfolding get_current_user_def key_user_def p Let_def prod.case if_not_P [OF False]
          by (auto intro!: triple_raise simp: opened_at_quiet)
      next
        case (Some k)
        show ?thesis
          unfolding get_current_user_def key_user_def p Let_def prod.case if_not_P [OF False] Some option.case
          by (rule triple_conseq [OF look]) auto
      qed
    qed
  qed
  then show ?thesis unfolding current_user_def by (rule on_world_triple)
qed

text \<open>A handler behind authentication, in its session.\<close>

lemma authed_triple:
  assumes body: "\<And>u. key_user (e_ucd E) a d = Inr u \<Longrightarrow>
      triple (\<lambda>s. opened_at d h T (ap_world s)) (body u) (\<lambda>x s. Q x (ap_world s)) (\<lambda>e s. Er e (ap_world s))"
    and Er: "\<And>e w. quiet d h w \<Longrightarrow> key_user (e_ucd E) a d = Inl e \<or> e = OperationalError \<Longrightarrow> Er e w"
    and tx: "\<And>x w t. Q x w \<Longrightarrow> Q x (w\<lparr>w_tx := t\<rparr>)" "\<And>e w t. Er e w \<Longrightarrow> Er e (w\<lparr>w_tx := t\<rparr>)"
  shows "triple (\<lambda>s. quiet d h (ap_world s) \<and> w_now (ap_world s) = T) (db_session (bnd (current_user E a) body))
    (\<lambda>x s. Q x (ap_world s)) (\<lambda>e s. Er e (ap_world s))"
proof (rule db_session_triple [where P = "opened_at d h T"])
  have auth: "triple (\<lambda>s. opened_at d h T (ap_world s)) (current_user E a)
      (\<lambda>u s. opened_at d h T (ap_world s) \<and> key_user (e_ucd E) a d = Inr u) (\<lambda>e s. Er e (ap_world s))"
    by (rule triple_conseq [OF current_user_triple]) (auto intro: Er)
  show "triple (\<lambda>s. opened_at d h T (ap_world s)) (bnd (current_user E a) body)
      (\<lambda>x s. Q x (ap_world s)) (\<lambda>e s. Er e (ap_world s))"
    by (rule triple_bnd [OF auth], rule triple_fact, rule body)
qed (use tx in \<open>auto simp: opened_at_def opened_def rows_def quiet_def\<close>)

section \<open>Reading\<close>

definition file_view :: "db \<Rightarrow> file_row \<Rightarrow> file_out" where
  "file_view d f = out_of_file f (availability_of (usable_count (f_id f) d) f)"

lemma availability_dict:
  assumes "distinct (map f_id fs)" and "f_id ` set fs \<inter> fst ` set acc = {}" and "f \<in> set fs"
  shows "map_of (foldl (\<lambda>acc f. dict_set (f_id f) (g f) acc) acc fs) (f_id f) = Some (g f)"
proof -
  have other: "map_of (foldl (\<lambda>acc f. dict_set (f_id f) (g f) acc) acc fs) i = map_of acc i"
    if "i \<notin> f_id ` set fs" for i fs acc
    using that by (induction fs arbitrary: acc) auto
  show ?thesis
    using assms(1,3)
  proof (induction fs arbitrary: acc)
    case (Cons x fs)
    show ?case
    proof (cases "f = x")
      case True
      then show ?thesis using Cons.prems(1) other [of "f_id x" fs] by simp
    qed (use Cons in simp)
  qed simp
qed

lemma with_availability_triple:
  assumes "distinct (map f_id fs)"
  shows "triple (\<lambda>s. opened_at d h T (ap_world s)) (with_availability fs)
    (\<lambda>items s. opened_at d h T (ap_world s) \<and> items = map (file_view d) fs)
    (\<lambda>e s. quiet d h (ap_world s) \<and> e = OperationalError)"
proof (cases fs)
  case Nil
  then show ?thesis
    by (simp add: with_availability_def file_availability_def on_world_def triple_def bnd_apply ret_apply)
next
  case (Cons x xs)
  let ?av = "\<lambda>f. availability_of (usable_count (f_id f) d) f"
  let ?dict = "foldl (\<lambda>acc f. dict_set (f_id f) (?av f) acc) [] fs"
  have step: "(\<lambda>f. case map_of ?dict (f_id f) of None \<Rightarrow> raise InvalidRequestError | Some a \<Rightarrow> ret (out_of_file f a)) f
      = ret (file_view d f)" if "f \<in> set fs" for f :: file_row
    using availability_dict [OF assms _ that, of "[]" ?av] by (simp add: file_view_def)
  have "mapM g xs = ret (map (file_view d) xs)" if "\<And>f. f \<in> set xs \<Longrightarrow> g f = ret (file_view d f)"
    for g :: "file_row \<Rightarrow> file_out aio" and xs
    using that by (induction xs) simp_all
  from this [OF step] have items: "mapM (\<lambda>f. case map_of ?dict (f_id f) of None \<Rightarrow> raise InvalidRequestError
      | Some a \<Rightarrow> ret (out_of_file f a)) fs = (ret (map (file_view d) fs) :: file_out list aio)" .
  have sel: "triple (opened_at d h T) (file_availability fs) (\<lambda>av w. opened_at d h T w \<and> av = ?dict)
      (\<lambda>e w. quiet d h w \<and> e = OperationalError)"
  proof -
    have "triple (opened_at d h T) (db_select (\<lambda>d i. usable_count i d)) (\<lambda>u w. opened_at d h T w \<and> u = (\<lambda>i. usable_count i d))
        (\<lambda>e w. quiet d h w \<and> e = OperationalError)"
      by (rule triple_conseq [OF db_select_triple [OF steady_opened_at]])
        (auto simp: opened_at_quiet, simp add: opened_at_def opened_def rows_def)
    then show ?thesis
      using Cons unfolding file_availability_def by (simp, intro triple_bnd [of _ "db_select _"] triple_fact) (auto intro: triple_ret)
  qed
  show ?thesis
    unfolding with_availability_def
    by (rule triple_bnd [OF on_world_triple [OF sel]], rule triple_fact)
      (simp add: items triple_ret)
qed

lemma owned_file_triple:
  "triple (\<lambda>s. opened_at d h T (ap_world s)) (owned_file u i)
    (\<lambda>f s. opened_at d h T (ap_world s) \<and> find (owned u i) (files d) = Some f)
    (\<lambda>e s. quiet d h (ap_world s) \<and> (e = OperationalError \<or> e = HTTPException 404 [] \<and> find (owned u i) (files d) = None))"
proof -
  have one: "triple (\<lambda>s. opened_at d h T (ap_world s))
      (case f of None \<Rightarrow> raise (HTTPException 404 []) | Some f \<Rightarrow> ret f)
      (\<lambda>g s. opened_at d h T (ap_world s) \<and> f = Some g)
      (\<lambda>e s. quiet d h (ap_world s) \<and> (e = OperationalError \<or> e = HTTPException 404 [] \<and> f = None))" for f :: "file_row option"
    by (cases f) (auto intro: triple_ret triple_raise simp: opened_at_quiet)
  show ?thesis
    unfolding owned_file_def
    by (rule triple_bnd [OF triple_conseq [OF select_opened]], assumption, assumption, blast,
        rule triple_fact, simp only:, rule one)
qed

section \<open>Links\<close>

definition link_row :: "uuid \<Rightarrow> uuid \<Rightarrow> int \<Rightarrow> pystr option \<Rightarrow> audit_row \<Rightarrow> bool" where
  "link_row i actor ttl ip a \<longleftrightarrow> a_event_type a = link_generated \<and> a_file_id a = Some i \<and>
     a_actor_user_id a = Some actor \<and> a_ttl_seconds a = Some ttl \<and> a_ip_address a = ip"

text \<open>The link \<open>k\<close> that the configured key signs for the file row \<open>f\<close>, expiring at \<open>expires\<close>.\<close>

definition link_for :: "env \<Rightarrow> file_row \<Rightarrow> int \<Rightarrow> link_out \<Rightarrow> bool" where
  "link_for E f expires k \<longleftrightarrow>
     k_file_id k = uuid_str (f_id f) \<and> k_exp k = py_str_int expires \<and> k_v k = py_str_int (f_link_version f) \<and>
     k_kid k = secret_key_id (e_settings E) \<and> k_expires_at k = expires \<and> expires \<le> MAX_TIMESTAMP \<and>
     sign (secret_key (e_settings E)) (secret_key_id (e_settings E)) (f_id f) expires (f_link_version f) = Some (k_sig k)"

definition ttl_ok :: "env \<Rightarrow> int \<Rightarrow> bool" where
  "ttl_ok E ttl \<longleftrightarrow> min_ttl_seconds (e_settings E) \<le> ttl \<and> ttl \<le> max_ttl_seconds (e_settings E)"

definition link_made ::
  "env \<Rightarrow> pystr option \<Rightarrow> pystr option \<Rightarrow> uuid \<Rightarrow> int \<Rightarrow> db \<Rightarrow> (pystr \<Rightarrow> uuid \<Rightarrow> bytes option) \<Rightarrow> int \<Rightarrow> api_resp \<Rightarrow> world \<Rightarrow> bool" where
  "link_made E a ip i ttl d h T p w \<longleftrightarrow>
     (\<exists>u f k. key_user (e_ucd E) a d = Inr u \<and> find (owned u i) (files d) = Some f \<and> ttl_ok E ttl \<and>
        link_for E f (T div 1000000 + ttl) k \<and> p = \<lparr>rs_status = 201, rs_content = LinkMade k, rs_headers = []\<rparr> \<and>
        noted (link_row i (u_id u) ttl ip) d h w)"

text \<open>A refused request of an owner: nothing changed, or the row of an owned file's link was written.\<close>

definition link_failed ::
  "env \<Rightarrow> pystr option \<Rightarrow> pystr option \<Rightarrow> uuid \<Rightarrow> int \<Rightarrow> db \<Rightarrow> (pystr \<Rightarrow> uuid \<Rightarrow> bytes option) \<Rightarrow> world \<Rightarrow> bool" where
  "link_failed E a ip i ttl d h w \<longleftrightarrow> quiet d h w \<or>
     (\<exists>u f. key_user (e_ucd E) a d = Inr u \<and> find (owned u i) (files d) = Some f \<and> noted (link_row i (u_id u) ttl ip) d h w)"

lemma enforce_api_at:
  "triple (\<lambda>s. opened_at d h T (ap_world s)) (enforce_api_limit fl k) (\<lambda>_ s. opened_at d h T (ap_world s))
    (\<lambda>e s. quiet d h (ap_world s) \<and> e = retry_later 429)"
  by (rule triple_conseq [OF enforce_limit_triple(1) [of "opened_at d h T"]]) (auto simp: opened_at_quiet)

lemma time_at:
  "triple (\<lambda>s. opened_at d h T (ap_world s)) unix_time (\<lambda>now s. opened_at d h T (ap_world s) \<and> now = T div 1000000) Er"
  by (rule triple_conseq [OF unix_time_triple [of "opened_at d h T"]]) (auto simp: opened_at_def)

lemma owned_id: "find (owned u i) fs = Some f \<Longrightarrow> f \<in> set fs \<and> f_id f = i \<and> f_owner_user_id f = u_id u \<and> f_status f = Available"
  by (auto simp: find_Some_iff owned_def)

text \<open>The end of the handler, for the file found and the signature computed.\<close>

lemma give_link_triple:
  fixes T
  assumes u: "key_user (e_ucd E) a d = Inr u" and f: "find (owned u i) (files d) = Some f" and ok: "ttl_ok E ttl"
  defines "x \<equiv> T div 1000000 + ttl"
  shows "triple (\<lambda>s. opened_at d h T (ap_world s))
    (case sign (secret_key (e_settings E)) (secret_key_id (e_settings E)) (f_id f) x (f_link_version f) of
       None \<Rightarrow> raise ValueErrorRaised
     | Some sig \<Rightarrow>
         seq (on_world (audit_record link_generated (Some (f_id f)) (Some (u_id u)) (Some ttl) ip))
         (seq (on_world db_commit)
         (if x > MAX_TIMESTAMP then raise ValueErrorRaised
          else answer 201 (LinkMade
                 \<lparr>k_file_id = uuid_str (f_id f), k_exp = py_str_int x, k_v = py_str_int (f_link_version f),
                  k_kid = secret_key_id (e_settings E), k_sig = sig, k_expires_at = x\<rparr>))))
    (\<lambda>p s. link_made E a ip i ttl d h T p (ap_world s)) (\<lambda>_ s. link_failed E a ip i ttl d h (ap_world s))"
    (is "triple ?P _ ?Q ?E")
proof (cases "sign (secret_key (e_settings E)) (secret_key_id (e_settings E)) (f_id f) x (f_link_version f)")
  case None
  then show ?thesis by (simp add: triple_raise link_failed_def opened_at_quiet)
next
  case (Some sig)
  let ?k = "\<lparr>k_file_id = uuid_str (f_id f), k_exp = py_str_int x, k_v = py_str_int (f_link_version f),
    k_kid = secret_key_id (e_settings E), k_sig = sig, k_expires_at = x\<rparr>"
  have i: "f_id f = i" using owned_id [OF f] by simp
  have commit: "triple ?P (on_world (seq (audit_record link_generated (Some i) (Some (u_id u)) (Some ttl) ip) db_commit))
      (\<lambda>_ s. noted (link_row i (u_id u) ttl ip) d h (ap_world s)) ?E"
    by (rule triple_conseq [OF on_world_triple [OF audit_commit_triple [of "link_row i (u_id u) ttl ip"]]])
      (use u f in \<open>auto simp: link_row_def opened_at_def link_failed_def\<close>)
  have link: "link_for E f x ?k" if "\<not> x > MAX_TIMESTAMP" using that Some by (simp add: link_for_def)
  have made: "triple (\<lambda>s. noted (link_row i (u_id u) ttl ip) d h (ap_world s))
      (if x > MAX_TIMESTAMP then raise ValueErrorRaised else answer 201 (LinkMade ?k)) ?Q ?E"
    unfolding answer_def
    by (intro triple_if triple_raise triple_ret)
      (use u f ok link in \<open>auto simp: link_failed_def link_made_def x_def\<close>)
  show ?thesis
    unfolding i Some [unfolded i] option.case on_world_seq
    by (rule triple_bnd [OF commit], rule made [unfolded i])
qed

lemma create_link_triple:
  "triple (\<lambda>s. quiet d h (ap_world s) \<and> w_now (ap_world s) = T) (create_link E fl a ip i ttl)
    (\<lambda>p s. link_made E a ip i ttl d h T p (ap_world s)) (\<lambda>e s. link_failed E a ip i ttl d h (ap_world s))"
  unfolding create_link_def Let_def
proof (rule authed_triple, goal_cases)
  case (1 u)
  let ?Q = "\<lambda>p s. link_made E a ip i ttl d h T p (ap_world s)" and ?E = "\<lambda>_ s. link_failed E a ip i ttl d h (ap_world s)"
  have quiet: "triple P m Q' (\<lambda>e s. quiet d h (ap_world s) \<and> X e s) \<Longrightarrow> triple P m Q' ?E" for P and m :: "'x aio" and Q' X
    by (erule triple_conseq) (simp_all add: link_failed_def)
  have raise: "triple (\<lambda>s. opened_at d h T (ap_world s)) (raise e) ?Q ?E" for e
    by (rule triple_raise) (simp add: link_failed_def opened_at_quiet)
  show ?case
    by (rule triple_bnd [OF quiet [OF enforce_api_at]], rule triple_if [OF raise],
        rule triple_bnd [OF quiet [OF owned_file_triple]], rule triple_fact, rule triple_bnd [OF time_at],
        rule triple_fact, hypsubst, rule give_link_triple [OF 1], assumption) (simp add: ttl_ok_def)
qed (auto simp: link_failed_def link_made_def)

section \<open>The other endpoints\<close>

definition get_one :: "env \<Rightarrow> pystr option \<Rightarrow> uuid \<Rightarrow> db \<Rightarrow> api_resp \<Rightarrow> bool" where
  "get_one E a i d p \<longleftrightarrow> (\<exists>u f. key_user (e_ucd E) a d = Inr u \<and> find (owned u i) (files d) = Some f \<and>
     p = \<lparr>rs_status = 200, rs_content = OneFile (file_view d f), rs_headers = []\<rparr>)"

definition page_of :: "user_row \<Rightarrow> int \<Rightarrow> int \<Rightarrow> db \<Rightarrow> file_row list" where
  "page_of u limit offset d = take (nat limit) (drop (nat offset) (user_files u d))"

definition get_page :: "env \<Rightarrow> pystr option \<Rightarrow> int \<Rightarrow> int \<Rightarrow> db \<Rightarrow> api_resp \<Rightarrow> bool" where
  "get_page E a limit offset d p \<longleftrightarrow>
     (\<exists>u. key_user (e_ucd E) a d = Inr u \<and> 1 \<le> limit \<and> limit \<le> 100 \<and> 0 \<le> offset \<and>
        p = \<lparr>rs_status = 200, rs_content = FileList (map (file_view d) (page_of u limit offset d)) (nat limit) (nat offset),
             rs_headers = []\<rparr>)"

lemma fails_quietly:
  "triple P m Q (\<lambda>e s. quiet d h (ap_world s) \<and> X e s) \<Longrightarrow> triple P m Q (\<lambda>e s. quiet d h (ap_world s))" for m :: "'x aio"
  by (erule triple_conseq) simp_all

lemma raise_quietly: "triple (\<lambda>s. opened_at d h T (ap_world s)) (raise e) Q (\<lambda>e s. quiet d h (ap_world s))"
  by (rule triple_raise) (simp add: opened_at_quiet)

lemma get_file_triple:
  "triple (\<lambda>s. quiet d h (ap_world s) \<and> w_now (ap_world s) = T) (get_file_endpoint E a i)
    (\<lambda>p s. get_one E a i d p \<and> quiet d h (ap_world s)) (\<lambda>_ s. quiet d h (ap_world s))"
  unfolding get_file_endpoint_def
proof (rule authed_triple)
  fix u
  assume u: "key_user (e_ucd E) a d = Inr u"
  have out: "triple (\<lambda>s. opened_at d h T (ap_world s) \<and> out = map (file_view d) [f]) (answer 200 (OneFile (hd out)))
      (\<lambda>p s. get_one E a i d p \<and> quiet d h (ap_world s)) (\<lambda>_ s. quiet d h (ap_world s))"
    if "find (owned u i) (files d) = Some f" for f out
    unfolding answer_def by (rule triple_ret) (use u that in \<open>auto simp: get_one_def opened_at_quiet\<close>)
  show "triple (\<lambda>s. opened_at d h T (ap_world s))
      (bnd (owned_file u i) (\<lambda>f. bnd (with_availability [f]) (\<lambda>out. answer 200 (OneFile (hd out)))))
      (\<lambda>p s. get_one E a i d p \<and> quiet d h (ap_world s)) (\<lambda>_ s. quiet d h (ap_world s))"
    by (rule triple_bnd [OF fails_quietly [OF owned_file_triple]], rule triple_fact,
        rule triple_bnd [OF fails_quietly [OF with_availability_triple]], simp, rule out)
qed auto

lemma user_files_ids:
  assumes "constraints_ok d"
  shows "distinct (map f_id (user_files u d))"
proof -
  have "mset (map f_id (user_files u d)) =
      mset (map f_id (filter (\<lambda>f. f_owner_user_id f = u_id u \<and> f_status f = Available) (files d)))"
    by (simp add: user_files_def)
  moreover have "distinct (map f_id (filter (\<lambda>f. f_owner_user_id f = u_id u \<and> f_status f = Available) (files d)))"
    using constraints_okD(2) [OF assms] by (simp add: keys_unique_def distinct_map_filter)
  ultimately show ?thesis using mset_eq_imp_distinct_iff by blast
qed

lemma get_files_triple:
  assumes d: "constraints_ok d"
  shows "triple (\<lambda>s. quiet d h (ap_world s) \<and> w_now (ap_world s) = T) (get_files E a limit offset)
    (\<lambda>p s. get_page E a limit offset d p \<and> quiet d h (ap_world s)) (\<lambda>_ s. quiet d h (ap_world s))"
  unfolding get_files_def
proof (rule authed_triple)
  fix u
  assume u: "key_user (e_ucd E) a d = Inr u"
  let ?Q = "\<lambda>p s. get_page E a limit offset d p \<and> quiet d h (ap_world s)" and ?E = "\<lambda>_ s. quiet d h (ap_world s)"
  have "map f_id (page_of u limit offset d) = take (nat limit) (drop (nat offset) (map f_id (user_files u d)))"
    by (simp add: page_of_def take_map drop_map)
  then have dist: "distinct (map f_id (page_of u limit offset d))"
    using user_files_ids [OF d, of u] by (simp only: distinct_take distinct_drop)
  have out: "triple (\<lambda>s. opened_at d h T (ap_world s) \<and> items = map (file_view d) (page_of u limit offset d))
      (answer 200 (FileList items (nat limit) (nat offset))) ?Q ?E"
    if "1 \<le> limit \<and> limit \<le> 100 \<and> 0 \<le> offset" for items
    unfolding answer_def by (rule triple_ret) (use u that in \<open>auto simp: get_page_def opened_at_quiet\<close>)
  have page: "triple (\<lambda>s. opened_at d h T (ap_world s) \<and> page = page_of u limit offset d)
      (bnd (with_availability page) (\<lambda>items. answer 200 (FileList items (nat limit) (nat offset)))) ?Q ?E"
    if "1 \<le> limit \<and> limit \<le> 100 \<and> 0 \<le> offset" for page
  proof (rule triple_fact)
    assume "page = page_of u limit offset d"
    then show "triple (\<lambda>s. opened_at d h T (ap_world s))
        (bnd (with_availability page) (\<lambda>items. answer 200 (FileList items (nat limit) (nat offset)))) ?Q ?E"
      by (simp, intro triple_bnd [OF fails_quietly [OF with_availability_triple [OF dist]]] out that)
  qed
  show "triple (\<lambda>s. opened_at d h T (ap_world s))
      (if \<not> (1 \<le> limit \<and> limit \<le> 100 \<and> 0 \<le> offset) then raise (HTTPException 422 [])
       else bnd (on_world (db_select (\<lambda>d. take (nat limit) (drop (nat offset) (user_files u d))))) (\<lambda>page.
         bnd (with_availability page) (\<lambda>items. answer 200 (FileList items (nat limit) (nat offset))))) ?Q ?E"
    by (rule triple_if [OF raise_quietly], rule triple_bnd [OF fails_quietly [OF select_opened]])
      (use page in \<open>simp add: page_of_def\<close>)
qed auto

definition removed_by ::
  "env \<Rightarrow> pystr option \<Rightarrow> pystr option \<Rightarrow> uuid \<Rightarrow> db \<Rightarrow> (pystr \<Rightarrow> uuid \<Rightarrow> bytes option) \<Rightarrow> int \<Rightarrow> world \<Rightarrow> bool" where
  "removed_by E a ip i d h T w \<longleftrightarrow>
     (\<exists>u f. key_user (e_ucd E) a d = Inr u \<and> find (owned u i) (files d) = Some f \<and> deletion d f T (u_id u) ip h w)"

lemma delete_endpoint_triple:
  assumes d: "constraints_ok d"
  shows "triple (\<lambda>s. quiet d h (ap_world s) \<and> w_now (ap_world s) = T) (delete_endpoint E a ip i)
    (\<lambda>p s. p = \<lparr>rs_status = 204, rs_content = NoBody, rs_headers = []\<rparr> \<and> removed_by E a ip i d h T (ap_world s))
    (\<lambda>_ s. quiet d h (ap_world s) \<or> removed_by E a ip i d h T (ap_world s))"
  unfolding delete_endpoint_def
proof (rule authed_triple)
  fix u
  assume u: "key_user (e_ucd E) a d = Inr u"
  let ?Q = "\<lambda>p s. p = \<lparr>rs_status = 204, rs_content = NoBody, rs_headers = []\<rparr> \<and> removed_by E a ip i d h T (ap_world s)"
    and ?E = "\<lambda>_ s. quiet d h (ap_world s) \<or> removed_by E a ip i d h T (ap_world s)"
  have look: "triple (\<lambda>s. opened_at d h T (ap_world s)) (owned_file u i)
      (\<lambda>f s. opened_at d h T (ap_world s) \<and> find (owned u i) (files d) = Some f) ?E"
    by (rule triple_conseq [OF owned_file_triple]) auto
  have del: "triple (\<lambda>s. opened_at d h T (ap_world s)) (on_world (delete_file E f u ip))
      (\<lambda>_ s. removed_by E a ip i d h T (ap_world s)) ?E" if f: "find (owned u i) (files d) = Some f" for f
    by (rule triple_conseq [OF on_world_triple [OF delete_file_triple [OF d, of f h T E u ip]]])
      (use owned_id [OF f] u f in \<open>auto simp: opened_at_def opened_def removed_by_def untouched_def quiet_def\<close>)
  have out: "triple (\<lambda>s. removed_by E a ip i d h T (ap_world s)) (answer 204 NoBody) ?Q ?E"
    unfolding answer_def by (rule triple_ret) simp
  show "triple (\<lambda>s. opened_at d h T (ap_world s))
      (bnd (owned_file u i) (\<lambda>f. seq (on_world (delete_file E f u ip)) (answer 204 NoBody))) ?Q ?E"
    by (rule triple_bnd [OF look], rule triple_fact, rule triple_bnd [OF del], assumption, rule out)
qed (auto simp: removed_by_def deletion_def removal_def shards_removed_def)

section \<open>Uploads\<close>

lemma orderly_tx [simp]: "orderly w0 (w\<lparr>w_tx := t\<rparr>) = orderly w0 w"
  by (simp add: orderly_def rows_added_def fully_stored_def good_shard_def kept_ids_def)

lemma fully_stored_tx [simp]: "fully_stored (w\<lparr>w_tx := t\<rparr>) f = fully_stored w f"
  by (simp add: fully_stored_def good_shard_def)

lemma upload_settles: "upload_file E u name ct data k m ip w = (Inr g, v) \<Longrightarrow> w_tx v = w_db v"
  by (auto simp: upload_file_def Let_def bnd_Inr split: if_splits dest!: commit_settles)

definition stored_answer ::
  "env \<Rightarrow> pystr option \<Rightarrow> bytes \<Rightarrow> db \<Rightarrow> world \<Rightarrow> api_resp \<Rightarrow> world \<Rightarrow> bool" where
  "stored_answer E a data d w0 p w \<longleftrightarrow>
     (\<exists>u g. key_user (e_ucd E) a d = Inr u \<and> g \<in> set (files (w_db w)) \<and> f_owner_user_id g = u_id u \<and>
        f_status g = Available \<and> f_size_bytes g = length data \<and> f_checksum_sha256 g = sha256_hex data \<and>
        int (length data) \<le> max_upload_bytes (e_settings E) \<and>
        fully_stored w g \<and> p = \<lparr>rs_status = 201, rs_content = OneFile (file_view (w_db w) g), rs_headers = []\<rparr>) \<and>
     orderly w0 w"

definition stored_row :: "user_row \<Rightarrow> bytes \<Rightarrow> world \<Rightarrow> file_row \<Rightarrow> world \<Rightarrow> bool" where
  "stored_row u data w0 g w \<longleftrightarrow> g \<in> set (files (w_db w)) \<and> f_owner_user_id g = u_id u \<and> f_status g = Available \<and>
     f_size_bytes g = length data \<and> f_checksum_sha256 g = sha256_hex data \<and> fully_stored w g \<and>
     orderly w0 w \<and> w_tx w = w_db w"

lemma quiet_orderly: "quiet (w_db w0) (held w0) w \<Longrightarrow> constraints_ok (w_db w0) \<Longrightarrow> orderly w0 w"
  by (rule undone_orderly) (simp_all add: quiet_def undone_def kept_ids_def)

lemma upload_stored_triple:
  assumes d: "constraints_ok (w_db w0)"
  shows "triple (opened_at (w_db w0) (held w0) T) (upload_file E u name ct data k m ip)
    (stored_row u data w0) (\<lambda>_. orderly w0)"
proof -
  note t = upload_file_triple [OF d, of E u name ct data k m ip]
  have base: "base w0 w" if "opened_at (w_db w0) (held w0) T w" for w
    using that by (simp add: opened_at_def opened_def rows_def base_def)
  show ?thesis
  proof (rule tripleI)
    fix w g v
    assume w: "opened_at (w_db w0) (held w0) T w" and run: "upload_file E u name ct data k m ip w = (Inr g, v)"
    obtain f where f: "upload_done E w0 (u_id u) name ct data k m ip f v" "g = f\<lparr>f_status := Available\<rparr>"
      using triple_InrD [OF t base [OF w] run] by blast
    from done_orderly [OF f(1)] upload_settles [OF run] f(2) show "stored_row u data w0 g v"
      by (auto simp: stored_row_def new_file_def add_audit_def add_shards_def add_file_def)
  next
    fix w e v
    assume w: "opened_at (w_db w0) (held w0) T w" and run: "upload_file E u name ct data k m ip w = (Inl e, v)"
    from triple_InlD [OF t base [OF w] run] show "orderly w0 v"
      by (elim disjE exE conjE)
        (erule undone_orderly [OF d] partial_orderly done_orderly [THEN conjunct1])+
  qed
qed

lemma store_upload_triple:
  assumes d: "constraints_ok (w_db w0)"
  shows "triple (\<lambda>s. opened_at (w_db w0) (held w0) T (ap_world s)) (store_upload E u filename ct data ip)
    (\<lambda>g s. stored_row u data w0 g (ap_world s)) (\<lambda>_ s. orderly w0 (ap_world s))"
proof -
  have weak: "opened_at (w_db w0) (held w0) T w \<Longrightarrow> orderly w0 w" for w
    using quiet_orderly opened_at_quiet d by blast
  show ?thesis
    unfolding store_upload_def
  proof (rule triple_catching)
    show "triple (\<lambda>s. opened_at (w_db w0) (held w0) T (ap_world s))
       (case sanitize_filename filename of
          None \<Rightarrow> raise ValueErrorRaised
        | Some name \<Rightarrow>
            on_world (upload_file E u name (sanitize_content_type (e_ucd E) ct) data
              (nat (shard_data_count (e_settings E))) (nat (shard_parity_count (e_settings E))) ip))
       (\<lambda>g s. stored_row u data w0 g (ap_world s)) (\<lambda>_ s. orderly w0 (ap_world s))"
      by (cases "sanitize_filename filename")
        (auto intro!: triple_raise on_world_triple [OF upload_stored_triple [OF d]] simp: weak)
  qed (auto intro!: triple_raise)
qed

lemma uploaded_answer_triple:
  assumes len: "int (length data) \<le> max_upload_bytes (e_settings E)" and u: "key_user (e_ucd E) a d = Inr u"
  shows "triple (\<lambda>s. stored_row u data w0 g (ap_world s)) (uploaded_answer g)
    (\<lambda>p s. stored_answer E a data d w0 p (ap_world s)) (\<lambda>_ s. orderly w0 (ap_world s))"
  unfolding triple_def
proof (intro allI impI)
  fix s :: api
  assume st: "stored_row u data w0 g (ap_world s)"
  let ?d = "w_db (ap_world s)" and ?h = "held (ap_world s)" and ?T = "w_now (ap_world s)"
  let ?Q = "\<lambda>p s. stored_answer E a data d w0 p (ap_world s)" and ?E = "\<lambda>_ s. orderly w0 (ap_world s)"
  have op: "opened_at ?d ?h ?T (ap_world s)"
    using st by (simp add: stored_row_def orderly_def opened_at_def opened_def rows_def)
  have ok: "constraints_ok ?d" using st by (simp add: stored_row_def orderly_def)
  have get: "get_file (f_id g) ?d = Some g"
    using st constraints_okD(2) [OF ok] by (intro get_file_unique) (simp_all add: stored_row_def keys_unique_def)
  have same: "orderly w0 w" "fully_stored w g" if "quiet ?d ?h w" for w
    using that st by (auto simp: stored_row_def orderly_def quiet_def rows_added_def fully_stored_def good_shard_def kept_ids_def)
  have "triple (\<lambda>s. opened_at ?d ?h ?T (ap_world s)) (uploaded_answer g) ?Q ?E"
    unfolding uploaded_answer_def
  proof (rule triple_bnd [OF triple_conseq [OF select_opened]], assumption, assumption)
    show "orderly w0 (ap_world t)" if "quiet ?d ?h (ap_world t) \<and> e = OperationalError" for e t using that same by blast
    fix fresh
    have out: "triple (\<lambda>s. opened_at ?d ?h ?T (ap_world s) \<and> out = map (file_view ?d) [g]) (answer 201 (OneFile (hd out))) ?Q ?E" for out
      unfolding answer_def
      by (rule triple_ret)
        (use u st len same opened_at_quiet in
          \<open>auto simp: stored_answer_def stored_row_def opened_at_def opened_def rows_def quiet_def\<close>)
    have avail: "triple (\<lambda>s. opened_at ?d ?h ?T (ap_world s)) (with_availability [g])
        (\<lambda>items s. opened_at ?d ?h ?T (ap_world s) \<and> items = map (file_view ?d) [g]) ?E"
      by (rule triple_conseq [OF with_availability_triple]) (use same in auto)
    show "triple (\<lambda>s. opened_at ?d ?h ?T (ap_world s) \<and> fresh = get_file (f_id g) ?d)
        (case fresh of None \<Rightarrow> raise InvalidRequestError
         | Some f \<Rightarrow> bnd (with_availability [f]) (\<lambda>out. answer 201 (OneFile (hd out)))) ?Q ?E"
      unfolding get by (rule triple_fact) (simp, rule triple_bnd [OF avail], rule out)
  qed
  from tripleD [OF this op] show "case uploaded_answer g s of (Inl e, t) \<Rightarrow> ?E e t | (Inr p, t) \<Rightarrow> ?Q p t" .
qed

lemma upload_body_triple:
  assumes d: "constraints_ok (w_db w0)" and u: "key_user (e_ucd E) a (w_db w0) = Inr u"
  shows "triple (\<lambda>s. opened_at (w_db w0) (held w0) T (ap_world s)) (upload_body E fl u ip form)
    (\<lambda>p s. \<exists>name ct data. form = Some (name, ct, data) \<and> stored_answer E a data (w_db w0) w0 p (ap_world s))
    (\<lambda>_ s. orderly w0 (ap_world s))"
proof -
  let ?P = "\<lambda>s. opened_at (w_db w0) (held w0) T (ap_world s)" and ?E = "\<lambda>_ s. orderly w0 (ap_world s)"
    and ?Q = "\<lambda>p s. \<exists>name ct data. form = Some (name, ct, data) \<and> stored_answer E a data (w_db w0) w0 p (ap_world s)"
  have weak: "opened_at (w_db w0) (held w0) T w \<Longrightarrow> orderly w0 w" for w
    using quiet_orderly opened_at_quiet d by blast
  have limit: "triple ?P (enforce_api_limit fl (user_key u)) (\<lambda>_. ?P) ?E"
    by (rule triple_conseq [OF enforce_api_at]) (use quiet_orderly d in auto)
  have raise: "triple ?P (raise e) ?Q ?E" for e by (rule triple_raise) (simp add: weak)
  show ?thesis
  proof (cases form)
    case None
    show ?thesis
      unfolding upload_body_def by (rule triple_bnd [OF limit]) (use raise None in simp)
  next
    case (Some x)
    obtain name ct content where x: "x = (name, ct, content)" by (metis prod.exhaust)
    let ?data = "take (nat (max_upload_bytes (e_settings E) + 1)) content"
    have "triple ?P (if int (length ?data) > max_upload_bytes (e_settings E) then raise (HTTPException 413 [])
        else if ?data = [] then raise (HTTPException 400 [])
        else bnd (store_upload E u name ct ?data ip) uploaded_answer) ?Q ?E"
    proof (rule triple_if [OF raise], rule triple_if [OF raise])
      assume short: "\<not> max_upload_bytes (e_settings E) < int (length ?data)"
      then have data: "?data = content" by auto
      have view: "triple (\<lambda>s. stored_row u content w0 g (ap_world s)) (uploaded_answer g) ?Q ?E" for g
        by (rule triple_conseq [OF uploaded_answer_triple [OF _ u]]) (use short data Some x in auto)
      show "triple ?P (bnd (store_upload E u name ct ?data ip) uploaded_answer) ?Q ?E"
        unfolding data by (rule triple_bnd [OF store_upload_triple [OF d]], rule view)
    qed
    then show ?thesis
      unfolding upload_body_def by (intro triple_bnd [OF limit]) (simp add: Some x Let_def)
  qed
qed

text \<open>A failed upload: nothing happened, or the user was authenticated and the rows are in order.\<close>

definition upload_failed :: "env \<Rightarrow> pystr option \<Rightarrow> world \<Rightarrow> world \<Rightarrow> bool" where
  "upload_failed E a w0 w \<longleftrightarrow> quiet (w_db w0) (held w0) w \<or>
     (\<exists>u. key_user (e_ucd E) a (w_db w0) = Inr u) \<and> orderly w0 w"

lemma post_files_triple:
  assumes d: "constraints_ok (w_db w0)"
  shows "triple (\<lambda>s. quiet (w_db w0) (held w0) (ap_world s) \<and> w_now (ap_world s) = T) (post_files E fl a ip form)
    (\<lambda>p s. \<exists>name ct data. form = Some (name, ct, data) \<and> stored_answer E a data (w_db w0) w0 p (ap_world s))
    (\<lambda>_ s. upload_failed E a w0 (ap_world s))"
  unfolding post_files_def
  by (rule transfer_slot_triple, rule authed_triple, rule triple_conseq [OF upload_body_triple [OF d]])
    (auto simp: upload_failed_def stored_answer_def)

end
