(* ===== verification/Owners.thy ===== *)
theory Owners
  imports Endpoints
begin

text \<open>
  What the API guarantees to the owners of files: requests without a valid key do nothing, answers describe the
  caller's own files only, and no request of anyone touches a file but its owner's DELETE.
\<close>

section \<open>What a request may touch\<close>

fun header_of :: "api_request \<Rightarrow> pystr option option" where
  "header_of Healthz = None"
| "header_of (PostFiles a ip form) = Some a"
| "header_of (GetFiles a limit offset) = Some a"
| "header_of (GetFile a i) = Some a"
| "header_of (CreateLink a ip i ttl) = Some a"
| "header_of (DeleteFile a ip i) = Some a"
| "header_of (Download ip i xp v kid sig) = None"

text \<open>The files a request may delete: the owned, available file a DELETE with a valid key names.\<close>

fun deletes :: "env \<Rightarrow> api_request \<Rightarrow> db \<Rightarrow> uuid set" where
  "deletes E (DeleteFile a ip i) d =
     (case key_user (e_ucd E) a d of Inl e \<Rightarrow> {}
      | Inr u \<Rightarrow> (case find (owned u i) (files d) of None \<Rightarrow> {} | Some f \<Rightarrow> {i}))"
| "deletes E _ d = {}"

lemma quiet_sparing: "constraints_ok d \<Longrightarrow> quiet d h w \<Longrightarrow> sparing S d h w"
  using spared_more [of d h h] by (simp add: quiet_def sparing_def)

text \<open>Rows that agree on shards and nodes have the same intact shards.\<close>

lemma placed_same: "shards d1 = shards d \<Longrightarrow> nodes d1 = nodes d \<Longrightarrow> placed_shards i d1 = placed_shards i d"
proof -
  assume "shards d1 = shards d" and nodes: "nodes d1 = nodes d"
  moreover have "join_node d1 = join_node d" by (rule ext) (simp add: join_node_def nodes)
  ultimately show ?thesis by (simp add: placed_shards_def)
qed

lemma spared_from:
  assumes "spared S d1 h d' h'" and "shards d1 = shards d" and "nodes d1 = nodes d" and "users d1 = users d"
    and "\<exists>as. map a_id (audits d1) = map a_id (audits d) @ as"
    and "\<And>f. f \<in> set (files d) \<Longrightarrow> f_id f \<in> S \<Longrightarrow> f \<in> set (files d1)"
  shows "spared S d h d' h'"
proof -
  have "intact d1 h i j c = intact d h i j c" for i j c
    using placed_same [OF assms(2,3)] by (simp add: intact_def)
  moreover have "spread d1 i = spread d i" for i by (simp add: spread_def assms(2))
  moreover have "\<exists>as. map a_id (audits d') = map a_id (audits d) @ as"
    using assms(1,5) unfolding spared_def by (metis append_assoc)
  moreover have "laid S d d'"
    using laid_trans [of S d d1 S d'] assms(1,2,6) by (simp add: spared_def)
  ultimately show ?thesis using assms(1,4,6) unfolding spared_def by simp
qed

lemma noted_sparing:
  assumes "noted R d h w"
  shows "sparing S d h w"
proof -
  obtain a where a: "w_db w = add_audit a d" "constraints_ok (w_db w)" "fleet_ok w" "held w = h"
    using assms by (auto simp: noted_def)
  have "spared S (add_audit a d) h (add_audit a d) h" using spared_more a by metis
  then have "spared S d h (add_audit a d) h" by (rule spared_from) (simp_all add: add_audit_def)
  then show ?thesis using a by (simp add: sparing_def)
qed

lemma orderly_sparing:
  assumes d: "constraints_ok (w_db w0)" and o: "orderly w0 w"
  shows "sparing S (w_db w0) (held w0) w"
proof -
  let ?d = "w_db w0"
  obtain fs ss as where db: "w_db w = ?d\<lparr>files := files ?d @ fs, shards := shards ?d @ ss, audits := audits ?d @ as\<rparr>"
    and of_new: "s_file_id ` set ss \<subseteq> f_id ` set fs" and dist: "distinct (map s_node_id ss)"
    using o by (auto simp: orderly_def rows_added_def)
  have ok: "constraints_ok (w_db w)" "fleet_ok w" "kept_ids w0 w" using o by (simp_all add: orderly_def)
  have "intact (w_db w) (held w) i j c" if "intact ?d (held w0) i j c" for i j c
    using that
  proof (rule intactE)
    fix s n x
    assume p: "(s, n) \<in> set (placed_shards i ?d)" "s_shard_index s = j" "s_checksum_sha256 s = c"
      "held w0 (n_address n) (s_id s) = Some (shard_file x)" "sha256_hex x = c"
    have "(s, n) \<in> set (placed_shards i (w_db w))" using p(1) by (simp add: placed_shards_iff db)
    moreover have "held w (n_address n) (s_id s) = held w0 (n_address n) (s_id s)"
      using ok(3) p(1) by (simp add: kept_ids_def placed_shards_iff)
    ultimately show "intact (w_db w) (held w) i j c" using p by (intro intactI [of s n i _ j c _ x]) simp_all
  qed
  moreover have "spread (w_db w) i" if sp: "spread ?d i" for i
    unfolding spread_def
  proof (intro ballI impI)
    fix s s'
    assume s: "s \<in> set (shards (w_db w))" "s' \<in> set (shards (w_db w))"
      "s_file_id s = i \<and> s_file_id s' = i \<and> s_node_id s = s_node_id s'"
    have new: "i \<notin> f_id ` set (files ?d)" if "i \<in> f_id ` set fs"
      using constraints_okD(2) [OF ok(1)] that by (auto simp: keys_unique_def db)
    have old: "s_file_id r \<in> f_id ` set (files ?d)" if "r \<in> set (shards ?d)" for r
      using references_okD(2) [OF constraints_okD(3) [OF d] that] .
    show "s = s'"
    proof (cases "i \<in> f_id ` set fs")
      case True
      have "r \<notin> set (shards ?d)" if "s_file_id r = i" for r using old new [OF True] that by blast
      then have "s \<in> set ss" "s' \<in> set ss" using s by (auto simp: db)
      then show ?thesis using dist s(3) by (metis distinct_map inj_onD)
    next
      case False
      then have "r \<notin> set ss" if "s_file_id r = i" for r using of_new that by blast
      then have "s \<in> set (shards ?d)" "s' \<in> set (shards ?d)" using s by (auto simp: db)
      then show ?thesis using sp s(3) unfolding spread_def by blast
    qed
  qed
  moreover have "laid S ?d (w_db w)"
    unfolding laid_def
  proof (intro ballI impI)
    fix s
    assume s: "s \<in> set (shards (w_db w))" "s_file_id s \<in> S \<inter> f_id ` set (files ?d)"
    have "s \<notin> set ss"
    proof
      assume "s \<in> set ss"
      then have "s_file_id s \<in> f_id ` set fs" using of_new by blast
      then show False using s(2) constraints_okD(2) [OF ok(1)] by (auto simp: keys_unique_def db)
    qed
    then show "shard_key s \<in> shard_key ` set (shards ?d)" using s(1) by (simp add: db)
  qed
  ultimately show ?thesis using ok by (simp add: sparing_def spared_def db)
qed

lemma deletion_sparing:
  assumes d: "constraints_ok d" and del: "deletion d f T actor ip h w"
  shows "sparing (- {f_id f}) d h w"
proof -
  obtain a where a: "removal (db_deleted f T a d) (f_id f) h w" using del by (auto simp: deletion_def)
  let ?d = "db_deleted f T a d"
  have tables: "shards ?d = shards d" "nodes ?d = nodes d" "users ?d = users d" "audits ?d = audits d @ [a]"
    "files ?d = map (\<lambda>g. if f_id g = f_id f then marked_deleted f T else g) (files d)"
    by (simp_all add: db_deleted_def add_audit_def set_file_def)
  have "spared (- {f_id f}) ?d h (w_db w) (held w)"
    by (rule spared_removal) (use keys_inj(6) [OF d] a tables in \<open>simp_all add: removal_def\<close>)
  then have "spared (- {f_id f}) d h (w_db w) (held w)"
    by (rule spared_from) (auto simp: tables image_iff)
  then show ?thesis using a by (simp add: sparing_def removal_def)
qed

section \<open>Every request\<close>

lemma serve_end:
  assumes "triple P (route E fl q) Q Er" and "P s" and "serve E fl q s = (p, t)"
  shows "Q p t \<or> (\<exists>e. Er e t \<and> p = \<lparr>rs_status = status_of e, rs_content = Detail, rs_headers = error_headers e\<rparr>)"
  by (rule serve_cases [OF assms]) blast+

lemma quiet_here: "fleet_ok w \<Longrightarrow> quiet (w_db w) (held w) w"
  by (simp add: quiet_def)

lemma serve_owner:
  assumes f: "fleet_ok (ap_world s)" and d: "constraints_ok (w_db (ap_world s))" and run: "serve E fl q s = (p, t)"
  defines "d \<equiv> w_db (ap_world s)" and "h \<equiv> held (ap_world s)" and "T \<equiv> w_now (ap_world s)"
  shows "q = GetFile a i \<Longrightarrow> quiet d h (ap_world t) \<and> (get_one E a i d p \<or> rs_content p = Detail)"
    and "q = GetFiles a limit offset \<Longrightarrow> quiet d h (ap_world t) \<and> (get_page E a limit offset d p \<or> rs_content p = Detail)"
    and "q = CreateLink a ip i ttl \<Longrightarrow> link_made E a ip i ttl d h T p (ap_world t) \<or>
      link_failed E a ip i ttl d h (ap_world t) \<and> rs_content p = Detail"
    and "q = DeleteFile a ip i \<Longrightarrow> removed_by E a ip i d h T (ap_world t) \<and> rs_content p \<in> {NoBody, Detail} \<or>
      quiet d h (ap_world t) \<and> rs_content p = Detail"
    and "q = PostFiles a ip form \<Longrightarrow> (\<exists>name ct data. form = Some (name, ct, data) \<and> stored_answer E a data d (ap_world s) p (ap_world t)) \<or>
      upload_failed E a (ap_world s) (ap_world t) \<and> rs_content p = Detail"
proof -
  have pre: "quiet d h (ap_world s) \<and> w_now (ap_world s) = T" using f by (simp add: d_def h_def T_def quiet_here)
  have ok: "constraints_ok d" using d by (simp add: d_def)
  let ?P = "\<lambda>s. quiet d h (ap_world s) \<and> w_now (ap_world s) = T"
  note ends = serve_end [where P = ?P, OF _ pre run]
  { assume q: "q = GetFile a i"
    have "triple ?P (route E fl q) (\<lambda>p s. get_one E a i d p \<and> quiet d h (ap_world s)) (\<lambda>_ s. quiet d h (ap_world s))"
      using get_file_triple [of d h T E a i] by (simp add: q)
    from ends [OF this] show "quiet d h (ap_world t) \<and> (get_one E a i d p \<or> rs_content p = Detail)" by auto }
  { assume q: "q = GetFiles a limit offset"
    have "triple ?P (route E fl q) (\<lambda>p s. get_page E a limit offset d p \<and> quiet d h (ap_world s)) (\<lambda>_ s. quiet d h (ap_world s))"
      using get_files_triple [OF ok, of h T E a limit offset] by (simp add: q)
    from ends [OF this] show "quiet d h (ap_world t) \<and> (get_page E a limit offset d p \<or> rs_content p = Detail)" by auto }
  { assume q: "q = CreateLink a ip i ttl"
    have "triple ?P (route E fl q) (\<lambda>p s. link_made E a ip i ttl d h T p (ap_world s)) (\<lambda>_ s. link_failed E a ip i ttl d h (ap_world s))"
      using create_link_triple [of d h T E fl a ip i ttl] by (simp add: q)
    from ends [OF this] show "link_made E a ip i ttl d h T p (ap_world t) \<or>
        link_failed E a ip i ttl d h (ap_world t) \<and> rs_content p = Detail" by auto }
  { assume q: "q = DeleteFile a ip i"
    have "triple ?P (route E fl q)
        (\<lambda>p s. p = \<lparr>rs_status = 204, rs_content = NoBody, rs_headers = []\<rparr> \<and> removed_by E a ip i d h T (ap_world s))
        (\<lambda>_ s. quiet d h (ap_world s) \<or> removed_by E a ip i d h T (ap_world s))"
      using delete_endpoint_triple [OF ok, of h T E a ip i] by (simp add: q)
    from ends [OF this] show "removed_by E a ip i d h T (ap_world t) \<and> rs_content p \<in> {NoBody, Detail} \<or>
      quiet d h (ap_world t) \<and> rs_content p = Detail" by auto }
  { assume q: "q = PostFiles a ip form"
    have "triple ?P (route E fl q)
        (\<lambda>p t. \<exists>name ct data. form = Some (name, ct, data) \<and> stored_answer E a data d (ap_world s) p (ap_world t))
        (\<lambda>_ t. upload_failed E a (ap_world s) (ap_world t))"
      using post_files_triple [OF assms(2), of T E fl a ip form] by (simp add: q d_def h_def)
    from ends [OF this] show "(\<exists>name ct data. form = Some (name, ct, data) \<and> stored_answer E a data d (ap_world s) p (ap_world t)) \<or>
      upload_failed E a (ap_world s) (ap_world t) \<and> rs_content p = Detail" by auto }
qed

lemma serve_spares:
  assumes f: "fleet_ok (ap_world s)" and d: "constraints_ok (w_db (ap_world s))" and run: "serve E fl q s = (p, t)"
  shows "sparing (- deletes E q (w_db (ap_world s))) (w_db (ap_world s)) (held (ap_world s)) (ap_world t)"
proof -
  let ?d = "w_db (ap_world s)" and ?h = "held (ap_world s)"
  note o = serve_owner [OF f d run]
  note still = quiet_sparing [OF d, of ?h "ap_world t"]
  show ?thesis
  proof (cases q)
    case Healthz
    then have "t = s" using run by (simp add: serve_def answer_def ret_def)
    then show ?thesis using still quiet_here [OF f] by simp
  next
    case (PostFiles a ip form)
    from o(5) [OF this] have "quiet ?d ?h (ap_world t) \<or> orderly (ap_world s) (ap_world t)"
      by (auto simp: stored_answer_def upload_failed_def)
    then show ?thesis using still orderly_sparing [OF d] by blast
  next
    case (GetFiles a limit offset)
    from o(2) [OF this] show ?thesis using still by blast
  next
    case (GetFile a i)
    from o(1) [OF this] show ?thesis using still by blast
  next
    case (CreateLink a ip i ttl)
    from o(3) [OF this] show ?thesis using still noted_sparing unfolding link_made_def link_failed_def by blast
  next
    case (DeleteFile a ip i)
    from o(4) [OF this] consider "quiet ?d ?h (ap_world t)" | "removed_by E a ip i ?d ?h (w_now (ap_world s)) (ap_world t)"
      by blast
    then show ?thesis
    proof cases
      case 1
      then show ?thesis using still by blast
    next
      case 2
      then obtain u g where g: "key_user (e_ucd E) a ?d = Inr u" "find (owned u i) (files ?d) = Some g"
        "deletion ?d g (w_now (ap_world s)) (u_id u) ip ?h (ap_world t)"
        by (auto simp: removed_by_def)
      then have "deletes E q ?d = {f_id g}" using owned_id [OF g(2)] DeleteFile by simp
      then show ?thesis using deletion_sparing [OF d g(3)] by simp
    qed
  next
    case (Download ip i xp v kid sig)
    have "quiet ?d ?h (ap_world t) \<or> (\<exists>R. noted R ?d ?h (ap_world t))"
      using download_served [OF f run [unfolded Download]] unfolding sent_def download_raises_def refused_def by blast
    then show ?thesis using still noted_sparing by blast
  qed
qed
section \<open>Pages\<close>




section \<open>Properties\<close>

text \<open>
  C12. Without a valid API key nothing happens. A request to an owner's endpoint whose header authenticates no user (no
  header, another scheme, an unknown key) is answered with an error, and neither a row nor a shard changes.
\<close>
theorem no_key_no_access:
  assumes "fleet_ok (ap_world s)" and "constraints_ok (w_db (ap_world s))" and "serve E fl q s = (p, t)"
    and "header_of q = Some a" and "key_user (e_ucd E) a (w_db (ap_world s)) = Inl e"
  shows "rs_content p = Detail \<and> w_db (ap_world t) = w_db (ap_world s) \<and> held (ap_world t) = held (ap_world s)"
proof (cases q)
  case (PostFiles b ip form)
  with assms(4) have "b = a" by simp
  from serve_owner(5) [OF assms(1-3) PostFiles] show ?thesis
    using assms(5) \<open>b = a\<close> by (auto simp: stored_answer_def upload_failed_def quiet_def)
next
  case (GetFiles b limit offset)
  with assms(4) have "b = a" by simp
  from serve_owner(2) [OF assms(1-3) GetFiles] show ?thesis
    using assms(5) \<open>b = a\<close> by (auto simp: get_page_def quiet_def)
next
  case (GetFile b i)
  with assms(4) have "b = a" by simp
  from serve_owner(1) [OF assms(1-3) GetFile] show ?thesis
    using assms(5) \<open>b = a\<close> by (auto simp: get_one_def quiet_def)
next
  case (CreateLink b ip i ttl)
  with assms(4) have "b = a" by simp
  from serve_owner(3) [OF assms(1-3) CreateLink] show ?thesis
    using assms(5) \<open>b = a\<close> by (auto simp: link_made_def link_failed_def quiet_def)
next
  case (DeleteFile b ip i)
  with assms(4) have "b = a" by simp
  from serve_owner(4) [OF assms(1-3) DeleteFile] show ?thesis
    using assms(5) \<open>b = a\<close> by (auto simp: removed_by_def quiet_def)
qed (use assms(4) in simp_all)

theorem no_key_no_access_witness:
  "\<exists>p t. serve example_env id (DeleteFile None None 5) (example_api example_world) = (p, t) \<and>
    rs_content p = Detail \<and> w_db (ap_world t) = example_db"
proof -
  obtain p t where run: "serve example_env id (DeleteFile None None 5) (example_api example_world) = (p, t)" by fastforce
  have w: "ap_world (example_api example_world) = example_world" by (simp add: example_api_def)
  have "py_partition 32 [] = ([], False, [])" by (simp add: py_partition_def)
  then have none: "key_user (e_ucd example_env) None d = Inl (unauthorized)" for d
    by (simp add: key_user_def API_KEY_PREFIX_def py_startswith_def)
  have "rs_content p = Detail \<and> w_db (ap_world t) = w_db example_world"
    using no_key_no_access [OF _ _ run _ none] example_fleet example_constraints by (simp add: w)
  then show ?thesis using run by (auto simp: example_world_def)
qed

text \<open>
  C11. Owners see their own files only. Whatever the request: an answer that describes one file describes an available
  file of the user its key authenticates, as its row and its shards are; a page is the requested slice of
  that user's available files; a link is made for an available file of that user, and is the one the current key
  signs with the requested life time.
\<close>
theorem answers_own_files:
  assumes "fleet_ok (ap_world s)" and "constraints_ok (w_db (ap_world s))" and "serve E fl q s = (p, t)"
  shows "(\<forall>view. rs_content p = OneFile view \<longrightarrow>
      (\<exists>a u f. header_of q = Some a \<and> key_user (e_ucd E) a (w_db (ap_world s)) = Inr u \<and>
         f \<in> set (files (w_db (ap_world t))) \<and> f_owner_user_id f = u_id u \<and> f_status f = Available \<and>
         view = file_view (w_db (ap_world t)) f)) \<and>
    (\<forall>items l n. rs_content p = FileList items l n \<longrightarrow>
      (\<exists>a u. q = GetFiles a (int l) (int n) \<and> key_user (e_ucd E) a (w_db (ap_world s)) = Inr u \<and> 1 \<le> l \<and> l \<le> 100 \<and>
         items = map (file_view (w_db (ap_world s))) (page_of u (int l) (int n) (w_db (ap_world s))))) \<and>
    (\<forall>k. rs_content p = LinkMade k \<longrightarrow>
      (\<exists>a ip i ttl u f. q = CreateLink a ip i ttl \<and> key_user (e_ucd E) a (w_db (ap_world s)) = Inr u \<and>
         f \<in> set (files (w_db (ap_world s))) \<and> f_id f = i \<and> f_owner_user_id f = u_id u \<and> f_status f = Available \<and>
         ttl_ok E ttl \<and> link_for E f (w_now (ap_world s) div 1000000 + ttl) k))"
proof (cases q)
  case Healthz
  then show ?thesis using assms(3) by (auto simp: serve_def answer_def ret_def)
next
  case (PostFiles a ip form)
  from serve_owner(5) [OF assms PostFiles] show ?thesis
    using PostFiles unfolding stored_answer_def by (elim disjE exE conjE) auto
next
  case (GetFiles a limit offset)
  from serve_owner(2) [OF assms GetFiles] show ?thesis using GetFiles by (auto simp: get_page_def)
next
  case (GetFile a i)
  from serve_owner(1) [OF assms GetFile] show ?thesis
    using GetFile owned_id by (fastforce simp: get_one_def quiet_def)
next
  case (CreateLink a ip i ttl)
  from serve_owner(3) [OF assms CreateLink] show ?thesis
    using CreateLink owned_id by (fastforce simp: link_made_def)
next
  case (DeleteFile a ip i)
  from serve_owner(4) [OF assms DeleteFile] show ?thesis by auto
next
  case (Download ip i xp v kid sig)
  show ?thesis
    using download_served [OF assms(1) assms(3) [unfolded Download]] by (auto simp: sent_def)
qed

theorem answers_own_files_witness:
  "\<exists>p t. serve example_env id (GetFiles None 50 0) (example_api example_world) = (p, t) \<and>
    (\<forall>items l n. rs_content p = FileList items l n \<longrightarrow> l \<le> 100)"
proof -
  obtain p t where run: "serve example_env id (GetFiles None 50 0) (example_api example_world) = (p, t)" by fastforce
  have "fleet_ok (ap_world (example_api example_world))" "constraints_ok (w_db (ap_world (example_api example_world)))"
    using example_fleet example_constraints by (simp_all add: example_api_def)
  from answers_own_files [OF this run] run show ?thesis by blast
qed



text \<open>
  C8. Only its owner's DELETE touches a stored file. Any request, whatever fails while it is served, keeps the row of
  every file and its intact shards, except a DELETE that names the file and carries the key of its owner while
  the file is available; the constraints of the database hold afterwards, no user and no audit row goes.
\<close>
theorem only_owner_deletes:
  assumes "fleet_ok (ap_world s)" and "constraints_ok (w_db (ap_world s))" and "serve E fl q s = (p, t)"
  shows "fleet_ok (ap_world t) \<and> constraints_ok (w_db (ap_world t)) \<and>
    users (w_db (ap_world t)) = users (w_db (ap_world s)) \<and>
    (\<exists>as. map a_id (audits (w_db (ap_world t))) = map a_id (audits (w_db (ap_world s))) @ as) \<and>
    (\<forall>f \<in> set (files (w_db (ap_world s))).
       (f \<in> set (files (w_db (ap_world t))) \<and>
        (\<forall>j c. intact (w_db (ap_world s)) (held (ap_world s)) (f_id f) j c \<longrightarrow>
           intact (w_db (ap_world t)) (held (ap_world t)) (f_id f) j c)) \<or>
       (\<exists>a ip u. q = DeleteFile a ip (f_id f) \<and> key_user (e_ucd E) a (w_db (ap_world s)) = Inr u \<and>
          f_owner_user_id f = u_id u \<and> f_status f = Available))"
proof -
  let ?d = "w_db (ap_world s)" and ?h = "held (ap_world s)"
  note sp = serve_spares [OF assms, unfolded sparing_def spared_def]
  have "\<exists>a ip u. q = DeleteFile a ip (f_id f) \<and> key_user (e_ucd E) a ?d = Inr u \<and>
      f_owner_user_id f = u_id u \<and> f_status f = Available"
    if f: "f \<in> set (files ?d)" and del: "f_id f \<in> deletes E q ?d" for f
  proof -
    obtain a ip u g where q: "q = DeleteFile a ip (f_id f)" "key_user (e_ucd E) a ?d = Inr u"
      "find (owned u (f_id f)) (files ?d) = Some g"
      using del by (cases "(E, q, ?d)" rule: deletes.cases) (auto split: sum.splits option.splits)
    have "g = f" using owned_id [OF q(3)] f inj_onD [OF keys_inj(3) [OF assms(2)]] by blast
    then show ?thesis using q owned_id [OF q(3)] by blast
  qed
  then show ?thesis using sp by (metis ComplI)
qed

lemma gone_constraints: "constraints_ok (w_db (ap_world (example_api gone_world)))"
  using example_constraints
  by (simp add: example_api_def gone_world_def constraints_ok_def row_types_ok_def keys_unique_def references_ok_def
      file_ok_def text_ok_def encodable_def example_world_def gone_file_def new_file_def example_db_def empty_db_def
      example_owner_def)

theorem only_owner_deletes_witness:
  "\<exists>p t. serve example_env id (DeleteFile None None 5) (example_api gone_world) = (p, t) \<and>
    gone_file \<in> set (files (w_db (ap_world t)))"
proof -
  obtain p t where run: "serve example_env id (DeleteFile None None 5) (example_api gone_world) = (p, t)" by fastforce
  have "gone_file \<in> set (files (w_db (ap_world (example_api gone_world))))" "f_status gone_file = Deleted"
    using get_file_Some [OF gone_get] by (simp_all add: gone_file_def)
  then have "gone_file \<in> set (files (w_db (ap_world t)))"
    using only_owner_deletes [OF gone_fleet gone_constraints run] by (metis file_status.distinct(5))
  with run show ?thesis by blast
qed

end
