(* ===== verification/Middleware.thy ===== *)
theory Middleware
  imports Query Owners
begin

text \<open>
  \<open>middleware.py\<close> and the stack \<open>create_app\<close> builds in \<open>main.py\<close>. An ASGI application is what it does with the two
  callables it is given: receive a message (or see an exception instead), send one, raise, return. The application
  itself (FastAPI, its body parsers, the handlers) is any such tree, so the theorems hold for all of them. The
  state of the callables is a type parameter, because each layer wraps the one below.
\<close>

section \<open>Applications\<close>

datatype asgi_exn = BodyTooLargeError | AppError

datatype asgi_in = Http_request bytes | Http_disconnect

datatype asgi_out = Response_start nat "(pystr \<times> pystr) list" | Response_body bytes

datatype app = Receive "asgi_exn + asgi_in \<Rightarrow> app" | Send asgi_out app | Raise asgi_exn | Return

type_synonym 's receive = "'s \<Rightarrow> (asgi_exn + asgi_in) \<times> 's"
type_synonym 's send = "asgi_out \<Rightarrow> 's \<Rightarrow> 's"

text \<open>A run: the messages the application got, the exception that left it, and the state after it.\<close>

primrec run_app :: "app \<Rightarrow> 's receive \<Rightarrow> 's send \<Rightarrow> 's \<Rightarrow> asgi_in list \<times> asgi_exn option \<times> 's" where
  "run_app (Receive k) receive send s =
     (case receive s of (r, s') \<Rightarrow>
        (case run_app (k r) receive send s' of (seen, e, t) \<Rightarrow>
           ((case r of Inl _ \<Rightarrow> seen | Inr m \<Rightarrow> m # seen), e, t)))"
| "run_app (Send m a) receive send s = run_app a receive send (send m s)"
| "run_app (Raise e) receive send s = ([], Some e, s)"
| "run_app Return receive send s = ([], None, s)"

text \<open>The server: messages to come, then disconnects; and what was sent.\<close>

record server =
  sv_in :: "asgi_in list"
  sv_out :: "asgi_out list"

definition server_receive :: "server receive" where
  "server_receive s =
     (case sv_in s of [] \<Rightarrow> (Inr Http_disconnect, s) | m # ms \<Rightarrow> (Inr m, s\<lparr>sv_in := ms\<rparr>))"

definition server_send :: "server send" where
  "server_send m s = s\<lparr>sv_out := sv_out s @ [m]\<rparr>"

record scope =
  sc_http :: bool
  sc_method :: pystr
  sc_path :: pystr
  sc_query :: bytes
  sc_headers :: "(pystr \<times> pystr) list"
  sc_client :: "pystr option"

section \<open>The cap on bodies\<close>

record 's limited =
  ls_inner :: 's
  ls_received :: nat
  ls_started :: bool

definition limited_receive :: "int \<Rightarrow> 's receive \<Rightarrow> 's limited receive" where
  "limited_receive limit receive s =
     (case receive (ls_inner s) of
        (Inl e, v) \<Rightarrow> (Inl e, s\<lparr>ls_inner := v\<rparr>)
      | (Inr m, v) \<Rightarrow>
          (case m of
             Http_request body \<Rightarrow>
               (let received = ls_received s + length body; s' = s\<lparr>ls_inner := v, ls_received := received\<rparr>
                in if int received > limit then (Inl BodyTooLargeError, s') else (Inr m, s'))
           | _ \<Rightarrow> (Inr m, s\<lparr>ls_inner := v\<rparr>)))"

definition tracking_send :: "'s send \<Rightarrow> 's limited send" where
  "tracking_send send m s =
     (let s' = (case m of Response_start _ _ \<Rightarrow> s\<lparr>ls_started := True\<rparr> | _ \<Rightarrow> s)
      in s'\<lparr>ls_inner := send m (ls_inner s')\<rparr>)"

definition BODY_413 :: bytes where
  "BODY_413 = utf8 ([123, 34] @ ustr ''detail'' @ [34, 58, 32, 34] @ ustr ''request body too large'' @ [34, 125])"

definition send_413 :: "'s send \<Rightarrow> 's \<Rightarrow> 's" where
  "send_413 send s =
     send (Response_body BODY_413)
       (send (Response_start 413
          [(ustr ''content-type'', ustr ''application/json''), (ustr ''content-length'', dec_nat (length BODY_413))]) s)"

text \<open>The constructor's arguments and the scope give the limit.\<close>

definition body_limit :: "int \<Rightarrow> ((pystr \<times> pystr) \<times> int) list \<Rightarrow> scope \<Rightarrow> int" where
  "body_limit default_max overrides sc =
     (case map_of overrides (sc_method sc, sc_path sc) of None \<Rightarrow> default_max | Some n \<Rightarrow> n)"

definition declared_length :: "scope \<Rightarrow> pystr" where
  "declared_length sc = (case map_of (rev (sc_headers sc)) (ustr ''content-length'') of None \<Rightarrow> [] | Some v \<Rightarrow> v)"

definition limited_run ::
  "int \<Rightarrow> app \<Rightarrow> 's receive \<Rightarrow> 's send \<Rightarrow> 's \<Rightarrow> asgi_in list \<times> asgi_exn option \<times> 's" where
  "limited_run limit a receive send s =
     (case run_app a (limited_receive limit receive) (tracking_send send)
             \<lparr>ls_inner = s, ls_received = 0, ls_started = False\<rparr> of
        (seen, e, t) \<Rightarrow>
          if e = Some BodyTooLargeError
          then (seen, None, if ls_started t then ls_inner t else send_413 send (ls_inner t))
          else (seen, e, ls_inner t))"

definition body_size_limit ::
  "int \<Rightarrow> ((pystr \<times> pystr) \<times> int) list \<Rightarrow> scope \<Rightarrow> app \<Rightarrow> 's receive \<Rightarrow> 's send \<Rightarrow> 's
    \<Rightarrow> asgi_in list \<times> asgi_exn option \<times> 's" where
  "body_size_limit default_max overrides sc a receive send s =
     (if \<not> sc_http sc then run_app a receive send s
      else
        (let limit = body_limit default_max overrides sc; declared = declared_length sc
         in if declared \<noteq> [] \<and> list_all is_digit declared
            then (case int_of_digits declared of
                    None \<Rightarrow> ([], Some AppError, s)
                  | Some n \<Rightarrow> if n > limit then ([], None, send_413 send s) else limited_run limit a receive send s)
            else limited_run limit a receive send s))"

section \<open>The access log\<close>

record log_entry =
  le_method :: pystr
  le_path :: pystr
  le_query :: "pystr option"
  le_status :: nat
  le_client :: "pystr option"

record 's logged =
  lg_inner :: 's
  lg_status :: nat

definition inner_receive :: "'s receive \<Rightarrow> 's logged receive" where
  "inner_receive receive s = (case receive (lg_inner s) of (r, v) \<Rightarrow> (r, s\<lparr>lg_inner := v\<rparr>))"

definition capture_send :: "'s send \<Rightarrow> 's logged send" where
  "capture_send send m s =
     (let s' = (case m of Response_start n _ \<Rightarrow> s\<lparr>lg_status := n\<rparr> | _ \<Rightarrow> s)
      in s'\<lparr>lg_inner := send m (lg_inner s')\<rparr>)"

text \<open>The log around the cap, as the stack has them. Durations are left out.\<close>

definition access_log ::
  "int \<Rightarrow> ((pystr \<times> pystr) \<times> int) list \<Rightarrow> scope \<Rightarrow> app \<Rightarrow> 's receive \<Rightarrow> 's send \<Rightarrow> 's
    \<Rightarrow> (asgi_in list \<times> asgi_exn option \<times> 's) \<times> log_entry option" where
  "access_log default_max overrides sc a receive send s =
     (if \<not> sc_http sc then (body_size_limit default_max overrides sc a receive send s, None)
      else
        (case body_size_limit default_max overrides sc a (inner_receive receive) (capture_send send)
                \<lparr>lg_inner = s, lg_status = 500\<rparr> of
           (seen, e, t) \<Rightarrow>
             ((seen, e, lg_inner t),
              Some \<lparr>le_method = sc_method sc, le_path = sc_path sc, le_query = redact_query (latin1 (sc_query sc)),
                    le_status = lg_status t, le_client = sc_client sc\<rparr>)))"

section \<open>The stack\<close>

definition MULTIPART_OVERHEAD_BYTES :: int where
  "MULTIPART_OVERHEAD_BYTES = 64 * 1024"

definition DEFAULT_BODY_LIMIT_BYTES :: int where
  "DEFAULT_BODY_LIMIT_BYTES = 64 * 1024"

definition body_overrides :: "settings \<Rightarrow> ((pystr \<times> pystr) \<times> int) list" where
  "body_overrides st = [((ustr ''POST'', ustr ''/files''), max_upload_bytes st + MULTIPART_OVERHEAD_BYTES)]"

definition app_stack :: "settings \<Rightarrow> scope \<Rightarrow> app \<Rightarrow> server \<Rightarrow> (asgi_in list \<times> asgi_exn option \<times> server) \<times> log_entry option" where
  "app_stack st sc a s = access_log DEFAULT_BODY_LIMIT_BYTES (body_overrides st) sc a server_receive server_send s"

text \<open>The \<open>nosniff\<close> middleware on the answers of the handlers. It runs around the handlers of exceptions the
  application registers; any other exception passes it, and the server answers 500.\<close>

definition nosniff :: "api_resp \<Rightarrow> api_resp" where
  "nosniff p =
     (if ustr ''X-Content-Type-Options'' \<in> fst ` set (rs_headers p) then p
      else p\<lparr>rs_headers := rs_headers p @ [(ustr ''X-Content-Type-Options'', ustr ''nosniff'')]\<rparr>)"

fun handled :: "exn \<Rightarrow> bool" where
  "handled (HTTPException n hs) = True"
| "handled OperationalError = True"
| "handled _ = False"

definition respond :: "env \<Rightarrow> (rat \<Rightarrow> rat) \<Rightarrow> api_request \<Rightarrow> api \<Rightarrow> api_resp \<times> api" where
  "respond E fl q s =
     (case route E fl q s of
        (Inr p, t) \<Rightarrow> (nosniff p, t)
      | (Inl e, t) \<Rightarrow>
          (let p = \<lparr>rs_status = status_of e, rs_content = Detail, rs_headers = error_headers e\<rparr>
           in (if handled e then nosniff p else p, t)))"

lemma respond_serve:
  "respond E fl q s = (p, t) \<Longrightarrow> \<exists>p'. serve E fl q s = (p', t) \<and> rs_status p' = rs_status p \<and> rs_content p' = rs_content p"
  by (auto simp: respond_def serve_def nosniff_def Let_def split: sum.splits prod.splits if_splits)

section \<open>Bodies\<close>

fun body_bytes :: "asgi_in \<Rightarrow> nat" where
  "body_bytes (Http_request b) = length b"
| "body_bytes Http_disconnect = 0"

definition total :: "asgi_in list \<Rightarrow> nat" where
  "total ms = sum_list (map body_bytes ms)"

lemma total_simps [simp]: "total [] = 0" "total (m # ms) = body_bytes m + total ms"
  by (simp_all add: total_def)

lemma run_limited:
  assumes "run_app a (limited_receive limit receive) send s = (seen, e, t)"
    and "\<And>m s. ls_received (send m s) = ls_received s"
  shows "int (ls_received s + total seen) \<le> max limit (int (ls_received s))"
  using assms(1)
proof (induction a arbitrary: s seen)
  case (Receive k)
  obtain r s' where r: "limited_receive limit receive s = (r, s')" by fastforce
  obtain more where more: "run_app (k r) (limited_receive limit receive) send s' = (more, e, t)"
    "seen = (case r of Inl _ \<Rightarrow> more | Inr m \<Rightarrow> m # more)"
    using Receive.prems r by (auto split: prod.splits)
  have "int (ls_received s' + total more) \<le> max limit (int (ls_received s'))"
    using Receive.IH [OF rangeI more(1)] .
  then show ?case
    using r more(2) by (auto simp: limited_receive_def Let_def split: prod.splits sum.splits asgi_in.splits if_splits)
next
  case (Send m a)
  then show ?case using assms(2) by (metis run_app.simps(2))
qed simp_all

lemma tracking_received [simp]: "ls_received (tracking_send send m s) = ls_received s"
  by (simp add: tracking_send_def Let_def split: asgi_out.split)

lemma limited_run_cap:
  assumes "limited_run limit a receive send s = (seen, e, t)" and "0 \<le> limit"
  shows "int (total seen) \<le> limit \<and> e \<noteq> Some BodyTooLargeError"
proof -
  obtain e' t' where "run_app a (limited_receive limit receive) (tracking_send send)
      \<lparr>ls_inner = s, ls_received = 0, ls_started = False\<rparr> = (seen, e', t')"
    using assms(1) by (auto simp: limited_run_def split: prod.splits if_splits)
  from run_limited [OF this] assms show ?thesis
    by (auto simp: limited_run_def split: prod.splits if_splits)
qed

text \<open>A layer that agrees with another one through a projection, as long as \<open>I\<close> holds, runs the application the same way.\<close>

lemma run_sim:
  assumes receive: "\<And>s. I s \<Longrightarrow> receive2 (f s) = (fst (receive1 s), f (snd (receive1 s))) \<and> I (snd (receive1 s))"
    and send: "\<And>s m. I s \<Longrightarrow> send2 m (f s) = f (send1 m s) \<and> I (send1 m s)"
    and "I s" and "run_app a receive1 send1 s = (seen, e, t)"
  shows "run_app a receive2 send2 (f s) = (seen, e, f t) \<and> I t"
  using assms(3,4)
proof (induction a arbitrary: s seen)
  case (Receive k)
  obtain r s' where r: "receive1 s = (r, s')" by fastforce
  then have "receive2 (f s) = (r, f s')" "I s'" using receive [OF Receive.prems(1)] by auto
  then show ?case using r Receive.IH [OF rangeI] Receive.prems(2) by (auto split: prod.splits)
next
  case (Send m a)
  then show ?case using Send.IH [of "send1 m s"] send [OF Send.prems(1)] by simp
qed auto

lemma run_keeps:
  assumes "\<And>s. I s \<Longrightarrow> I (snd (receive s))" and "\<And>s m. I s \<Longrightarrow> I (send m s)" and "I s"
    and "run_app a receive send s = (seen, e, t)"
  shows "I t"
  using run_sim [where I = I and f = id and ?receive1.0 = receive and ?receive2.0 = receive and ?send1.0 = send and
      ?send2.0 = send, of s a seen e t] assms by simp

text \<open>Below the limit the cap only passes on.\<close>

lemma limited_run_below:
  assumes "int (total (sv_in s)) \<le> limit" and "fst (snd (run_app a server_receive server_send s)) \<noteq> Some BodyTooLargeError"
  shows "limited_run limit a server_receive server_send s = run_app a server_receive server_send s"
proof -
  let ?I = "\<lambda>s. int (ls_received s + total (sv_in (ls_inner s))) \<le> limit"
  let ?s = "\<lparr>ls_inner = s, ls_received = 0, ls_started = False\<rparr>"
  obtain seen e t where run: "run_app a (limited_receive limit server_receive) (tracking_send server_send) ?s = (seen, e, t)"
    by (metis prod.exhaust)
  have "run_app a server_receive server_send (ls_inner ?s) = (seen, e, ls_inner t) \<and> ?I t"
  proof (rule run_sim [where I = ?I, OF _ _ _ run])
    show "server_receive (ls_inner s) = (fst (limited_receive limit server_receive s), ls_inner (snd (limited_receive limit server_receive s))) \<and>
        ?I (snd (limited_receive limit server_receive s))" if "?I s" for s
      using that by (auto simp: limited_receive_def server_receive_def Let_def split: list.splits asgi_in.splits)
    show "server_send m (ls_inner s) = ls_inner (tracking_send server_send m s) \<and> ?I (tracking_send server_send m s)" if "?I s" for s m
      using that by (simp add: tracking_send_def server_send_def Let_def split: asgi_out.split)
  qed (use assms in simp)
  then show ?thesis using run assms(2) by (auto simp: limited_run_def)
qed

section \<open>The log\<close>

text \<open>The log sees the cap run as it would without the log.\<close>

definition unlogged :: "'s logged limited \<Rightarrow> 's limited" where
  "unlogged s = \<lparr>ls_inner = lg_inner (ls_inner s), ls_received = ls_received s, ls_started = ls_started s\<rparr>"

lemma limited_run_logged:
  assumes "limited_run limit a (inner_receive receive) (capture_send send) s = (seen, e, t)"
  shows "limited_run limit a receive send (lg_inner s) = (seen, e, lg_inner t)"
proof -
  let ?s = "\<lparr>ls_inner = s, ls_received = 0, ls_started = False\<rparr>"
  obtain e' t' where run: "run_app a (limited_receive limit (inner_receive receive)) (tracking_send (capture_send send)) ?s = (seen, e', t')"
    using assms by (auto simp: limited_run_def split: prod.splits if_splits)
  have "run_app a (limited_receive limit receive) (tracking_send send) (unlogged ?s) = (seen, e', unlogged t') \<and> True"
  proof (rule run_sim [OF _ _ _ run])
    show "limited_receive limit receive (unlogged s) =
        (fst (limited_receive limit (inner_receive receive) s), unlogged (snd (limited_receive limit (inner_receive receive) s))) \<and> True" for s
      by (auto simp: limited_receive_def inner_receive_def unlogged_def Let_def split: prod.splits sum.splits asgi_in.splits)
    show "tracking_send send m (unlogged s) = unlogged (tracking_send (capture_send send) m s) \<and> True" for s m
      by (simp add: tracking_send_def capture_send_def unlogged_def Let_def split: asgi_out.split)
  qed simp
  moreover have "lg_inner (send_413 (capture_send send) v) = send_413 send (lg_inner v)" for v
    by (simp add: send_413_def capture_send_def Let_def)
  ultimately show ?thesis using assms run by (auto simp: limited_run_def unlogged_def split: if_splits)
qed

text \<open>The status of what was sent.\<close>

definition sent_status :: "asgi_out list \<Rightarrow> nat" where
  "sent_status out = foldl (\<lambda>n m. case m of Response_start k hs \<Rightarrow> k | Response_body b \<Rightarrow> n) 500 out"

definition status_true :: "server logged \<Rightarrow> bool" where
  "status_true s \<longleftrightarrow> lg_status s = sent_status (sv_out (lg_inner s))"

lemma status_true_steps:
  "status_true s \<Longrightarrow> status_true (snd (inner_receive server_receive s))"
  "status_true s \<Longrightarrow> status_true (capture_send server_send m s)"
  by (auto simp: status_true_def inner_receive_def server_receive_def capture_send_def server_send_def sent_status_def Let_def
      split: list.split asgi_out.split)

lemma limited_run_status:
  assumes "limited_run limit a (inner_receive server_receive) (capture_send server_send) s = (seen, e, t)" and "status_true s"
  shows "status_true t"
proof -
  let ?s = "\<lparr>ls_inner = s, ls_received = 0, ls_started = False\<rparr>"
  obtain e' t' where run: "run_app a (limited_receive limit (inner_receive server_receive)) (tracking_send (capture_send server_send)) ?s = (seen, e', t')"
    using assms by (auto simp: limited_run_def split: prod.splits if_splits)
  have "status_true (ls_inner t')"
  proof (rule run_keeps [where I = "\<lambda>s. status_true (ls_inner s)", OF _ _ _ run])
    show "status_true (ls_inner (snd (limited_receive limit (inner_receive server_receive) s)))" if "status_true (ls_inner s)" for s
      using status_true_steps(1) [OF that]
      by (auto simp: limited_receive_def Let_def split: prod.splits sum.splits asgi_in.splits)
    show "status_true (ls_inner (tracking_send (capture_send server_send) m s))" if "status_true (ls_inner s)" for s m
      using status_true_steps(2) [OF that] by (simp add: tracking_send_def Let_def split: asgi_out.split)
  qed (use assms in simp)
  moreover have "status_true (send_413 (capture_send server_send) v)" if "status_true v" for v
    unfolding send_413_def by (intro status_true_steps that)
  ultimately show ?thesis using assms(1) run by (auto simp: limited_run_def split: if_splits)
qed

lemma limit_nonneg: "0 \<le> max_upload_bytes st \<Longrightarrow> 0 \<le> body_limit DEFAULT_BODY_LIMIT_BYTES (body_overrides st) sc"
  by (auto simp: body_limit_def body_overrides_def DEFAULT_BODY_LIMIT_BYTES_def MULTIPART_OVERHEAD_BYTES_def)

lemma stack_unlogged:
  assumes "app_stack st sc a s = (x, l)"
  shows "body_size_limit DEFAULT_BODY_LIMIT_BYTES (body_overrides st) sc a server_receive server_send s = x"
proof (cases "sc_http sc")
  case True
  let ?s = "\<lparr>lg_inner = s, lg_status = 500\<rparr>"
  obtain seen e t where run: "body_size_limit DEFAULT_BODY_LIMIT_BYTES (body_overrides st) sc a (inner_receive server_receive)
      (capture_send server_send) ?s = (seen, e, t)" "x = (seen, e, lg_inner t)"
    using assms True by (auto simp: app_stack_def access_log_def split: prod.splits)
  have "lg_inner (send_413 (capture_send server_send) ?s) = send_413 server_send s"
    by (simp add: send_413_def capture_send_def Let_def)
  then show ?thesis
    using run limited_run_logged [where s = ?s and receive = server_receive and send = server_send and a = a]
    by (auto simp: body_size_limit_def Let_def True split: if_splits option.splits)
qed (use assms in \<open>simp add: app_stack_def access_log_def\<close>)

section \<open>Properties\<close>

text \<open>
  C21. The cap on request bodies. Whatever the application does with its messages: the body bytes it gets of one request are
  at most the limit (64 KiB, or the configured upload size and 64 KiB for \<open>POST /files\<close>), whatever
  \<open>Content-Length\<close> says; a declared length above the limit is answered with 413 before the application runs; the
  error of the cap never leaves it; and a request within the limit runs exactly as without the cap.
\<close>
theorem body_limit_enforced:
  assumes "0 \<le> max_upload_bytes st" and "sc_http sc" and "app_stack st sc a s = ((seen, e, t), l)"
  defines "limit \<equiv> body_limit DEFAULT_BODY_LIMIT_BYTES (body_overrides st) sc" and "declared \<equiv> declared_length sc"
  shows "int (total seen) \<le> limit \<and> e \<noteq> Some BodyTooLargeError \<and>
    (\<forall>n. int_of_digits declared = Some n \<and> limit < n \<longrightarrow> seen = [] \<and> e = None \<and> t = send_413 server_send s) \<and>
    ((declared = [] \<or> (\<exists>n. int_of_digits declared = Some n \<and> n \<le> limit)) \<and> int (total (sv_in s)) \<le> limit \<and>
       fst (snd (run_app a server_receive server_send s)) \<noteq> Some BodyTooLargeError \<longrightarrow>
     run_app a server_receive server_send s = (seen, e, t))"
proof -
  have run: "body_size_limit DEFAULT_BODY_LIMIT_BYTES (body_overrides st) sc a server_receive server_send s = (seen, e, t)"
    by (rule stack_unlogged [OF assms(3)])
  have limit: "0 \<le> limit" using limit_nonneg [OF assms(1)] by (simp add: limit_def)
  note unfold = body_size_limit_def Let_def assms(2) limit_def [symmetric] declared_def [symmetric]
  have cap: "int (total seen) \<le> limit \<and> e \<noteq> Some BodyTooLargeError"
    using run limit limited_run_cap [of limit a server_receive server_send s seen e t]
    by (auto simp: unfold split: if_splits option.splits)
  have digits: "declared \<noteq> [] \<and> list_all is_digit declared" if "int_of_digits declared = Some n" for n
    using that by (simp add: int_of_digits_def split: if_splits)
  have large: "seen = [] \<and> e = None \<and> t = send_413 server_send s" if "int_of_digits declared = Some n" "limit < n" for n
    using run that digits [OF that(1)] by (auto simp: unfold)
  have "limited_run limit a server_receive server_send s = (seen, e, t)"
    if "declared = [] \<or> (\<exists>n. int_of_digits declared = Some n \<and> n \<le> limit)"
    using run that digits by (auto simp: unfold)
  then show ?thesis using cap large limited_run_below [of s limit a] by auto
qed

theorem body_limit_enforced_witness:
  "\<exists>x l. app_stack example_settings \<lparr>sc_http = True, sc_method = ustr ''GET'', sc_path = ustr ''/files'', sc_query = [],
        sc_headers = [(ustr ''content-length'', ustr ''65537'')], sc_client = None\<rparr> Return \<lparr>sv_in = [], sv_out = []\<rparr> = (x, l) \<and>
     snd (snd x) = send_413 server_send \<lparr>sv_in = [], sv_out = []\<rparr>"
proof -
  let ?sc = "\<lparr>sc_http = True, sc_method = ustr ''GET'', sc_path = ustr ''/files'', sc_query = [],
        sc_headers = [(ustr ''content-length'', ustr ''65537'')], sc_client = None\<rparr>"
  obtain seen e t l where run: "app_stack example_settings ?sc Return \<lparr>sv_in = [], sv_out = []\<rparr> = ((seen, e, t), l)"
    by (metis prod.exhaust)
  have "int_of_digits (declared_length ?sc) = Some 65537"
    by (simp add: declared_length_def int_of_digits_def is_digit_def dec_value_def)
  moreover have "body_limit DEFAULT_BODY_LIMIT_BYTES (body_overrides example_settings) ?sc = 65536"
    by (simp add: body_limit_def body_overrides_def DEFAULT_BODY_LIMIT_BYTES_def)
  ultimately have "t = send_413 server_send \<lparr>sv_in = [], sv_out = []\<rparr>"
    using body_limit_enforced [OF _ _ run] by (simp add: example_settings_def)
  then show ?thesis using run by auto
qed

text \<open>
  One true log line per request: the entry carries the method, path and client of the request, the status that was
  sent (500 if none was), and the redacted query.
\<close>
theorem log_reports_status:
  assumes "sc_http sc" and "sv_out s = []" and "app_stack st sc a s = ((seen, e, t), l)"
  shows "\<exists>line. l = Some \<lparr>le_method = sc_method sc, le_path = sc_path sc, le_query = Some line,
      le_status = sent_status (sv_out t), le_client = sc_client sc\<rparr> \<and> redact_query (latin1 (sc_query sc)) = Some line"
proof -
  let ?s = "\<lparr>lg_inner = s, lg_status = 500\<rparr>"
  obtain u where run: "body_size_limit DEFAULT_BODY_LIMIT_BYTES (body_overrides st) sc a (inner_receive server_receive)
      (capture_send server_send) ?s = (seen, e, u)" and u: "t = lg_inner u"
    "l = Some \<lparr>le_method = sc_method sc, le_path = sc_path sc, le_query = redact_query (latin1 (sc_query sc)),
                    le_status = lg_status u, le_client = sc_client sc\<rparr>"
    using assms(1,3) by (auto simp: app_stack_def access_log_def split: prod.splits)
  have start: "status_true ?s" using assms(2) by (simp add: status_true_def sent_status_def)
  then have "status_true (send_413 (capture_send server_send) ?s)"
    unfolding send_413_def by (intro status_true_steps)
  then have "status_true u"
    using run start limited_run_status [of _ a ?s seen e u]
    by (auto simp: body_size_limit_def Let_def assms(1) split: if_splits option.splits)
  moreover obtain line where "redact_query (latin1 (sc_query sc)) = Some line"
    using redaction_total by blast
  ultimately show ?thesis using u by (simp add: status_true_def)
qed

theorem log_reports_status_witness:
  "\<exists>x line. app_stack example_settings \<lparr>sc_http = True, sc_method = [71], sc_path = [47], sc_query = [115, 105, 103, 61, 120],
        sc_headers = [], sc_client = None\<rparr> (Send (Response_start 204 []) Return) \<lparr>sv_in = [], sv_out = []\<rparr> =
     (x, Some \<lparr>le_method = [71], le_path = [47], le_query = Some line, le_status = sent_status (sv_out (snd (snd x))), le_client = None\<rparr>)"
proof -
  let ?sc = "\<lparr>sc_http = True, sc_method = [71], sc_path = [47], sc_query = [115, 105, 103, 61, 120],
        sc_headers = [], sc_client = None\<rparr>"
  obtain seen e t l where run: "app_stack example_settings ?sc (Send (Response_start 204 []) Return) \<lparr>sv_in = [], sv_out = []\<rparr> = ((seen, e, t), l)"
    by (metis prod.exhaust)
  from log_reports_status [OF _ _ run] run show ?thesis by auto
qed

lemma file_bytes_headers:
  assumes "fleet_ok (ap_world s)" and "constraints_ok (w_db (ap_world s))" and "serve E fl q s = (p, t)"
    and "rs_content p = FileBytes data"
  shows "\<exists>U f cd. content_disposition U (f_original_name (f :: file_row)) = Some cd \<and>
    rs_headers p = DOWNLOAD_HEADERS @ [(ustr ''Content-Disposition'', cd)]"
proof (cases q)
  case Healthz
  then show ?thesis using assms(3,4) by (auto simp: serve_def answer_def ret_def)
next
  case (Download ip i xp v kid sig)
  from download_served [OF assms(1) assms(3) [unfolded Download]] assms(4)
  obtain f where "sent f ip (w_db (ap_world s)) (held (ap_world s)) p (ap_world t)" by auto
  then show ?thesis unfolding sent_def by blast
next
  case (PostFiles a ip form)
  from serve_owner(5) [OF assms(1-3) PostFiles] assms(4) show ?thesis by (auto simp: stored_answer_def)
next
  case (GetFiles a limit offset)
  from serve_owner(2) [OF assms(1-3) GetFiles] assms(4) show ?thesis by (auto simp: get_page_def)
next
  case (GetFile a i)
  from serve_owner(1) [OF assms(1-3) GetFile] assms(4) show ?thesis by (auto simp: get_one_def)
next
  case (CreateLink a ip i ttl)
  from serve_owner(3) [OF assms(1-3) CreateLink] assms(4) show ?thesis by (auto simp: link_made_def)
next
  case (DeleteFile a ip i)
  from serve_owner(4) [OF assms(1-3) DeleteFile] assms(4) show ?thesis by auto
qed

text \<open>
  C30. A browser does not interpret what it downloads. Behind the stack, status and content of an answer are those of
  the handlers; every answer tells the browser not to sniff its type, except the 500 for an exception without
  a handler; an error answer keeps the headers its exception brought along; and an answer with the bytes of a file also forbids scripts, caching and referrers and names
  the file in a \<open>Content-Disposition\<close> header made from its sanitized name.
\<close>
theorem answers_inert:
  assumes "fleet_ok (ap_world s)" and "constraints_ok (w_db (ap_world s))" and "respond E fl q s = (p, t)"
  shows "(\<exists>p'. serve E fl q s = (p', t) \<and> rs_status p = rs_status p' \<and> rs_content p = rs_content p') \<and>
    (ustr ''X-Content-Type-Options'' \<in> fst ` set (rs_headers p) \<or> rs_status p = 500 \<and> rs_content p = Detail) \<and>
    (\<forall>e. route E fl q s = (Inl e, t) \<and> handled e \<longrightarrow>
       ustr ''X-Content-Type-Options'' \<in> fst ` set (rs_headers p) \<and> set (error_headers e) \<subseteq> set (rs_headers p)) \<and>
    (\<forall>data. rs_content p = FileBytes data \<longrightarrow>
       (\<exists>U f cd. content_disposition U (f_original_name (f :: file_row)) = Some cd \<and>
          rs_headers p = DOWNLOAD_HEADERS @ [(ustr ''Content-Disposition'', cd)]))"
proof -
  have sniff: "rs_status (nosniff p) = rs_status p \<and> rs_content (nosniff p) = rs_content p \<and>
      ustr ''X-Content-Type-Options'' \<in> fst ` set (rs_headers (nosniff p)) \<and>
      (ustr ''X-Content-Type-Options'' \<in> fst ` set (rs_headers p) \<longrightarrow> nosniff p = p)" for p
    by (auto simp: nosniff_def)
  have kept: "x \<in> set hs \<Longrightarrow> x \<in> set (rs_headers (nosniff \<lparr>rs_status = n, rs_content = c, rs_headers = hs\<rparr>))" for x n c hs
    by (auto simp: nosniff_def)
  have "status_of e = 500" if "\<not> handled e" for e using that by (cases e) auto
  then have base: "(\<exists>p'. serve E fl q s = (p', t) \<and> rs_status p = rs_status p' \<and> rs_content p = rs_content p' \<and>
        (rs_content p' \<noteq> Detail \<longrightarrow> p = nosniff p')) \<and>
      (ustr ''X-Content-Type-Options'' \<in> fst ` set (rs_headers p) \<or> rs_status p = 500 \<and> rs_content p = Detail) \<and>
      (\<forall>e. route E fl q s = (Inl e, t) \<and> handled e \<longrightarrow>
       ustr ''X-Content-Type-Options'' \<in> fst ` set (rs_headers p) \<and> set (error_headers e) \<subseteq> set (rs_headers p))"
    using assms(3) sniff by (auto simp: kept respond_def serve_def Let_def split: sum.splits prod.splits if_splits)
  then obtain p' where p': "serve E fl q s = (p', t)" "rs_content p = rs_content p'" "rs_content p' \<noteq> Detail \<longrightarrow> p = nosniff p'"
    by blast
  have "rs_headers p = rs_headers p'" if "rs_content p = FileBytes data" for data
    using file_bytes_headers [OF assms(1,2) p'(1), of data] that p' sniff [of p'] by (auto simp: DOWNLOAD_HEADERS_def)
  then show ?thesis using base file_bytes_headers [OF assms(1,2) p'(1)] p'(2) by metis
qed

theorem answers_inert_witness:
  "\<exists>p t. respond example_env id (Download None [] None None None None) (example_api gone_world) = (p, t) \<and>
    (ustr ''X-Content-Type-Options'' \<in> fst ` set (rs_headers p) \<or> rs_status p = 500)"
proof -
  obtain p t where run: "respond example_env id (Download None [] None None None None) (example_api gone_world) = (p, t)"
    by fastforce
  from answers_inert [OF gone_fleet gone_constraints run] run show ?thesis by blast
qed

end
