(* ===== verification/Scripts.thy ===== *)
theory Scripts
  imports Endpoints
begin

text \<open>
  The administration scripts: \<open>scripts/seed_storage_nodes.py\<close>, and what \<open>scripts/create_user.py\<close> (in \<open>Auth\<close>) guarantees.
  \<open>isd\<close> is what \<open>str.isdigit\<close> says of a character beyond ASCII.
\<close>

section \<open>Registering nodes\<close>

definition py_isdigit :: "(nat \<Rightarrow> bool) \<Rightarrow> pystr \<Rightarrow> bool" where
  "py_isdigit isd s \<longleftrightarrow> s \<noteq> [] \<and> list_all (\<lambda>c. if c < 128 then is_digit c else isd c) s"

text \<open>\<open>s.rpartition(c)\<close>: the text before the last \<open>c\<close>, whether there is one, the text after it.\<close>

definition py_rpartition :: "nat \<Rightarrow> pystr \<Rightarrow> pystr \<times> bool \<times> pystr" where
  "py_rpartition c s =
     (let t = takeWhile (\<lambda>x. x \<noteq> c) (rev s); r = dropWhile (\<lambda>x. x \<noteq> c) (rev s)
      in (rev (drop 1 r), r \<noteq> [], rev t))"

definition seed_split :: "pystr \<Rightarrow> pystr list" where
  "seed_split s = map py_strip (filter (\<lambda>entry. py_strip entry \<noteq> []) (py_split 44 s))"

definition host_port :: "(nat \<Rightarrow> bool) \<Rightarrow> pystr \<Rightarrow> bool" where
  "host_port isd entry = (case py_rpartition 58 entry of (host, sep, port) \<Rightarrow> sep \<and> host \<noteq> [] \<and> py_isdigit isd port)"

definition require_host_port :: "(nat \<Rightarrow> bool) \<Rightarrow> pystr \<Rightarrow> bool" where
  "require_host_port isd s = list_all (host_port isd) (seed_split s)"

text \<open>\<open>INSERT ... ON CONFLICT (address) DO NOTHING\<close>, row by row, with the defaults of the table.\<close>

definition insert_node :: "int \<Rightarrow> uuid \<times> pystr \<Rightarrow> db \<Rightarrow> db" where
  "insert_node now r d =
     (case r of (i, address) \<Rightarrow>
        if address \<in> n_address ` set (nodes d) then d
        else d\<lparr>nodes := nodes d @
               [\<lparr>n_id = i, n_address = address, n_status = Healthy, n_last_seen_at = None, n_created_at = now\<rparr>]\<rparr>)"

text \<open>\<open>main()\<close>: the number of new rows. Without any entry the statement has no address to insert, and that
  column takes no \<open>NULL\<close>.\<close>

definition seed_nodes :: "(nat \<Rightarrow> bool) \<Rightarrow> pystr \<Rightarrow> nat wio" where
  "seed_nodes isd storage_nodes =
     (if \<not> require_host_port isd storage_nodes then raise ValueErrorRaised
      else
        (let addresses = seed_split storage_nodes
         in with_session
              (bnd (mapM (\<lambda>a. bnd uuid4 (\<lambda>i. ret (i, a))) addresses) (\<lambda>rows.
               bnd (gets w_now) (\<lambda>now.
               if rows = [] then raise IntegrityError
               else
               bnd (db_trip (\<lambda>d. let d' = foldl (\<lambda>d r. insert_node now r d) d rows
                                 in (length (nodes d') - length (nodes d), d'))) (\<lambda>inserted.
               seq db_commit (ret inserted)))))))"

lemma insert_node_keeps [simp]:
  "users (insert_node now r d) = users d" "files (insert_node now r d) = files d"
  "shards (insert_node now r d) = shards d" "audits (insert_node now r d) = audits d"
  by (simp_all add: insert_node_def split: prod.split)

text \<open>What a run over the rows \<open>rs\<close> leaves.\<close>

definition seeded :: "pystr list \<Rightarrow> db \<Rightarrow> db \<Rightarrow> bool" where
  "seeded addresses d d' \<longleftrightarrow>
     (\<exists>ns. d' = d\<lparr>nodes := nodes d @ ns\<rparr> \<and> (\<forall>n \<in> set ns. n_status n = Healthy) \<and>
        set (map n_address ns) = set addresses - n_address ` set (nodes d) \<and> distinct (map n_address ns))"

lemma insert_seeded: "seeded (map snd rs) d (foldl (\<lambda>d r. insert_node now r d) d rs)"
proof (induction rs rule: rev_induct)
  case Nil
  have "d = d\<lparr>nodes := nodes d @ []\<rparr>" by simp
  then show ?case unfolding seeded_def by (intro exI [of _ "[]"]) simp
next
  case (snoc r rs)
  then obtain ns where ns: "foldl (\<lambda>d r. insert_node now r d) d rs = d\<lparr>nodes := nodes d @ ns\<rparr>"
    "\<forall>n \<in> set ns. n_status n = Healthy" "set (map n_address ns) = set (map snd rs) - n_address ` set (nodes d)"
    "distinct (map n_address ns)" by (auto simp: seeded_def)
  obtain i a where r: "r = (i, a)" by (cases r)
  let ?n = "\<lparr>n_id = i, n_address = a, n_status = Healthy, n_last_seen_at = None, n_created_at = now\<rparr>"
  show ?case
  proof (cases "a \<in> n_address ` set (nodes d) \<union> set (map n_address ns)")
    case True
    then have "foldl (\<lambda>d r. insert_node now r d) d (rs @ [r]) = d\<lparr>nodes := nodes d @ ns\<rparr>"
      using ns(1) r by (auto simp: insert_node_def)
    moreover have "set (map n_address ns) = set (map snd (rs @ [r])) - n_address ` set (nodes d)" using True ns(3) r by auto
    ultimately show ?thesis using ns(2,4) unfolding seeded_def by blast
  next
    case False
    then have "foldl (\<lambda>d r. insert_node now r d) d (rs @ [r]) = d\<lparr>nodes := nodes d @ (ns @ [?n])\<rparr>"
      using ns(1) r by (auto simp: insert_node_def)
    moreover have "set (map n_address (ns @ [?n])) = set (map snd (rs @ [r])) - n_address ` set (nodes d)"
      using False ns(3) r by auto
    moreover have "distinct (map n_address (ns @ [?n]))" using False ns(4) by auto
    ultimately show ?thesis using ns(2) unfolding seeded_def by (intro exI [of _ "ns @ [?n]"]) simp
  qed
qed

lemma seeded_again:
  assumes "seeded as d d'" and "seeded as d' d''"
  shows "d'' = d'"
proof -
  obtain ns where ns: "d' = d\<lparr>nodes := nodes d @ ns\<rparr>" "set (map n_address ns) = set as - n_address ` set (nodes d)"
    using assms(1) by (auto simp: seeded_def)
  obtain ms where ms: "d'' = d'\<lparr>nodes := nodes d' @ ms\<rparr>" "set (map n_address ms) = set as - n_address ` set (nodes d')"
    using assms(2) by (auto simp: seeded_def)
  have "set (map n_address ms) = {}" using ns ms(2) by auto
  then show ?thesis using ms(1) by simp
qed

lemma draw_ids:
  "\<exists>rows n. mapM (\<lambda>a. bnd uuid4 (\<lambda>i. ret (i, a))) as w = (Inr rows, w\<lparr>w_drawn := n\<rparr>) \<and> map snd rows = as"
proof (induction as arbitrary: w)
  case Nil
  have "w = w\<lparr>w_drawn := w_drawn w\<rparr>" by simp
  then show ?case by (metis list.simps(8) mapM.simps(1) ret_apply)
next
  case (Cons a as)
  obtain rows n where r: "mapM (\<lambda>a. bnd uuid4 (\<lambda>i. ret (i, a))) as (w\<lparr>w_drawn := Suc (w_drawn w)\<rparr>) =
      (Inr rows, w\<lparr>w_drawn := n\<rparr>)" "map snd rows = as"
    using Cons [of "w\<lparr>w_drawn := Suc (w_drawn w)\<rparr>"] by auto
  then have "mapM (\<lambda>a. bnd uuid4 (\<lambda>i. ret (i, a))) (a # as) w = (Inr ((w_uuids w (w_drawn w), a) # rows), w\<lparr>w_drawn := n\<rparr>)"
    by (simp add: bnd_apply uuid4_def ret_apply)
  then show ?case using r(2) by (metis list.simps(9) snd_conv)
qed

lemma seed_outcome:
  assumes "seed_nodes isd s w = (r, w')"
  obtains d' where "seeded (seed_split s) (w_db w) d'" and "w_nodes w' = w_nodes w"
    and "\<And>n. r = Inr n \<Longrightarrow> w_db w' = d' \<and> constraints_ok d' \<and> n = length (nodes d') - length (nodes (w_db w))"
    and "w_db w' = w_db w \<or> w_db w' = d' \<and> constraints_ok d'"
    and "require_host_port isd s = False \<Longrightarrow> r = Inl ValueErrorRaised \<and> w' = w"
proof (cases "require_host_port isd s")
  case False
  let ?rows = "map (Pair 0) (seed_split s) :: (uuid \<times> pystr) list"
  have "seeded (seed_split s) (w_db w) (foldl (\<lambda>d r. insert_node 0 r d) (w_db w) ?rows)"
    using insert_seeded [of ?rows] by (simp add: comp_def)
  then show ?thesis by (rule that) (use assms False in \<open>auto simp: seed_nodes_def\<close>)
next
  case True
  let ?v = "w\<lparr>w_tx := w_db w\<rparr>"
  obtain rows n where rows: "mapM (\<lambda>a. bnd uuid4 (\<lambda>i. ret (i, a))) (seed_split s) ?v = (Inr rows, ?v\<lparr>w_drawn := n\<rparr>)"
    "map snd rows = seed_split s" using draw_ids by blast
  let ?d = "foldl (\<lambda>d r. insert_node (w_now w) r d) (w_db w) rows"
  have seeded: "seeded (seed_split s) (w_db w) ?d" using insert_seeded [of rows] rows(2) by simp
  show ?thesis
    by (rule that [OF seeded])
      (use assms True rows in \<open>auto simp: seed_nodes_def with_session_def bnd_apply rows(1) gets_apply raise_apply db_trip_def db_commit_def
        ret_apply Let_def split: option.splits db_fault.splits if_splits sum.splits prod.splits\<close>)
qed

section \<open>Accounts\<close>

text \<open>The row a successful run leaves: \<open>d'\<close> has one more user, or another key for an existing one.\<close>

definition account_set :: "uuid \<Rightarrow> pystr \<Rightarrow> pystr \<Rightarrow> db \<Rightarrow> db \<Rightarrow> bool" where
  "account_set i email h d d' \<longleftrightarrow>
     (\<exists>now. d' = add_user \<lparr>u_id = i, u_email = email, u_api_key_hash = h, u_created_at = now\<rparr> d) \<or>
     (\<exists>u \<in> set (users d). u_id u = i \<and> u_email u = email \<and> d' = set_user i (\<lambda>x. x\<lparr>u_api_key_hash := h\<rparr>) d)"

lemma key_hashes: "hash_api_key (generate_api_key token) = Some (sha256_hex (utf8 (generate_api_key token)))"
proof -
  have "is_ascii (generate_api_key token)"
    by (simp add: generate_api_key_def API_KEY_PREFIX_def)
  then show ?thesis by (simp add: hash_api_key_def)
qed

lemma create_outcome:
  assumes "create_user U token arg rot w = (r, w')"
  defines "email \<equiv> py_lower U (py_strip arg)" and "h \<equiv> sha256_hex (utf8 (generate_api_key token))"
  shows "w_nodes w' = w_nodes w"
    and "w_db w' = w_db w \<or> (\<exists>i. account_set i email h (w_db w) (w_db w') \<and> constraints_ok (w_db w'))"
    and "r = Inr (Some (i, key)) \<Longrightarrow> key = generate_api_key token \<and> account_set i email h (w_db w) (w_db w') \<and>
       constraints_ok (w_db w') \<and> (rot \<longleftrightarrow> find_email email (w_db w) \<noteq> None)"
    and "r = Inr None \<Longrightarrow> w_db w' = w_db w \<and> (rot \<longleftrightarrow> find_email email (w_db w) = None)"
proof -
  note run = assms(1) [unfolded create_user_def key_hashes Let_def option.case, folded email_def h_def]
  have found: "u \<in> set (users (w_db w)) \<and> u_email u = email" if "find_email email (w_db w) = Some u" for u
    using that by (auto simp: find_email_def find_Some_iff)
  show "w_nodes w' = w_nodes w"
    using run by (auto simp: with_session_def bnd_apply db_select_def db_trip_def db_commit_def db_stage_def uuid4_def io_simps
        Let_def split: option.splits db_fault.splits if_splits sum.splits prod.splits)
  show "w_db w' = w_db w \<or> (\<exists>i. account_set i email h (w_db w) (w_db w') \<and> constraints_ok (w_db w'))"
    using run found by (fastforce simp: account_set_def with_session_def bnd_apply db_select_def db_trip_def db_commit_def db_stage_def uuid4_def
        io_simps Let_def split: option.splits db_fault.splits if_splits sum.splits prod.splits)
  show "r = Inr (Some (i, key)) \<Longrightarrow> key = generate_api_key token \<and> account_set i email h (w_db w) (w_db w') \<and>
       constraints_ok (w_db w') \<and> (rot \<longleftrightarrow> find_email email (w_db w) \<noteq> None)"
    using run found by (auto simp: account_set_def with_session_def bnd_apply db_select_def db_trip_def db_commit_def db_stage_def uuid4_def
        io_simps Let_def split: option.splits db_fault.splits if_splits sum.splits prod.splits)
  show "r = Inr None \<Longrightarrow> w_db w' = w_db w \<and> (rot \<longleftrightarrow> find_email email (w_db w) = None)"
    using run by (auto simp: with_session_def bnd_apply db_select_def db_trip_def db_commit_def db_stage_def uuid4_def
        io_simps Let_def split: option.splits db_fault.splits if_splits sum.splits prod.splits)
qed

text \<open>A generated key in a header.\<close>

lemma key_presented:
  "key_user U (Some (ustr ''Bearer '' @ generate_api_key token)) d =
     (case find_user (sha256_hex (utf8 (generate_api_key token))) d of None \<Rightarrow> Inl unauthorized | Some u \<Rightarrow> Inr u)"
proof -
  let ?k = "generate_api_key token"
  have "py_partition 32 (ustr ''Bearer'' @ 32 # ?k) = (ustr ''Bearer'', True, ?k)"
    by (rule py_partition_free) simp
  then have "py_partition 32 (ustr ''Bearer '' @ ?k) = (ustr ''Bearer'', True, ?k)" by simp
  moreover have "py_lower U (ustr ''Bearer'') = ustr ''bearer''" by (simp add: py_lower_def ascii_lower_def)
  moreover have "py_startswith ?k API_KEY_PREFIX" by (simp add: py_startswith_def generate_api_key_def)
  moreover have "py_strip ?k = ?k"
    unfolding py_strip_def
    by (rule strip_by_idI)
      (auto simp: generate_api_key_def API_KEY_PREFIX_def py_isspace_def b64_alphabet_def is_digit_def dest!: b64url_alphabet)
  ultimately show ?thesis by (simp add: key_user_def key_hashes)
qed

lemma account_set_parts:
  assumes "account_set i email h d d'"
  shows "files d' = files d" "nodes d' = nodes d" "shards d' = shards d" "audits d' = audits d"
    and "\<exists>u \<in> set (users d'). u_id u = i \<and> u_email u = email \<and> u_api_key_hash u = h"
    and "v \<in> set (users d) \<Longrightarrow> u_id v \<noteq> i \<Longrightarrow> v \<in> set (users d')"
    and "\<exists>is. map u_id (users d') = map u_id (users d) @ is"
proof -
  show "files d' = files d" "nodes d' = nodes d" "shards d' = shards d" "audits d' = audits d"
    using assms by (auto simp: account_set_def add_user_def set_user_def)
  show "v \<in> set (users d) \<Longrightarrow> u_id v \<noteq> i \<Longrightarrow> v \<in> set (users d')"
    using assms by (force simp: account_set_def add_user_def set_user_def)
  show "\<exists>is. map u_id (users d') = map u_id (users d) @ is"
    using assms by (auto simp: account_set_def add_user_def set_user_def comp_def if_distrib [of u_id] cong: if_cong)
  show "\<exists>u \<in> set (users d'). u_id u = i \<and> u_email u = email \<and> u_api_key_hash u = h"
    using assms unfolding account_set_def
  proof (elim disjE exE bexE conjE)
    fix u
    assume u: "u \<in> set (users d)" "u_id u = i" "u_email u = email" "d' = set_user i (\<lambda>x. x\<lparr>u_api_key_hash := h\<rparr>) d"
    then show ?thesis by (intro bexI [of _ "u\<lparr>u_api_key_hash := h\<rparr>"]) (auto simp: set_user_def)
  qed (simp add: add_user_def)
qed

section \<open>Properties\<close>

text \<open>
  C22. The key a run of \<open>create_user\<close> prints is the user's key. After a run that returns a user id and a key, that user
  exists with the given address, the key in a \<open>Bearer\<close> header authenticates exactly it, and any
  key that authenticates it has the hash of the new one (so a rotated key is dead); the run created the user
  exactly if it was not told to rotate; other users and tables are untouched.
\<close>
theorem created_key_authenticates:
  assumes "create_user U token arg rot w = (Inr (Some (i, key)), w')"
  defines "d \<equiv> w_db w" and "d' \<equiv> w_db w'" and "email \<equiv> py_lower U (py_strip arg)"
  shows "\<exists>u. u_id u = i \<and> u_email u = email \<and> key_user U (Some (ustr ''Bearer '' @ key)) d' = Inr u \<and>
    (\<forall>a v. key_user U a d' = Inr v \<and> u_id v = i \<longrightarrow> v = u \<and> u_api_key_hash v = sha256_hex (utf8 key)) \<and>
    (rot \<longleftrightarrow> email \<in> u_email ` set (users d)) \<and>
    (\<forall>v \<in> set (users d). u_id v \<noteq> i \<longrightarrow> v \<in> set (users d')) \<and>
    constraints_ok d' \<and> files d' = files d \<and> nodes d' = nodes d \<and> shards d' = shards d \<and> audits d' = audits d"
proof -
  let ?h = "sha256_hex (utf8 key)"
  have o: "key = generate_api_key token" "account_set i email ?h d d'" "constraints_ok d'" "rot \<longleftrightarrow> find_email email d \<noteq> None"
    using create_outcome(3) [OF assms(1) refl] by (auto simp: d_def d'_def email_def)
  obtain u where u: "u \<in> set (users d')" "u_id u = i" "u_email u = email" "u_api_key_hash u = ?h"
    using account_set_parts(5) [OF o(2)] by blast
  have "find_user ?h d' = Some u"
  proof -
    have "\<exists>v. find_user ?h d' = Some v"
      using u(1,4) by (auto simp: find_user_def find_None_iff simp flip: not_None_eq)
    then obtain v where v: "find_user ?h d' = Some v" by blast
    then have "v \<in> set (users d')" "u_api_key_hash v = ?h" by (auto simp: find_user_def find_Some_iff)
    then have "v = u" using inj_onD [OF keys_inj(2) [OF o(3)]] u(1,4) by metis
    then show ?thesis using v by simp
  qed
  then have "key_user U (Some (ustr ''Bearer '' @ key)) d' = Inr u" using key_presented [of U token d'] o(1) by simp
  moreover have "v = u \<and> u_api_key_hash v = ?h" if "key_user U a d' = Inr v \<and> u_id v = i" for a v
    using that key_user_row [of U a d' v] inj_onD [OF keys_inj(1) [OF o(3)]] u by metis
  moreover have "find_email email d \<noteq> None \<longleftrightarrow> email \<in> u_email ` set (users d)"
    by (auto simp: find_email_def find_None_iff image_iff)
  ultimately show ?thesis using u o account_set_parts(1-4) [OF o(2)] account_set_parts(6) [OF o(2)] by blast
qed

text \<open>An address of ASCII letters is stored in lower case.\<close>

theorem created_key_authenticates_witness:
  "\<exists>i key w' u. create_user ascii_ucd [1, 2, 3] [65] False (example_world\<lparr>w_db := empty_db\<rparr>) = (Inr (Some (i, key)), w') \<and>
    key_user ascii_ucd (Some (ustr ''Bearer '' @ key)) (w_db w') = Inr u \<and> u_email u = [97]"
proof -
  let ?w = "example_world\<lparr>w_db := empty_db\<rparr>" and ?h = "sha256_hex (utf8 (generate_api_key [1, 2, 3]))"
  have strip: "py_strip [65] = [65]" "py_lower ascii_ucd [65] = [97]"
    by (simp_all add: py_strip_def strip_by_def py_isspace_def py_lower_def ascii_lower_def)
  have "list_all (\<lambda>c. is_lhex c) ?h" by (simp add: list_all_iff sha256_hex_lhex)
  then have "text_ok ?h" by (auto simp: text_ok_def encodable_def list_all_iff is_lhex_def)
  then have "constraints_ok (add_user \<lparr>u_id = i, u_email = [97], u_api_key_hash = ?h, u_created_at = n\<rparr> empty_db)" for i n
    by (simp add: constraints_ok_def row_types_ok_def keys_unique_def references_ok_def add_user_def empty_db_def user_ok_def
        text_ok_def encodable_def)
  then have "\<exists>i key w'. create_user ascii_ucd [1, 2, 3] [65] False ?w = (Inr (Some (i, key)), w')"
    by (simp add: create_user_def key_hashes strip with_session_def bnd_apply db_select_def db_trip_def db_commit_def db_stage_def
        uuid4_def io_simps Let_def example_world_def find_email_def empty_db_def [of])
  then obtain i key w' where run: "create_user ascii_ucd [1, 2, 3] [65] False ?w = (Inr (Some (i, key)), w')" by blast
  from created_key_authenticates [OF run] run show ?thesis by (metis strip)
qed

text \<open>
  Registering nodes only adds what is missing. A run of \<open>seed_storage_nodes\<close> with an entry that is not \<open>host:port\<close> does
  nothing; one that returns appends exactly one healthy row for each configured address that had none, reports their number and
  leaves every other row as it was; run again, it adds nothing. If it fails, the rows are as before, or as after a
  successful run whose commit was not confirmed.
\<close>
theorem seeding_adds_missing:
  assumes "seed_nodes isd s w = (r, w')"
  shows "(\<not> require_host_port isd s \<longrightarrow> r = Inl ValueErrorRaised \<and> w' = w) \<and>
    (\<forall>n. r = Inr n \<longrightarrow>
      (\<exists>ns. w_db w' = (w_db w)\<lparr>nodes := nodes (w_db w) @ ns\<rparr> \<and> n = length ns \<and> (\<forall>x \<in> set ns. n_status x = Healthy) \<and>
         set (map n_address ns) = set (seed_split s) - n_address ` set (nodes (w_db w)) \<and> distinct (map n_address ns)) \<and>
      (\<forall>w1 m w2. seed_nodes isd s w1 = (Inr m, w2) \<and> w_db w1 = w_db w' \<longrightarrow> m = 0 \<and> w_db w2 = w_db w')) \<and>
    (w_db w' = w_db w \<or> seeded (seed_split s) (w_db w) (w_db w') \<and> constraints_ok (w_db w'))"
proof -
  obtain d' where o: "seeded (seed_split s) (w_db w) d'"
    "\<And>n. r = Inr n \<Longrightarrow> w_db w' = d' \<and> constraints_ok d' \<and> n = length (nodes d') - length (nodes (w_db w))"
    "w_db w' = w_db w \<or> w_db w' = d' \<and> constraints_ok d'"
    "require_host_port isd s = False \<Longrightarrow> r = Inl ValueErrorRaised \<and> w' = w"
    using seed_outcome [OF assms] by metis
  have again: "m = 0 \<and> w_db w2 = d'" if run: "seed_nodes isd s w1 = (Inr m, w2)" and w1: "w_db w1 = d'" for w1 m w2
  proof -
    obtain d2 where "seeded (seed_split s) d' d2" "w_db w2 = d2" "m = length (nodes d2) - length (nodes d')"
      using seed_outcome [OF run] w1 by metis
    then show ?thesis using seeded_again [OF o(1), of d2] by simp
  qed
  obtain ns where ns: "d' = (w_db w)\<lparr>nodes := nodes (w_db w) @ ns\<rparr>" "\<forall>x \<in> set ns. n_status x = Healthy"
    "set (map n_address ns) = set (seed_split s) - n_address ` set (nodes (w_db w))" "distinct (map n_address ns)"
    using o(1) unfolding seeded_def by blast
  then have count: "length ns = length (nodes d') - length (nodes (w_db w))" by simp
  have "(\<exists>ns. w_db w' = (w_db w)\<lparr>nodes := nodes (w_db w) @ ns\<rparr> \<and> n = length ns \<and> (\<forall>x \<in> set ns. n_status x = Healthy) \<and>
         set (map n_address ns) = set (seed_split s) - n_address ` set (nodes (w_db w)) \<and> distinct (map n_address ns)) \<and>
      (\<forall>w1 m w2. seed_nodes isd s w1 = (Inr m, w2) \<and> w_db w1 = w_db w' \<longrightarrow> m = 0 \<and> w_db w2 = w_db w')" if "r = Inr n" for n
  proof (intro conjI exI [of _ ns] allI impI)
    have w': "w_db w' = d'" "n = length (nodes d') - length (nodes (w_db w))" using o(2) [OF that] by simp_all
    show "w_db w' = (w_db w)\<lparr>nodes := nodes (w_db w) @ ns\<rparr>" by (rule trans [OF w'(1) ns(1)])
    show "n = length ns" by (rule trans [OF w'(2) count [symmetric]])
    show "\<forall>x \<in> set ns. n_status x = Healthy" by (rule ns(2))
    show "set (map n_address ns) = set (seed_split s) - n_address ` set (nodes (w_db w))" by (rule ns(3))
    show "distinct (map n_address ns)" by (rule ns(4))
    fix w1 m w2
    assume "seed_nodes isd s w1 = (Inr m, w2) \<and> w_db w1 = w_db w'"
    then show "m = 0" "w_db w2 = w_db w'" using again w'(1) by blast+
  qed
  moreover have "w_db w' = w_db w \<or> seeded (seed_split s) (w_db w) (w_db w') \<and> constraints_ok (w_db w')" using o(1,3) by auto
  ultimately show ?thesis using o(4) by blast
qed

theorem seeding_adds_missing_witness:
  "\<exists>w'. seed_nodes (\<lambda>_. False) [32, 120, 58, 49, 44] example_world = (Inr 1, w') \<and>
    (\<exists>x. set (map n_address (nodes (w_db w'))) = {x} \<union> n_address ` set (nodes example_db))"
proof -
  have split: "seed_split [32, 120, 58, 49, 44] = [[120, 58, 49]]"
    by (simp add: seed_split_def py_strip_def strip_by_def py_isspace_def)
  have ok: "require_host_port (\<lambda>_. False) [32, 120, 58, 49, 44]"
    by (simp add: require_host_port_def split host_port_def py_rpartition_def py_isdigit_def is_digit_def)
  have "constraints_ok (insert_node 0 (100, [120, 58, 49]) example_db)"
    using example_constraints
    by (auto simp: insert_node_def constraints_ok_def row_types_ok_def keys_unique_def references_ok_def node_ok_def text_ok_def
        encodable_def example_world_def example_db_def example_row_def example_address_def empty_db_def)
  then have "\<exists>w'. seed_nodes (\<lambda>_. False) [32, 120, 58, 49, 44] example_world = (Inr 1, w')"
    by (simp add: seed_nodes_def ok split with_session_def bnd_apply uuid4_def io_simps db_trip_def db_commit_def Let_def
        example_world_def) (simp add: insert_node_def example_db_def example_row_def example_address_def empty_db_def)
  then obtain w' where run: "seed_nodes (\<lambda>_. False) [32, 120, 58, 49, 44] example_world = (Inr 1, w')" by blast
  have "w_db example_world = example_db" by (simp add: example_world_def)
  then obtain ns where "w_db w' = example_db\<lparr>nodes := nodes example_db @ ns\<rparr>" "1 = length ns"
    using seeding_adds_missing [OF run, THEN conjunct2, THEN conjunct1, rule_format, OF refl, THEN conjunct1] by auto
  then have "\<exists>x. set (map n_address (nodes (w_db w'))) = {x} \<union> n_address ` set (nodes example_db)"
    by (cases ns) auto
  with run show ?thesis by blast
qed

end
