(* ===== verification/System.thy ===== *)
theory System
  imports Worker Middleware Scripts
begin

text \<open>
  The whole service as a transition system: any number of API processes and worker replicas over one database
  and one fleet, the two scripts, and an environment that moves the clock, takes nodes and
  processes up and down and decides which requests and statements fail. A step is one request, one step of a
  replica (a whole cycle among them), one script run or one move of the environment; \<open>D\<close> says what the environment
  may do to the disks.
\<close>

section \<open>Steps\<close>

record process =
  pr_downloads :: limiter
  pr_calls :: limiter
  pr_slots :: nat
  pr_monotonic :: rat

record system =
  sy_world :: world
  sy_apis :: "nat \<Rightarrow> process"
  sy_pool :: pool

definition api_of :: "nat \<Rightarrow> system \<Rightarrow> api" where
  "api_of n s =
     \<lparr>ap_world = sy_world s, ap_downloads = pr_downloads (sy_apis s n), ap_calls = pr_calls (sy_apis s n),
      ap_slots = pr_slots (sy_apis s n), ap_monotonic = pr_monotonic (sy_apis s n)\<rparr>"

definition put_api :: "nat \<Rightarrow> api \<Rightarrow> system \<Rightarrow> system" where
  "put_api n t s =
     s\<lparr>sy_world := ap_world t,
       sy_apis := (sy_apis s)(n := \<lparr>pr_downloads = ap_downloads t, pr_calls = ap_calls t, pr_slots = ap_slots t,
                                    pr_monotonic = ap_monotonic t\<rparr>)\<rparr>"

datatype event =
    Request nat api_request api_resp
  | Replica pool_event
  | Create_user bytes pystr bool
  | Seed_nodes pystr
  | Environment

inductive sys_step ::
  "env \<Rightarrow> (rat \<Rightarrow> rat) \<Rightarrow> (nat \<Rightarrow> bool) \<Rightarrow> (world \<Rightarrow> world \<Rightarrow> bool) \<Rightarrow> event \<Rightarrow> system \<Rightarrow> system \<Rightarrow> bool"
  for E fl isd D where
  request: "respond E fl q (api_of n s) = (p, t) \<Longrightarrow> sys_step E fl isd D (Request n q p) s (put_api n t s)"
| replica: "pool_step E ev (sy_pool s, sy_world s) (p, w) \<Longrightarrow>
    sys_step E fl isd D (Replica ev) s (s\<lparr>sy_pool := p, sy_world := w\<rparr>)"
| create_user: "create_user (e_ucd E) token arg rot (sy_world s) = (r, w) \<Longrightarrow>
    sys_step E fl isd D (Create_user token arg rot) s (s\<lparr>sy_world := w\<rparr>)"
| seed_nodes: "seed_nodes isd v (sy_world s) = (r, w) \<Longrightarrow>
    sys_step E fl isd D (Seed_nodes v) s (s\<lparr>sy_world := w\<rparr>)"
| environment: "w_db w = w_db (sy_world s) \<Longrightarrow> fleet_ok w \<Longrightarrow> D (sy_world s) w \<Longrightarrow>
    sys_step E fl isd D Environment s (s\<lparr>sy_world := w, sy_apis := apis\<rparr>)"

abbreviation sys_run ::
  "env \<Rightarrow> (rat \<Rightarrow> rat) \<Rightarrow> (nat \<Rightarrow> bool) \<Rightarrow> (world \<Rightarrow> world \<Rightarrow> bool) \<Rightarrow> system \<Rightarrow> event list \<Rightarrow> system \<Rightarrow> bool"
  where "sys_run E fl isd D \<equiv> runs (sys_step E fl isd D)"

definition sound :: "system \<Rightarrow> bool" where
  "sound s \<longleftrightarrow> fleet_ok (sy_world s) \<and> constraints_ok (w_db (sy_world s))"

section \<open>What every step keeps\<close>

text \<open>Users and audit rows stay; the files in \<open>S\<close> keep their rows, their shards' places in the code word, and
  every intact shard whose index is in \<open>J\<close>.\<close>

definition kept ::
  "uuid set \<Rightarrow> nat set \<Rightarrow> db \<Rightarrow> (pystr \<Rightarrow> uuid \<Rightarrow> bytes option) \<Rightarrow> db \<Rightarrow> (pystr \<Rightarrow> uuid \<Rightarrow> bytes option) \<Rightarrow> bool" where
  "kept S J d h d' h' \<longleftrightarrow>
     (\<exists>is. map u_id (users d') = map u_id (users d) @ is) \<and>
     (\<exists>as. map a_id (audits d') = map a_id (audits d) @ as) \<and>
     (\<forall>f \<in> set (files d). f_id f \<in> S \<longrightarrow> f \<in> set (files d')) \<and> laid S d d' \<and>
     (\<forall>i \<in> S. \<forall>j \<in> J. \<forall>c. intact d h i j c \<longrightarrow> intact d' h' i j c)"

lemma keptI:
  assumes "\<exists>is. map u_id (users d') = map u_id (users d) @ is" and "\<exists>as. map a_id (audits d') = map a_id (audits d) @ as"
    and "\<And>f. f \<in> set (files d) \<Longrightarrow> f_id f \<in> S \<Longrightarrow> f \<in> set (files d')" and "laid S d d'"
    and "\<And>i j c. i \<in> S \<Longrightarrow> j \<in> J \<Longrightarrow> intact d h i j c \<Longrightarrow> intact d' h' i j c"
  shows "kept S J d h d' h'"
  using assms unfolding kept_def by blast

lemma kept_same: "kept S J d h d h"
  by (rule keptI) simp_all

lemma kept_trans:
  assumes "kept S J d h d1 h1" and "kept S J d1 h1 d2 h2"
  shows "kept S J d h d2 h2"
proof (rule keptI)
  show "\<exists>is. map u_id (users d2) = map u_id (users d) @ is" "\<exists>as. map a_id (audits d2) = map a_id (audits d) @ as"
    using assms unfolding kept_def by auto
  show "laid S d d2" using assms laid_trans [of S d d1 S d2] unfolding kept_def by blast
qed (use assms in \<open>unfold kept_def, blast+\<close>)

lemma spared_kept: "spared T d h d' h' \<Longrightarrow> S \<subseteq> T \<Longrightarrow> kept S J d h d' h'"
  unfolding kept_def spared_def by (auto simp: laid_def)

text \<open>Other rows of users and nodes.\<close>

lemma kept_other:
  assumes "files d' = files d" and "shards d' = shards d" and "audits d' = audits d" and "set (nodes d) \<subseteq> set (nodes d')"
    and "\<exists>is. map u_id (users d') = map u_id (users d) @ is"
  shows "kept S J d h d' h"
proof (rule keptI)
  show "intact d' h i j c" if "intact d h i j c" for i j c
    using that
  proof (rule intactE)
    fix s n x
    assume p: "(s, n) \<in> set (placed_shards i d)" "s_shard_index s = j" "s_checksum_sha256 s = c"
      "h (n_address n) (s_id s) = Some (shard_file x)" "sha256_hex x = c"
    then have "(s, n) \<in> set (placed_shards i d')" using assms(2,4) by (auto simp: placed_shards_iff)
    then show "intact d' h i j c" using p by (intro intactI)
  qed
qed (use assms in auto)

text \<open>\<open>D\<close> spares the intact shards of \<open>S\<close> with an index in \<open>J\<close>.\<close>

definition harmless :: "(world \<Rightarrow> world \<Rightarrow> bool) \<Rightarrow> uuid set \<Rightarrow> nat set \<Rightarrow> bool" where
  "harmless D S J \<longleftrightarrow>
     (\<forall>w w'. D w w' \<and> w_db w' = w_db w \<longrightarrow>
        (\<forall>i \<in> S. \<forall>j \<in> J. \<forall>c. intact (w_db w) (held w) i j c \<longrightarrow> intact (w_db w) (held w') i j c))"

fun named :: "event \<Rightarrow> uuid set" where
  "named (Request n (DeleteFile a ip i) p) = {i}"
| "named _ = {}"

lemma deletes_named: "deletes E q d \<subseteq> named (Request n q p)"
  by (cases "(E, q, d)" rule: deletes.cases) (auto split: sum.splits option.splits)

lemma held_nodes: "w_nodes w' = w_nodes w \<Longrightarrow> held w' = held w \<and> fleet_ok w' = fleet_ok w"
  by (simp add: held_def fleet_ok_def fun_eq_iff)

lemma step_kept:
  assumes "sys_step E fl isd D ev s t" and "sound s" and "S \<subseteq> available_ids (w_db (sy_world s))"
    and "named ev \<inter> S = {}" and "harmless D S J"
  shows "sound t \<and> kept S J (w_db (sy_world s)) (held (sy_world s)) (w_db (sy_world t)) (held (sy_world t))"
proof -
  let ?w = "sy_world s" and ?d = "w_db (sy_world s)" and ?h = "held (sy_world s)"
  have f: "fleet_ok ?w" and d: "constraints_ok ?d" using assms(2) by (simp_all add: sound_def)
  have spares: "sound t \<and> kept S J ?d ?h (w_db (sy_world t)) (held (sy_world t))"
    if "sparing T ?d ?h (sy_world t)" "S \<subseteq> T" for T
    using that spared_kept [of T ?d ?h] by (auto simp: sparing_def sound_def spared_def)
  show ?thesis
    using assms(1)
  proof (cases rule: sys_step.cases)
    case (request q n p u)
    obtain p' where run: "serve E fl q (api_of n s) = (p', u)" using respond_serve [OF request(3)] by blast
    have world: "ap_world (api_of n s) = ?w" "sy_world t = ap_world u" by (simp_all add: api_of_def put_api_def request)
    have "sparing (- deletes E q ?d) ?d ?h (ap_world u)"
      using serve_spares [OF _ _ run] f d world by simp
    moreover have "S \<subseteq> - deletes E q ?d" using assms(4) deletes_named [of E q ?d n p] request(1) by auto
    ultimately show ?thesis using spares world(2) by simp
  next
    case (replica ev p w)
    show ?thesis
    proof (cases "w = ?w")
      case True
      then show ?thesis using replica(2) f d kept_same by (simp add: sound_def)
    next
      case False
      then obtain i where "(p, w) = worker_cycle E i (sy_pool s) ?w" using replica(3) by (auto elim!: pool_stepE)
      moreover obtain m :: maint where "worker_cycle E i (sy_pool s) ?w =
          (set_worker i ((pl_workers (sy_pool s) i)\<lparr>wk_phase := Looping, wk_failures := mt_failures m\<rparr>) (sy_pool s), mt_world m)"
        "run_cycle E \<lparr>mt_world = ?w, mt_failures = wk_failures (pl_workers (sy_pool s) i)\<rparr> = (Inr (), m)"
        by (rule worker_cycle_eq [of E i "sy_pool s" ?w])
      ultimately have m: "run_cycle E \<lparr>mt_world = ?w, mt_failures = wk_failures (pl_workers (sy_pool s) i)\<rparr> = (Inr (), m)" "w = mt_world m"
        by simp_all
      have "sparing (available_ids ?d) ?d ?h ?w" using f spared_more [OF d] by (simp add: sparing_def)
      then have "sparing (available_ids ?d) ?d ?h w" using keepsD [OF run_cycle_sparing _ m(1)] m(2) by simp
      then show ?thesis using spares assms(3) replica(2) by simp
    qed
  next
    case (create_user token arg rot r w)
    note o = create_outcome [OF create_user(3)]
    have h: "held w = ?h" "fleet_ok w" using held_nodes [OF o(1)] f by auto
    have "w_db w = ?d \<or> constraints_ok (w_db w) \<and> kept S J ?d ?h (w_db w) ?h"
      using o(2) account_set_parts [of _ _ _ ?d "w_db w"] kept_other [of "w_db w" ?d] by auto
    then show ?thesis using create_user(2) h d kept_same by (auto simp: sound_def)
  next
    case (seed_nodes v r w)
    obtain d' where o: "seeded (seed_split v) ?d d'" "w_nodes w = w_nodes ?w" "w_db w = ?d \<or> w_db w = d' \<and> constraints_ok d'"
      using seed_outcome [OF seed_nodes(3)] by metis
    have h: "held w = ?h" "fleet_ok w" using held_nodes [OF o(2)] f by auto
    have "kept S J ?d ?h d' ?h"
      using o(1) by (intro kept_other) (auto simp: seeded_def)
    then show ?thesis using o(3) seed_nodes(2) h d kept_same by (auto simp: sound_def)
  next
    case (environment w apis)
    have "kept S J ?d ?h ?d (held w)"
      by (rule keptI) (use assms(5) environment in \<open>auto simp: harmless_def\<close>)
    then show ?thesis using environment d by (simp add: sound_def)
  qed
qed

lemma kept_available:
  assumes "kept S J d h d' h'" and "S \<subseteq> available_ids d"
  shows "S \<subseteq> available_ids d'"
  using assms unfolding kept_def available_ids_def by (auto simp: image_iff)

interpretation service: step_system "sys_step E fl isd D"
    "\<lambda>s. sound s \<and> S \<subseteq> available_ids (w_db (sy_world s)) \<and> harmless D S J" "\<lambda>ev. named ev \<inter> S = {}"
    "\<lambda>s t. kept S J (w_db (sy_world s)) (held (sy_world s)) (w_db (sy_world t)) (held (sy_world t))"
  for E fl isd D S J
proof unfold_locales
  fix s ev t
  assume s: "sound s \<and> S \<subseteq> available_ids (w_db (sy_world s)) \<and> harmless D S J" "named ev \<inter> S = {}" "sys_step E fl isd D ev s t"
  then have t: "sound t" "kept S J (w_db (sy_world s)) (held (sy_world s)) (w_db (sy_world t)) (held (sy_world t))"
    using step_kept by blast+
  then show "kept S J (w_db (sy_world s)) (held (sy_world s)) (w_db (sy_world t)) (held (sy_world t))" by blast
  show "sound t \<and> S \<subseteq> available_ids (w_db (sy_world t)) \<and> harmless D S J"
    using t s(1) kept_available by blast
qed (rule kept_same kept_trans; assumption)+

lemma run_kept:
  assumes "sys_run E fl isd D s evs t" and "harmless D S J"
  shows "sound s \<Longrightarrow> S \<subseteq> available_ids (w_db (sy_world s)) \<Longrightarrow> (\<forall>ev \<in> set evs. named ev \<inter> S = {}) \<Longrightarrow>
    sound t \<and> kept S J (w_db (sy_world s)) (held (sy_world s)) (w_db (sy_world t)) (held (sy_world t))"
  using service.run_step_system [OF assms(1), of S J] assms(2) by simp

section \<open>A stored file\<close>

text \<open>What a returned upload leaves: its row is available, its shards are intact and no others exist.\<close>

lemma upload_leaves:
  assumes "fleet_ok w" and "constraints_ok (w_db w)"
    and "with_session (upload_file E owner filename content_type data k m ip) w = (Inr g, w')"
  shows "fleet_ok w' \<and> constraints_ok (w_db w') \<and> g \<in> set (files (w_db w')) \<and> f_status g = Available"
proof -
  note up = upload_runs [OF assms]
  obtain f where f: "upload_done E (w\<lparr>w_tx := w_db w\<rparr>) (u_id owner) filename content_type data k m ip f (w'\<lparr>w_tx := w_tx w'\<rparr>)"
    "g = f\<lparr>f_status := Available\<rparr>" using up(2) [OF refl] by blast
  have "g \<in> set (files (w_db w'))"
    using done_orderly [OF f(1)] f(2) by (auto simp: add_audit_def add_shards_def add_file_def)
  then show ?thesis using up(1) f(2) by (simp add: orderly_def)
qed

lemma upload_shards:
  assumes "fleet_ok w" and "constraints_ok (w_db w)"
    and "with_session (upload_file E owner filename content_type data k m ip) w = (Inr g, w')"
    and "encode (e_zfec E) data k m = Inr blocks"
  shows "j < k + m \<Longrightarrow> intact (w_db w') (held w') (f_id g) j (sha256_hex (blocks ! j))"
    and "r \<in> set (shards (w_db w')) \<Longrightarrow> s_file_id r = f_id g \<Longrightarrow>
      s_shard_index r < k + m \<and> s_checksum_sha256 r = sha256_hex (blocks ! s_shard_index r)"
proof -
  obtain placement ss where len: "length ss = k + m" "length placement = k + m"
    and placed: "placed_shards (f_id g) (w_db w') = zip ss placement"
    and row: "\<And>j. j < k + m \<Longrightarrow> s_shard_index (ss ! j) = j \<and> s_checksum_sha256 (ss ! j) = sha256_hex (blocks ! j) \<and>
       held w' (n_address (placement ! j)) (s_id (ss ! j)) = Some (shard_file (blocks ! j))"
    using upload_placed [OF assms(1-3)] assms(4) by (metis sum.inject(2))
  show "intact (w_db w') (held w') (f_id g) j (sha256_hex (blocks ! j))" if j: "j < k + m"
    using row [OF j] j len placed
    by (intro intactI [of "ss ! j" "placement ! j" _ _ _ _ _ "blocks ! j"]) (auto simp: set_zip)
  assume r: "r \<in> set (shards (w_db w'))" "s_file_id r = f_id g"
  have "constraints_ok (w_db w')" using upload_leaves [OF assms(1-3)] by simp
  then obtain n where "n \<in> set (nodes (w_db w'))" "n_id n = s_node_id r"
    using references_okD(3) [OF constraints_okD(3) r(1)] by auto
  then have "(r, n) \<in> set (zip ss placement)" using r placed [symmetric] by (simp add: placed_shards_iff)
  then obtain j where "j < k + m" "r = ss ! j" using len by (auto simp: set_zip)
  then show "s_shard_index r < k + m \<and> s_checksum_sha256 r = sha256_hex (blocks ! s_shard_index r)"
    using row by simp
qed

text \<open>No node holds, in place of a block of file \<open>i\<close>, other bytes with its SHA-256.\<close>

definition no_collision :: "env \<Rightarrow> bytes \<Rightarrow> nat \<Rightarrow> nat \<Rightarrow> uuid \<Rightarrow> world \<Rightarrow> bool" where
  "no_collision E data k m i v \<longleftrightarrow>
     (\<forall>blocks. encode (e_zfec E) data k m = Inr blocks \<longrightarrow>
        (\<forall>(r, n) \<in> set (placed_shards i (w_db v)). \<forall>x.
           held v (n_address n) (s_id r) = Some (shard_file x) \<and> sha256_hex x = sha256_hex (blocks ! s_shard_index r)
             \<longrightarrow> x = blocks ! s_shard_index r))"

lemma laid_place:
  assumes "laid S d d'" and "i \<in> S" and "i \<in> f_id ` set (files d)"
    and "\<And>s. s \<in> set (shards d) \<Longrightarrow> s_file_id s = i \<Longrightarrow> s_shard_index s < n \<and> s_checksum_sha256 s = c (s_shard_index s)"
    and "r \<in> set (shards d')" and "s_file_id r = i"
  shows "s_shard_index r < n \<and> s_checksum_sha256 r = c (s_shard_index r)"
proof -
  have "shard_key r \<in> shard_key ` set (shards d)" using assms(1-3,5,6) by (simp add: laid_def)
  then obtain s where "s \<in> set (shards d)" "shard_key r = shard_key s" by (rule imageE)
  then show ?thesis using assms(4) [of s] assms(6) by (simp add: shard_key_def)
qed

lemma placed_authentic:
  assumes "no_collision E data k m i v" and "encode (e_zfec E) data k m = Inr blocks" and "p \<in> set (placed_shards i (w_db v))"
    and "s_shard_index (fst p) < k + m \<and> s_checksum_sha256 (fst p) = sha256_hex (blocks ! s_shard_index (fst p))"
    and "length blocks = k + m"
  shows "authentic blocks (v\<lparr>w_tx := d\<rparr>) p"
proof -
  have "(fst p, snd p) \<in> set (placed_shards i (w_db v))" using assms(3) by simp
  then have "x = blocks ! s_shard_index (fst p)"
    if "held v (n_address (snd p)) (s_id (fst p)) = Some (shard_file x)" "sha256_hex x = s_checksum_sha256 (fst p)" for x
    using assms(1,2,4) that unfolding no_collision_def by fastforce
  then show ?thesis using assms(4,5) by (simp add: authentic_def)
qed

lemma intact_sure:
  assumes "\<And>j. j \<in> J \<Longrightarrow> \<exists>c. intact (w_db v) (held v) i j c"
    and "\<forall>(r, n) \<in> set (placed_shards i (w_db v)).
      s_shard_index r \<in> J \<longrightarrow> n_status n \<noteq> Decommissioned \<and> node_ready E v (n_address n)"
  shows "card J \<le> card ((s_shard_index \<circ> fst) ` {p \<in> set (candidates_of i {} (w_db v)). sure E (v\<lparr>w_tx := d\<rparr>) p})"
proof (rule card_mono)
  show "J \<subseteq> (s_shard_index \<circ> fst) ` {p \<in> set (candidates_of i {} (w_db v)). sure E (v\<lparr>w_tx := d\<rparr>) p}"
  proof
    fix j
    assume j: "j \<in> J"
    then obtain c where "intact (w_db v) (held v) i j c" using assms(1) by blast
    then obtain r n x where p: "(r, n) \<in> set (placed_shards i (w_db v))" "s_shard_index r = j" "s_checksum_sha256 r = c"
      "held v (n_address n) (s_id r) = Some (shard_file x)" "sha256_hex x = c" by (rule intactE) blast
    have "good_shard (v\<lparr>w_tx := d\<rparr>) (r, n)" using p by (auto simp: good_shard_def)
    moreover have "n_status n \<noteq> Decommissioned" "node_ready E (v\<lparr>w_tx := d\<rparr>) (n_address n)"
      using assms(2) p(1,2) j by (auto simp: node_ready_def)
    ultimately have "(r, n) \<in> {p \<in> set (candidates_of i {} (w_db v)). sure E (v\<lparr>w_tx := d\<rparr>) p}"
      using p(1) by (simp add: sure_def set_candidates)
    then show "j \<in> (s_shard_index \<circ> fst) ` {p \<in> set (candidates_of i {} (w_db v)). sure E (v\<lparr>w_tx := d\<rparr>) p}"
      using p(2) by (intro image_eqI [of _ _ "(r, n)"]) simp_all
  qed
qed simp

section \<open>Properties\<close>


definition example_system :: "world \<Rightarrow> system" where
  "example_system w = \<lparr>sy_world = w,
     sy_apis = (\<lambda>_. \<lparr>pr_downloads = rate_limiter id 60, pr_calls = rate_limiter id 120, pr_slots = 4, pr_monotonic = 0\<rparr>),
     sy_pool = fresh_pool\<rparr>"


text \<open>
  C2. A file outlives everything but its DELETE. After an upload returned, let the whole service run: any requests but a
  DELETE that names this file, any steps of the worker replicas (their repairs move shards between
  nodes), scripts, crashes, failing statements and lost messages, and an environment that spares the intact shards of
  some k of its indices. If then the nodes of these shards answer, and no node holds a SHA-256 collision with a
  block of the file, its row is unchanged and reading it returns exactly the uploaded bytes.
\<close>
theorem file_outlives_service:
  assumes "fleet_ok w" and "constraints_ok (w_db w)" and "zfec_ok (e_zfec E) k m"
    and "with_session (upload_file E owner filename content_type data k m ip) w = (Inr g, sy_world s)"
    and "sys_run E fl isd D s evs t" and "\<forall>ev \<in> set evs. f_id g \<notin> named ev"
    and "harmless D {f_id g} J" and "J \<subseteq> {..<k + m}" and "k \<le> card J"
    and "\<forall>(r, n) \<in> set (placed_shards (f_id g) (w_db (sy_world t))).
      s_shard_index r \<in> J \<longrightarrow> n_status n \<noteq> Decommissioned \<and> node_ready E (sy_world t) (n_address n)"
    and "no_client_bug (sy_world t)" and "w_dbfault (sy_world t) (w_trips (sy_world t)) = None"
    and "no_collision E data k m (f_id g) (sy_world t)"
  shows "g \<in> set (files (w_db (sy_world t))) \<and> fst (with_session (read_file E g) (sy_world t)) = Inr data"
proof -
  let ?w = "sy_world s" and ?v = "sy_world t" and ?i = "f_id g"
  note up = upload_leaves [OF assms(1,2,4)]
  obtain blocks where enc: "encode (e_zfec E) data k m = Inr blocks" and len: "length blocks = k + m"
    and g: "f_data_shards g = k" "f_parity_shards g = m" "f_size_bytes g = length data" "f_checksum_sha256 g = sha256_hex data"
    using upload_placed [OF assms(1,2,4)] by metis
  note shards = upload_shards [OF assms(1,2,4) enc]
  have "{?i} \<subseteq> available_ids (w_db ?w)" using up by (auto simp: available_ids_def)
  then have keep: "sound t \<and> kept {?i} J (w_db ?w) (held ?w) (w_db ?v) (held ?v)"
    using run_kept [OF assms(5,7)] up assms(6) by (simp add: sound_def)
  then have row: "g \<in> set (files (w_db ?v))" and laid: "laid {?i} (w_db ?w) (w_db ?v)"
    and intact: "\<And>j c. j \<in> J \<Longrightarrow> intact (w_db ?w) (held ?w) ?i j c \<Longrightarrow> intact (w_db ?v) (held ?v) ?i j c"
    using up unfolding kept_def by blast+
  note place = laid_place [OF laid insertI1 _ shards(2)]
  have "\<exists>u. read_file E g (?v\<lparr>w_tx := w_db ?v\<rparr>) = (Inr data, u)"
  proof (rule read_survives [OF _ _ _ assms(3) enc g])
    fix p
    assume p: "p \<in> set (candidates_of ?i {} (w_tx (?v\<lparr>w_tx := w_db ?v\<rparr>)))"
    then have placed: "p \<in> set (placed_shards ?i (w_db ?v))" by (simp add: set_candidates)
    then have "(fst p, snd p) \<in> set (placed_shards ?i (w_db ?v))" by simp
    then have "fst p \<in> set (shards (w_db ?v))" "s_file_id (fst p) = ?i" unfolding placed_shards_iff by blast+
    moreover have "?i \<in> f_id ` set (files (w_db ?w))" using up by simp
    ultimately show "authentic blocks (?v\<lparr>w_tx := w_db ?v\<rparr>) p"
      by (intro placed_authentic [OF assms(13) enc placed] place len)
  next
    have "card J \<le> card ((s_shard_index \<circ> fst) ` {p \<in> set (candidates_of ?i {} (w_db ?v)). sure E (?v\<lparr>w_tx := w_db ?v\<rparr>) p})"
      by (rule intact_sure [OF _ assms(10)]) (use intact shards(1) assms(8) in blast)
    then show "k \<le> card ((s_shard_index \<circ> fst) ` {p \<in> set (candidates_of ?i {} (w_tx (?v\<lparr>w_tx := w_db ?v\<rparr>))).
        sure E (?v\<lparr>w_tx := w_db ?v\<rparr>) p})" using assms(9) by simp
  qed (use keep assms(11,12) in \<open>simp_all add: sound_def no_client_bug_def\<close>)
  then show ?thesis using row by (auto simp: with_session_def split: prod.split)
qed

text \<open>The clock moves a day after a poll of a replica and a request; the disks stay as they are.\<close>

theorem file_outlives_service_witness:
  "\<exists>g w' p t. with_session (upload_file example_env example_owner [97] [98] [1, 2, 3] 2 1 None) example_world = (Inr g, w') \<and>
    sys_run example_env id (\<lambda>_. False) (\<lambda>w w'. held w' = held w) (example_system w')
      [Request 0 Healthz p, Replica (Poll 0), Environment] t \<and>
    w_now (sy_world t) = 86400000000 \<and> fst (with_session (read_file example_env g) (sy_world t)) = Inr [1, 2, 3]"
proof (rule example_run)
  fix g w'
  assume run: "with_session (upload_file example_env example_owner [97] [98] [1, 2, 3] 2 1 None) example_world = (Inr g, w')"
  let ?D = "\<lambda>w w'. held w' = held w" and ?s = "example_system w'" and ?v = "w'\<lparr>w_now := 86400000000\<rparr>"
  let ?run = "sys_run example_env id (\<lambda>_. False) ?D"
  have up: "fleet_ok w'" "constraints_ok (w_db w')" using upload_leaves [OF example_fleet example_constraints run] by simp_all
  have held: "held ?v = held w'" "fleet_ok ?v" using held_nodes [of ?v w'] up(1) by simp_all
  obtain p u where q: "respond example_env id Healthz (api_of 0 ?s) = (p, u)" by fastforce
  have u: "ap_world u = w'" using q by (auto simp: respond_def answer_def ret_def api_of_def example_system_def)
  let ?s1 = "put_api 0 u ?s"
  let ?s2 = "?s1\<lparr>sy_pool := worker_poll 0 fresh_pool, sy_world := w'\<rparr>"
  let ?s3 = "?s2\<lparr>sy_world := ?v, sy_apis := sy_apis ?s\<rparr>"
  have s1: "sy_world ?s1 = w'" "sy_pool ?s1 = fresh_pool" using u by (simp_all add: put_api_def example_system_def)
  have "pool_step example_env (Poll 0) (fresh_pool, w') (worker_poll 0 fresh_pool, w')"
    by (rule pool_step.poll) (simp add: fresh_pool_def)
  then have 2: "sys_step example_env id (\<lambda>_. False) ?D (Replica (Poll 0)) ?s1 ?s2" using sys_step.replica [of _ _ ?s1] s1 by metis
  have 3: "sys_step example_env id (\<lambda>_. False) ?D Environment ?s2 ?s3" by (rule sys_step.environment) (simp_all add: held)
  have steps: "?run ?s [Request 0 Healthz p, Replica (Poll 0), Environment] ?s3"
    by (rule runs.go, rule sys_step.request [OF q], rule runs.go, rule 2, rule runs.go, rule 3, rule runs.stop)
  obtain blocks placement ss where enc: "encode (e_zfec example_env) [1, 2, 3] 2 1 = Inr blocks"
    and len: "length ss = 2 + 1" "length placement = 2 + 1"
    and placed: "placed_shards (f_id g) (w_db w') = zip ss placement"
    and row: "\<And>j. j < 2 + 1 \<Longrightarrow> s_shard_index (ss ! j) = j \<and> s_checksum_sha256 (ss ! j) = sha256_hex (blocks ! j) \<and>
       held w' (n_address (placement ! j)) (s_id (ss ! j)) = Some (shard_file (blocks ! j))"
    and sub: "set placement \<subseteq> set (nodes (w_db example_world))"
    using upload_placed [OF example_fleet example_constraints run] by metis
  have ready: "n_status n \<noteq> Decommissioned \<and> node_ready example_env ?v (n_address n)"
    if "(r, n) \<in> set (placed_shards (f_id g) (w_db w'))" for r n
  proof -
    have "n \<in> set (nodes (w_db example_world))" using that sub placed by (metis set_zip_rightD subsetD)
    then obtain i where i: "i < 3" "n = example_row i" using example_rows by blast
    then have "node_ready example_env w' (n_address n)"
      using example_healthy [OF i(1) run] by (simp add: healthy_env_def example_row_def)
    then show ?thesis using i by (simp add: node_ready_def example_row_def)
  qed
  have "no_collision example_env [1, 2, 3] 2 1 (f_id g) ?v"
    unfolding no_collision_def using enc row len by (auto simp: placed held set_zip)
  moreover have "w_dbfault w' j = None" "no_client_bug w'" for j using example_healthy [of 0, OF _ run] by (simp_all add: healthy_env_def)
  moreover have "sy_world ?s = w'" "sy_world ?s3 = ?v" by (simp_all add: example_system_def)
  moreover have "zfec_ok (e_zfec example_env) 2 1" using parity_codec_ok by (simp add: example_env_def)
  moreover have "\<forall>(r, n) \<in> set (placed_shards (f_id g) (w_db w')). s_shard_index r \<in> {0, 1} \<longrightarrow>
      n_status n \<noteq> Decommissioned \<and> node_ready example_env ?v (n_address n)" using ready by blast
  ultimately have "fst (with_session (read_file example_env g) (sy_world ?s3)) = Inr [1, 2, 3]"
    using run
    by (intro file_outlives_service [OF example_fleet example_constraints _ _ steps, of 2 1 example_owner "[97]" "[98]" "[1, 2, 3]" None g "{0, 1}",
          THEN conjunct2])
      (simp_all add: harmless_def no_client_bug_def intact_def)
  moreover have "w_now (sy_world ?s3) = 86400000000" by simp
  ultimately show ?thesis using run steps by blast
qed

end
