(* ===== verification/Links.thy ===== *)
theory Links
  imports System
begin

text \<open>
  The life of a signed link in the running service: from the answer that hands it out, through whatever the service does,
  to the download that presents it.
\<close>

lemma nonneg_text: "0 \<le> i \<Longrightarrow> py_str_int i = dec_nat (nat i)"
  by (simp add: py_str_int_def)

text \<open>A link opens the row it was made for as long as the row stays, until it expires, under any configuration that
  still has its key.\<close>

lemma link_opens_again:
  assumes k: "link_for E f expires k" and row: "constraints_ok d" "f \<in> set (files d)" "f_status f = Available"
    and "0 \<le> expires" and "0 \<le> f_link_version f"
    and keys: "signing_keys (e_settings E1) = Inr keys" "map_of keys (k_kid k) = Some (secret_key (e_settings E))"
    and "now < expires"
  shows "link_opens E1 d now (k_file_id k) (Some (k_exp k)) (Some (k_v k)) (Some (k_kid k)) (Some (k_sig k)) f"
proof -
  have parts: "k_file_id k = uuid_str (f_id f)" "k_exp k = dec_nat (nat expires)" "k_v k = dec_nat (nat (f_link_version f))"
    "expires \<le> MAX_TIMESTAMP"
    "sign (secret_key (e_settings E)) (k_kid k) (f_id f) (int (nat expires)) (int (nat (f_link_version f))) = Some (k_sig k)"
    using k assms(5,6) by (simp_all add: link_for_def nonneg_text)
  have "file_ok f" using constraints_okD(1) [OF row(1)] row(2) by (simp add: row_types_ok_def list_all_iff)
  then have "nat (f_link_version f) < 10 ^ 12" "nat expires < 10 ^ 12"
    using parts(4) by (simp_all add: file_ok_def MAX_TIMESTAMP_def nat_less_iff assms(5,6))
  then have "verify (e_ucd E1) keys (k_file_id k) (Some (k_exp k)) (Some (k_v k)) (Some (k_kid k)) (Some (k_sig k)) now =
      Inr \<lparr>lc_file_id = f_id f, lc_expires = expires, lc_version = f_link_version f, lc_kid = k_kid k\<rparr>"
    using issued_link_facts [OF parts(5) keys(2)] assms(5,6,9) by (simp add: parts(1-3))
  moreover have "get_file (f_id f) d = Some f"
    by (rule get_file_unique) (use constraints_okD(2) [OF row(1)] row(2) in \<open>simp_all add: keys_unique_def\<close>)
  ultimately show ?thesis using keys(1) row(3) by (simp add: link_opens_def)
qed

lemma opening_download:
  assumes "fleet_ok (ap_world s)" and "serve E fl (Download ip raw xp v kid sig) s = (p, t)"
    and "link_opens E (w_db (ap_world s)) (w_now (ap_world s) div 1000000) raw xp v kid sig f"
  shows "rs_status p \<notin> {403, 404} \<and> (\<forall>data. rs_content p = FileBytes data \<longrightarrow> sha256_hex data = f_checksum_sha256 f)"
proof -
  have one: "g = f" if "link_opens E d now raw xp v kid sig g" "link_opens E d now raw xp v kid sig f" for g d now
    using that by (auto simp: link_opens_def split: sum.splits)
  show ?thesis
    using download_served [OF assms(1,2)] assms(3) one
    unfolding download_raises_def sent_def by (elim disjE exE conjE) auto
qed

lemma created_link:
  assumes "fleet_ok (ap_world s)" and "constraints_ok (w_db (ap_world s))"
    and "respond E fl (CreateLink a ip i ttl) s = (p, u)" and "rs_content p = LinkMade k"
  obtains f where "f \<in> set (files (w_db (ap_world s)))" "f_id f = i" "f_status f = Available" "ttl_ok E ttl"
    "link_for E f (w_now (ap_world s) div 1000000 + ttl) k" "files (w_db (ap_world u)) = files (w_db (ap_world s))"
    "fleet_ok (ap_world u)" "constraints_ok (w_db (ap_world u))"
proof -
  obtain p' where p': "serve E fl (CreateLink a ip i ttl) s = (p', u)" "rs_content p' = rs_content p"
    using respond_serve [OF assms(3)] by blast
  have "link_made E a ip i ttl (w_db (ap_world s)) (held (ap_world s)) (w_now (ap_world s)) p' (ap_world u)"
    using serve_owner(3) [OF assms(1,2) p'(1) refl] p'(2) assms(4) by auto
  then obtain w f k' where "find (owned w i) (files (w_db (ap_world s))) = Some f" "ttl_ok E ttl"
    "link_for E f (w_now (ap_world s) div 1000000 + ttl) k'" "p' = \<lparr>rs_status = 201, rs_content = LinkMade k', rs_headers = []\<rparr>"
    "noted (link_row i (u_id w) ttl ip) (w_db (ap_world s)) (held (ap_world s)) (ap_world u)"
    unfolding link_made_def by blast
  then show ?thesis
    using that [of f] owned_id [of w i] p'(2) assms(4) by (auto simp: noted_def add_audit_def)
qed

section \<open>Property\<close>

text \<open>
  C13. A link works until it expires or its file is deleted. After an answer handed out a link, let the whole service run
  without a DELETE that names the file. A download with exactly the fields of the link, by anyone, through any API process, under
  any configuration whose key table still has the link's key, and before the time the answer promised, is never
  refused (403 or 404); if it returns bytes, they have the digest of the file.
\<close>
theorem link_works_until_revoked:
  assumes "fleet_ok (sy_world s)" and "constraints_ok (w_db (sy_world s))" and "0 \<le> w_now (sy_world s)"
    and "1 \<le> min_ttl_seconds (e_settings E)" and "\<forall>f \<in> set (files (w_db (sy_world s))). 0 \<le> f_link_version f"
    and "respond E fl (CreateLink a ip i ttl) (api_of n s) = (p, u)" and "rs_content p = LinkMade k"
    and "sys_run E fl isd D (put_api n u s) evs t" and "\<forall>ev \<in> set evs. i \<notin> named ev"
    and "signing_keys (e_settings E1) = Inr keys" and "map_of keys (k_kid k) = Some (secret_key (e_settings E))"
    and "w_now (sy_world t) div 1000000 < k_expires_at k"
    and "respond E1 fl (Download ip' (k_file_id k) (Some (k_exp k)) (Some (k_v k)) (Some (k_kid k)) (Some (k_sig k))) (api_of m t) = (p', t')"
  shows "k_expires_at k = w_now (sy_world s) div 1000000 + ttl \<and> rs_status p' \<notin> {403, 404} \<and>
    (\<exists>f \<in> set (files (w_db (sy_world t))). f_id f = i \<and> f_status f = Available \<and>
       (\<forall>data. rs_content p' = FileBytes data \<longrightarrow> sha256_hex data = f_checksum_sha256 f))"
proof -
  have world: "ap_world (api_of n s) = sy_world s" "ap_world (api_of m t) = sy_world t" "sy_world (put_api n u s) = ap_world u"
    by (simp_all add: api_of_def put_api_def)
  obtain f where f: "f \<in> set (files (w_db (sy_world s)))" "f_id f = i" "f_status f = Available" "ttl_ok E ttl"
    "link_for E f (w_now (sy_world s) div 1000000 + ttl) k" "files (w_db (ap_world u)) = files (w_db (sy_world s))"
    "fleet_ok (ap_world u)" "constraints_ok (w_db (ap_world u))"
    using created_link [OF _ _ assms(6,7)] assms(1,2) world(1) by metis
  have "sound (put_api n u s)" "{i} \<subseteq> available_ids (w_db (sy_world (put_api n u s)))"
    using f by (auto simp: sound_def world available_ids_def)
  then have t: "sound t" "f \<in> set (files (w_db (sy_world t)))"
    using run_kept [OF assms(8), of "{i}" "{}"] assms(9) f(1,2,6) by (auto simp: kept_def harmless_def world)
  have expires: "k_expires_at k = w_now (sy_world s) div 1000000 + ttl" using f(5) by (simp add: link_for_def)
  have "0 \<le> k_expires_at k" using expires assms(3,4) f(4) by (simp add: ttl_ok_def pos_imp_zdiv_nonneg_iff)
  then have opens: "link_opens E1 (w_db (sy_world t)) (w_now (sy_world t) div 1000000) (k_file_id k) (Some (k_exp k)) (Some (k_v k))
      (Some (k_kid k)) (Some (k_sig k)) f"
    using link_opens_again [OF f(5) _ t(2) f(3) _ _ assms(10,11)] t(1) assms(5,12) f(1) expires by (simp add: sound_def)
  obtain q where q: "serve E1 fl (Download ip' (k_file_id k) (Some (k_exp k)) (Some (k_v k)) (Some (k_kid k)) (Some (k_sig k))) (api_of m t) = (q, t')"
    "rs_status q = rs_status p'" "rs_content q = rs_content p'" using respond_serve [OF assms(13)] by blast
  have "rs_status q \<notin> {403, 404} \<and> (\<forall>data. rs_content q = FileBytes data \<longrightarrow> sha256_hex data = f_checksum_sha256 f)"
    by (rule opening_download [OF _ q(1)]) (use opens t(1) world in \<open>simp_all add: sound_def\<close>)
  then show ?thesis using q t(2) f(2,3) expires by auto
qed

text \<open>A deployment with one available file, whose owner has a key; a link is made, a day passes, and the owner's
  link for three days is opened.\<close>

definition link_key :: pystr where
  "link_key = generate_api_key [1, 2, 3]"

definition link_header :: "pystr option" where
  "link_header = Some (ustr ''Bearer '' @ link_key)"

definition key_owner :: user_row where
  "key_owner = example_owner\<lparr>u_api_key_hash := sha256_hex (utf8 link_key)\<rparr>"

definition link_file :: file_row where
  "link_file = gone_file\<lparr>f_status := Available, f_link_version := 1\<rparr>"

definition link_world :: world where
  "link_world = example_world\<lparr>w_db := example_db\<lparr>users := [key_owner], files := [link_file]\<rparr>\<rparr>"

lemma hash_text_ok: "text_ok (sha256_hex x)"
proof -
  have "list_all is_lhex (sha256_hex x)" by (simp add: list_all_iff sha256_hex_lhex)
  then show ?thesis by (auto simp: text_ok_def encodable_def list_all_iff is_lhex_def)
qed

lemma link_constraints: "constraints_ok (w_db link_world)"
  using example_constraints hash_text_ok [of "utf8 link_key"]
  by (simp add: link_world_def key_owner_def link_file_def constraints_ok_def row_types_ok_def keys_unique_def references_ok_def
      file_ok_def user_ok_def text_ok_def encodable_def example_world_def gone_file_def new_file_def example_db_def empty_db_def
      example_owner_def)

lemma link_fleet: "fleet_ok link_world"
  using example_fleet by (simp add: link_world_def)

lemma link_user: "key_user U link_header (w_db link_world) = Inr key_owner"
  using key_presented [of U "[1, 2, 3]" "w_db link_world"]
  by (simp add: link_header_def link_key_def find_user_def link_world_def key_owner_def)

lemma current_user_run:
  assumes "w_dbfault (ap_world s) (w_trips (ap_world s)) = None" and "key_user (e_ucd E) a (w_tx (ap_world s)) = Inr u"
  shows "current_user E a s = (Inr u, s\<lparr>ap_world := (ap_world s)\<lparr>w_trips := Suc (w_trips (ap_world s))\<rparr>\<rparr>)"
  using assms
  by (auto simp: current_user_def get_current_user_def key_user_def on_world_def bnd_apply db_select_def db_trip_def io_simps Let_def
      split: prod.splits option.splits if_splits)

lemma link_world_parts:
  "w_dbfault link_world = (\<lambda>_. None)" "w_now link_world = 0" "files (w_db link_world) = [link_file]"
  "w_uuids link_world j = of_nat (100 + j)"
  by (simp_all add: link_world_def example_world_def)

lemma link_row_ok: "owned key_owner 5 link_file"
  by (simp add: owned_def link_file_def gone_file_def new_file_def key_owner_def example_owner_def)

lemma link_noted:
  "constraints_ok (add_audit \<lparr>a_id = i, a_file_id = Some 5, a_actor_user_id = Some 1, a_event_type = link_generated,
     a_ttl_seconds = Some 259200, a_ip_address = None, a_created_at = n\<rparr> (w_db link_world))"
proof -
  have "audits (w_db link_world) = []" "f_id ` set (files (w_db link_world)) = {5}" "u_id ` set (users (w_db link_world)) = {1}"
    by (simp_all add: link_world_def example_db_def empty_db_def link_file_def gone_file_def new_file_def key_owner_def example_owner_def)
  then show ?thesis
    using link_constraints
    by (simp add: constraints_ok_def row_types_ok_def keys_unique_def references_ok_def add_audit_def audit_ok_def)
qed

lemma link_fields: "f_id link_file = 5" "u_id key_owner = 1" "f_link_version link_file = 1"
  by (simp_all add: link_file_def gone_file_def new_file_def key_owner_def example_owner_def)

lemma example_link:
  obtains p u k where "respond example_env id (CreateLink link_header None 5 259200)
      (api_of 0 (example_system link_world)) = (p, u)" "rs_content p = LinkMade k"
    "k_expires_at k = 259200" "k_kid k = secret_key_id (e_settings example_env)"
proof -
  let ?s = "api_of 0 (example_system link_world)" 
  let ?kid = "secret_key_id (e_settings example_env)"
  obtain sig where sig: "sign (secret_key (e_settings example_env)) ?kid 5 259200 1 = Some sig"
    using sign_Some_iff [of "secret_key (e_settings example_env)" ?kid 5 259200 1]
    by (auto simp: example_env_def example_settings_def encodable_def list_all_iff)
  have st: "min_ttl_seconds (e_settings example_env) = 60" "max_ttl_seconds (e_settings example_env) = 604800" by (simp_all add: example_env_def example_settings_def)
  have "\<exists>p u k. respond example_env id (CreateLink link_header None 5 259200) ?s = (p, u) \<and> rs_content p = LinkMade k \<and>
      k_expires_at k = 259200 \<and> k_kid k = ?kid"
    by (simp add: respond_def create_link_def Let_def db_session_def bnd_apply current_user_run link_user link_world_parts api_of_def
        example_system_def enforce_api_limit_def allow_def rate_limiter_def MAX_TRACKED_KEYS_def st owned_file_def on_world_def
        db_select_def db_trip_def io_simps link_row_ok unix_time_def link_fields sig audit_record_def uuid4_def db_stage_def
        db_commit_def link_noted MAX_TIMESTAMP_def answer_def nosniff_def)
  then show ?thesis using that by blast
qed

lemma example_keys:
  obtains keys where "signing_keys (e_settings example_env) = Inr keys"
    "map_of keys (secret_key_id (e_settings example_env)) = Some (secret_key (e_settings example_env))"
  using example_retired by (simp add: signing_keys_def example_env_def)

theorem link_works_until_revoked_witness:
  "\<exists>p u k t q v. respond example_env id (CreateLink link_header None 5 259200) (api_of 0 (example_system link_world)) = (p, u) \<and>
    rs_content p = LinkMade k \<and>
    sys_run example_env id (\<lambda>_. False) (\<lambda>_ _. True) (put_api 0 u (example_system link_world)) [Environment] t \<and>
    w_now (sy_world t) = 86400000000 \<and>
    respond example_env id (Download None (k_file_id k) (Some (k_exp k)) (Some (k_v k)) (Some (k_kid k)) (Some (k_sig k))) (api_of 1 t) = (q, v) \<and>
    rs_status q \<notin> {403, 404}"
proof -
  let ?s = "example_system link_world"
  obtain p u k where made: "respond example_env id (CreateLink link_header None 5 259200) (api_of 0 ?s) = (p, u)"
    "rs_content p = LinkMade k" "k_expires_at k = 259200" "k_kid k = secret_key_id (e_settings example_env)"
    by (rule example_link)
  obtain keys where keys: "signing_keys (e_settings example_env) = Inr keys"
    "map_of keys (secret_key_id (e_settings example_env)) = Some (secret_key (e_settings example_env))" by (rule example_keys)
  have world: "sy_world ?s = link_world" by (simp add: example_system_def)
  let ?u = "put_api 0 u ?s"
  let ?v = "(sy_world ?u)\<lparr>w_now := 86400000000\<rparr>"
  let ?t = "?u\<lparr>sy_world := ?v, sy_apis := sy_apis ?u\<rparr>"
  have "fleet_ok (ap_world u)"
    by (rule created_link [OF _ _ made(1,2)]) (simp_all add: api_of_def world link_fleet link_constraints)
  then have "fleet_ok ?v" by (simp add: put_api_def fleet_ok_def)
  then have "sys_step example_env id (\<lambda>_. False) (\<lambda>_ _. True) Environment ?u ?t"
    by (intro sys_step.environment) simp_all
  then have run: "sys_run example_env id (\<lambda>_. False) (\<lambda>_ _. True) ?u [Environment] ?t"
    by (simp only: runs_Cons runs_Nil) blast
  obtain q v where get: "respond example_env id (Download None (k_file_id k) (Some (k_exp k)) (Some (k_v k)) (Some (k_kid k)) (Some (k_sig k)))
      (api_of 1 ?t) = (q, v)" by fastforce
  have "rs_status q \<notin> {403, 404}"
    using link_works_until_revoked [OF _ _ _ _ _ made(1,2) run _ keys(1) _ _ get] keys(2) made(3,4)
    by (simp add: world link_fleet link_constraints link_world_parts link_fields example_env_def example_settings_def)
  then show ?thesis using made(1,2) run get by (intro exI conjI) (assumption | simp)+
qed

end
