(* ===== verification/Outage.thy ===== *)
theory Outage
  imports Middleware
begin

text \<open>
  Requests while the database is gone, and the transfer slots of a process. Every round trip of an outage fails
  before it reaches the server, so nothing can be authenticated, audited or committed.
\<close>

section \<open>Slots\<close>

text \<open>A handler may take a slot; whatever happens in it, the slot is free again afterwards.\<close>

definition slots_are :: "nat \<Rightarrow> api \<Rightarrow> bool" where
  "slots_are n s \<longleftrightarrow> ap_slots s = n"

lemma slots_on_world [wp]: "keeps (slots_are n) (on_world m)"
  by (auto simp: keeps_def slots_are_def on_world_def split: prod.split)

lemma slots_limits [wp]:
  "keeps (slots_are n) (enforce_api_limit fl k)" "keeps (slots_are n) (enforce_download_limit fl k)"
  by (auto simp: keeps_def slots_are_def enforce_api_limit_def enforce_download_limit_def split: prod.split)

lemma slots_session:
  assumes "keeps (slots_are n) m"
  shows "keeps (slots_are n) (db_session m)"
proof (rule keepsI)
  fix s r t
  assume s: "slots_are n s" and run: "db_session m s = (r, t)"
  obtain x u where m: "m (s\<lparr>ap_world := (ap_world s)\<lparr>w_tx := w_db (ap_world s)\<rparr>\<rparr>) = (x, u)" by fastforce
  have "slots_are n u" using keepsD [OF assms _ m] s by (simp add: slots_are_def)
  then show "slots_are n t" using run m by (auto simp: slots_are_def db_session_def)
qed

lemma slots_transfer:
  assumes "\<And>k. keeps (slots_are k) m"
  shows "keeps (slots_are n) (transfer_slot m)"
proof (rule keepsI)
  fix s r t
  assume s: "slots_are n s" and run: "transfer_slot m s = (r, t)"
  obtain x u where m: "m (s\<lparr>ap_slots := ap_slots s - 1\<rparr>) = (x, u)" by fastforce
  have "slots_are (n - 1) u" using keepsD [OF assms _ m] s by (simp add: slots_are_def)
  then show "slots_are n t"
    using s run m by (auto simp: slots_are_def transfer_slot_def io_simps split: if_splits)
qed

lemma slots_with_availability [wp]: "keeps (slots_are n) (with_availability fs)"
  unfolding with_availability_def by (intro wp)

lemma slots_owned_file [wp]: "keeps (slots_are n) (owned_file u i)"
  unfolding owned_file_def by (intro wp)

lemma slots_deny [wp]: "keeps (slots_are n) (deny E i ip k)"
  unfolding deny_def by (intro wp)

lemma slots_send_file [wp]: "keeps (slots_are n) (send_file E f ip)"
  unfolding send_file_def by (intro wp)

lemma slots_store_upload [wp]: "keeps (slots_are n) (store_upload E u name ct data ip)"
  unfolding store_upload_def by (intro wp)

lemma slots_answer [wp]: "keeps (slots_are n) (answer k c)"
  unfolding answer_def by (intro wp)

lemma slots_upload_body [wp]: "keeps (slots_are n) (upload_body E fl u ip form)"
  unfolding upload_body_def uploaded_answer_def Let_def by (intro wp)

lemma slots_route: "keeps (slots_are n) (route E fl q)"
  by (cases q)
    (auto simp: post_files_def get_files_def get_file_endpoint_def create_link_def delete_endpoint_def download_file_def
      current_user_def unix_time_def Let_def split: option.split sum.split link_error.split
      intro!: wp slots_session slots_transfer)

lemma respond_slots: "respond E fl q s = (p, t) \<Longrightarrow> ap_slots t = ap_slots s"
  using keepsD [OF slots_route [of "ap_slots s" E fl q], of s]
  by (auto simp: respond_def slots_are_def Let_def split: prod.splits sum.splits)

section \<open>Nothing gets through\<close>

text \<open>Every round trip from now on fails at the statement, and the committed rows and the fleet are those of \<open>w\<close>,
  no request having been sent to a node.\<close>

definition outage :: "world \<Rightarrow> bool" where
  "outage w \<longleftrightarrow> (\<forall>n \<ge> w_trips w. w_dbfault w n = Some StatementFails)"

definition cut_off :: "world \<Rightarrow> world \<Rightarrow> bool" where
  "cut_off w v \<longleftrightarrow> outage v \<and> w_db v = w_db w \<and> w_nodes v = w_nodes w \<and> w_sent v = w_sent w"

definition fails_closed :: "world \<Rightarrow> exn \<Rightarrow> world \<Rightarrow> bool" where
  "fails_closed w e v \<longleftrightarrow> cut_off w v \<and>
     e \<in> {unauthorized, retry_later 429, retry_later 503, ValueErrorRaised, OperationalError}"

lemma fails_closedI:
  "cut_off w v \<Longrightarrow> fails_closed w unauthorized v" "cut_off w v \<Longrightarrow> fails_closed w (retry_later 429) v"
  "cut_off w v \<Longrightarrow> fails_closed w (retry_later 503) v" "cut_off w v \<Longrightarrow> fails_closed w ValueErrorRaised v"
  "cut_off w v \<Longrightarrow> fails_closed w OperationalError v"
  by (simp_all add: fails_closed_def)

lemma cut_off_updates [simp]:
  "cut_off w (v\<lparr>w_tx := d\<rparr>) = cut_off w v" "cut_off w (v\<lparr>w_drawn := k\<rparr>) = cut_off w v"
  "fails_closed w e (v\<lparr>w_tx := d\<rparr>) = fails_closed w e v"
  by (simp_all add: cut_off_def outage_def fails_closed_def)

lemma outage_select: "triple (cut_off w) (db_select f) (\<lambda>_ _. False) (fails_closed w)"
  by (auto simp: triple_def db_select_def db_trip_def Let_def cut_off_def outage_def fails_closed_def)

lemma outage_commit: "triple (cut_off w) db_commit (\<lambda>_ _. False) (fails_closed w)"
  by (auto simp: triple_def db_commit_def Let_def cut_off_def outage_def fails_closed_def)

lemma outage_audit: "triple (cut_off w) (audit_record ev i a ttl ip) (\<lambda>_. cut_off w) (fails_closed w)"
  by (auto simp: triple_def audit_record_def uuid4_def db_stage_def io_simps)

lemma triple_never: "triple (\<lambda>_. False) m Q E"
  by (simp add: triple_def)

lemma outage_user:
  "triple (cut_off w) (get_current_user U a) (\<lambda>_ _. False) (fails_closed w)"
  unfolding get_current_user_def Let_def
  by (auto split: prod.split option.split intro!: triple_raise triple_bnd [OF outage_select] triple_never fails_closedI)

abbreviation cut_api :: "world \<Rightarrow> api \<Rightarrow> bool" where
  "cut_api w s \<equiv> cut_off w (ap_world s)"

abbreviation closed_api :: "world \<Rightarrow> exn \<Rightarrow> api \<Rightarrow> bool" where
  "closed_api w e s \<equiv> fails_closed w e (ap_world s)"

lemma outage_handler:
  "triple (cut_api w) (db_session (bnd (current_user E a) f)) (\<lambda>_ _. False) (closed_api w)"
  unfolding current_user_def
  by (rule db_session_triple [where P = "cut_off w" and Q = "\<lambda>_ _. False"])
    (auto intro: triple_bnd [OF on_world_triple [OF outage_user]] triple_never)

lemma outage_deny: "triple (cut_api w) (deny E i ip n) (\<lambda>_ _. False) (closed_api w)"
  unfolding deny_def
proof (rule triple_bnd)
  show "triple (cut_api w) (case uuid_parse (e_ucd E) i of None \<Rightarrow> ret None
      | Some c \<Rightarrow> bnd (on_world (db_select (get_file c))) (\<lambda>f. ret (if f \<noteq> None then Some c else None)))
    (\<lambda>_. cut_api w) (closed_api w)"
    by (auto split: option.split intro!: triple_ret triple_bnd [OF on_world_triple [OF outage_select]] triple_never)
qed (rule triple_bnd [OF on_world_triple [OF outage_audit]], rule triple_bnd [OF on_world_triple [OF outage_commit]],
    rule triple_never)

lemma outage_limit:
  "triple (cut_api w) (enforce_download_limit fl k) (\<lambda>_. cut_api w) (closed_api w)"
  by (rule triple_conseq [OF enforce_limit_triple(2) [where P = "cut_off w"]]) (auto intro: fails_closedI)

lemma outage_download:
  "triple (cut_api w) (download_file E fl ip i xp v kid sig) (\<lambda>_ _. False) (closed_api w)"
proof -
  have time: "triple (cut_api w) unix_time (\<lambda>_. cut_api w) (closed_api w)"
    by (rule triple_conseq [OF unix_time_triple [where P = "cut_off w"]]) auto
  have "triple (cut_api w) (case signing_keys (e_settings E) of Inl e \<Rightarrow> raise ValueErrorRaised
      | Inr keys \<Rightarrow> bnd unix_time (\<lambda>now. case verify (e_ucd E) keys i xp v kid sig now of
            Inl UnicodeEncode \<Rightarrow> raise ValueErrorRaised
          | Inl (InvalidLink reason) \<Rightarrow> deny E i ip 403
          | Inr claims \<Rightarrow> bnd (on_world (db_select (get_file (lc_file_id claims)))) (f claims)))
    (\<lambda>_ _. False) (closed_api w)" for f :: "link_claims \<Rightarrow> file_row option \<Rightarrow> api_resp aio"
    by (auto split: sum.split link_error.split
        intro!: triple_raise triple_bnd [OF time] triple_bnd [OF on_world_triple [OF outage_select]] triple_never
          outage_deny fails_closedI)
  then have "triple (cut_api w) (db_session (seq (enforce_download_limit fl (ip_key ip))
      (case signing_keys (e_settings E) of Inl e \<Rightarrow> raise ValueErrorRaised
      | Inr keys \<Rightarrow> bnd unix_time (\<lambda>now. case verify (e_ucd E) keys i xp v kid sig now of
            Inl UnicodeEncode \<Rightarrow> raise ValueErrorRaised
          | Inl (InvalidLink reason) \<Rightarrow> deny E i ip 403
          | Inr claims \<Rightarrow> bnd (on_world (db_select (get_file (lc_file_id claims)))) (f claims)))))
    (\<lambda>_ _. False) (closed_api w)" for f :: "link_claims \<Rightarrow> file_row option \<Rightarrow> api_resp aio"
    by (intro db_session_triple [where P = "cut_off w" and Q = "\<lambda>_ _. False"] triple_bnd [OF outage_limit]) auto
  then show ?thesis
    unfolding download_file_def
    by (intro transfer_slot_triple [where P = "cut_off w" and Q = "\<lambda>_ _. False"]) (auto intro: fails_closedI)
qed

lemma outage_route:
  assumes "q \<noteq> Healthz"
  shows "triple (cut_api w) (route E fl q) (\<lambda>_ _. False) (closed_api w)"
  using assms outage_handler outage_download
  by (cases q)
    (auto simp: post_files_def get_files_def get_file_endpoint_def create_link_def delete_endpoint_def Let_def
      intro!: transfer_slot_triple [where P = "cut_off w" and Q = "\<lambda>_ _. False"] intro: fails_closedI)

section \<open>Property\<close>

text \<open>
  C17. The service fails closed. While every database statement fails, any request but \<open>/healthz\<close> is answered without content, with 401
  (no plausible key), 429, 500 (text that cannot be encoded) or 503; no file is served, no link made or refused; the
  committed rows are as before, no node is contacted, and the process has as many free transfer slots as before.
\<close>
theorem outage_fails_closed:
  assumes "outage (ap_world s)" and "respond E fl q s = (p, t)" and "q \<noteq> Healthz"
  shows "rs_status p \<in> {401, 429, 500, 503} \<and> rs_content p = Detail \<and> ap_slots t = ap_slots s \<and>
    w_db (ap_world t) = w_db (ap_world s) \<and> w_nodes (ap_world t) = w_nodes (ap_world s) \<and>
    w_sent (ap_world t) = w_sent (ap_world s)"
proof -
  obtain p' where p: "serve E fl q s = (p', t)" "rs_status p' = rs_status p" "rs_content p' = rs_content p"
    using respond_serve [OF assms(2)] by blast
  have "cut_api (ap_world s) s" using assms(1) by (simp add: cut_off_def)
  from serve_cases [OF outage_route [OF assms(3)] this p(1)]
  obtain e where e: "closed_api (ap_world s) e t" "p' = \<lparr>rs_status = status_of e, rs_content = Detail, rs_headers = error_headers e\<rparr>"
    by blast
  then show ?thesis using p(2,3) respond_slots [OF assms(2)] by (auto simp: fails_closed_def cut_off_def)
qed

text \<open>A deletion without a key, and the database gone.\<close>

theorem outage_fails_closed_witness:
  "\<exists>p t. respond example_env id (DeleteFile None None 5) (example_api (example_world\<lparr>w_dbfault := (\<lambda>_. Some StatementFails)\<rparr>)) = (p, t) \<and>
    rs_content p = Detail \<and> w_db (ap_world t) = example_db"
proof -
  let ?s = "example_api (example_world\<lparr>w_dbfault := (\<lambda>_. Some StatementFails)\<rparr>)"
  obtain p t where run: "respond example_env id (DeleteFile None None 5) ?s = (p, t)" by fastforce
  have "outage (ap_world ?s)" by (simp add: outage_def example_api_def)
  from outage_fails_closed [OF this run] run show ?thesis by (auto simp: example_api_def example_world_def)
qed

end
