(* ===== verification/Costs.thy ===== *)
theory Costs
  imports Outage Repairs
begin

text \<open>
  How many requests an operation sends to the nodes before it ends. Every loop of the code walks a list it
  fixed beforehand, and the \<open>while\<close> loop of \<open>fetch_blocks\<close> uses up its candidates, so each operation ends after a number of
  requests that its arguments and the rows of the file bound, whatever the nodes and the database answer.
\<close>

section \<open>Counting\<close>

text \<open>\<open>u\<close> counts the requests so far in a state.\<close>

definition spends :: "('s \<Rightarrow> nat) \<Rightarrow> 's \<Rightarrow> nat \<Rightarrow> ('s, 'e, 'a) io \<Rightarrow> bool" where
  "spends u s n m \<longleftrightarrow> u (snd (m s)) \<le> u s + n"

definition at_most :: "('s \<Rightarrow> nat) \<Rightarrow> nat \<Rightarrow> 's \<Rightarrow> bool" where
  "at_most u c s \<longleftrightarrow> u s \<le> c"

lemma spendsD: "spends u s n m \<Longrightarrow> m s = (r, t) \<Longrightarrow> u t \<le> u s + n"
  by (simp add: spends_def)

lemma spends_free: "keeps (at_most u (u s)) m \<Longrightarrow> spends u s n m"
  unfolding keeps_def at_most_def spends_def by (metis le_refl trans_le_add1)

lemma spends_more: "spends u s k m \<Longrightarrow> k \<le> n \<Longrightarrow> spends u s n m"
  by (simp add: spends_def)

lemma spends_bnd:
  assumes "spends u s a m" and "\<And>x t. m s = (Inr x, t) \<Longrightarrow> spends u t b (f x)" and "a + b \<le> n"
  shows "spends u s n (bnd m f)"
proof (cases "m s")
  case (Pair r t)
  then show ?thesis using assms(1,3) assms(2) [of _ t] by (cases r) (fastforce simp: spends_def bnd_def)+
qed

lemma spends_after:
  assumes "keeps (at_most u (u s)) m" and "\<And>x t. m s = (Inr x, t) \<Longrightarrow> spends u t n (f x)"
  shows "spends u s n (bnd m f)"
  by (rule spends_bnd [OF spends_free [OF assms(1), where n = 0] assms(2)]) simp_all

lemma spends_then:
  assumes "spends u s n m" and "\<And>x c. keeps (at_most u c) (f x)"
  shows "spends u s n (bnd m f)"
  by (rule spends_bnd [OF assms(1) spends_free [OF assms(2), where n = 0]]) simp

lemma spends_catching:
  assumes "spends u s n m" and "\<And>e c. keeps (at_most u c) (h e)"
  shows "spends u s n (catching m h)"
proof (cases "m s")
  case (Pair r t)
  have "u (snd (h e t)) \<le> u t" for e using assms(2) [of "u t" e] by (simp add: keeps_def at_most_def)
  then show ?thesis using Pair assms(1) by (cases r) (auto simp: spends_def catching_def intro: le_trans)
qed

lemma spends_if: "(c \<Longrightarrow> spends u s n m) \<Longrightarrow> (\<not> c \<Longrightarrow> spends u s n m') \<Longrightarrow> spends u s n (if c then m else m')"
  by simp

lemma spends_gather:
  assumes "\<And>x s. spends u s 1 (f x)"
  shows "spends u s (length xs) (gather f xs)"
proof (induction xs arbitrary: s)
  case (Cons x xs)
  have "spends u s 1 (attempt (f x))" using assms [of s x] by (simp add: spends_def attempt_apply)
  then show ?case unfolding gather_Cons
    by (rule spends_bnd [where b = "length xs"]) (auto intro: spends_then [OF Cons] wp)
qed (simp add: spends_def ret_def gather_Nil)

text \<open>The database and the draws cost nothing.\<close>

lemma free_db [wp]:
  "keeps (at_most w_sent c) (db_select f)" "keeps (at_most w_sent c) db_commit" "keeps (at_most w_sent c) (db_stage g)"
  "keeps (at_most w_sent c) (db_execute g)" "keeps (at_most w_sent c) uuid4" "keeps (at_most w_sent c) (random_shuffle xs)"
  by (auto simp: keeps_def at_most_def db_select_def db_execute_def db_trip_def db_commit_def db_stage_def uuid4_def
      random_shuffle_def modify_def Let_def split: option.split db_fault.split prod.split)

lemma free_audit [wp]: "keeps (at_most w_sent c) (audit_record ev i a ttl ip)"
  unfolding audit_record_def by (intro wp)

lemma free_erasure [wp]: "keeps (at_most w_sent c) (lift_erasure r)"
  unfolding lift_erasure_def by (auto split: sum.split intro!: wp)

section \<open>The file service\<close>

lemma spends_request: "spends w_sent w 1 (node_request E a q)"
  by (auto simp: spends_def node_request_def Let_def split: option.split prod.split)

lemma spends_client:
  "spends w_sent w 1 (client_put E a u x)" "spends w_sent w 1 (client_get E a u)" "spends w_sent w 1 (client_delete E a u)"
  unfolding client_put_def client_get_def client_delete_def by (intro spends_then spends_request wp)+

lemma spends_fetch_loop: "spends w_sent w (length rem) (fetch_loop E k c rem)"
proof (induction E k c rem arbitrary: w rule: fetch_loop.induct)
  case (1 E k c rem)
  show ?case
  proof (cases "length c < k \<and> rem \<noteq> []")
    case True
    let ?b = "take (k - length c) rem"
    have batch: "spends w_sent w (length ?b) (get_batch E ?b)"
      unfolding get_batch_def by (rule spends_gather [OF spends_client(2)])
    have fold: "keeps (at_most w_sent n) (foldM collect xs c)" for n xs
      by (intro wp) (auto simp: collect_def split: prod.split sum.split intro!: wp)
    have rest: "spends w_sent v (length rem - (k - length c)) (fetch_loop E k c' (drop (k - length c) rem))" for v c'
      using 1 [OF True refl] by simp
    show ?thesis unfolding fetch_loop_round [OF True]
      by (rule spends_bnd [OF batch spends_after [OF fold rest]]) simp
  qed (simp add: fetch_loop_stop spends_free wp)
qed

lemma candidates_length: "length (candidates_of i X d) \<le> length (placed_shards i d)"
  unfolding candidates_of_def by (simp add: le_trans [OF length_filter_le])

lemma select_result: "db_select f w = (Inr x, v) \<Longrightarrow> x = f (w_tx w) \<and> w_tx v = w_tx w"
  by (auto simp: db_select_def db_trip_def Let_def split: option.splits)

lemma spends_read: "spends w_sent w (length (placed_shards (f_id f) (w_tx w))) (read_file E f)"
  unfolding read_file_def shard_candidates_def
proof (rule spends_after)
  fix cs v
  assume "db_select (candidates_of (f_id f) {}) w = (Inr cs, v)"
  then have "length cs \<le> length (placed_shards (f_id f) (w_tx w))" using candidates_length by (auto dest: select_result)
  then have "spends w_sent v (length (placed_shards (f_id f) (w_tx w))) (fetch_blocks E cs (f_data_shards f))"
    unfolding fetch_blocks_def by (rule spends_more [OF spends_fetch_loop])
  then show "spends w_sent v (length (placed_shards (f_id f) (w_tx w)))
      (bnd (fetch_blocks E cs (f_data_shards f)) (\<lambda>blocks. if length blocks < f_data_shards f then raise FileUnavailableError
       else bnd (lift_erasure (decode (e_zfec E) blocks (f_data_shards f) (f_parity_shards f) (f_size_bytes f)))
          (\<lambda>data. if sha256_hex data \<noteq> f_checksum_sha256 f then raise FileCorruptedError else ret data)))"
    by (rule spends_then) (intro wp)
qed (rule wp)

lemma spends_delete_placed: "spends w_sent w (length ps) (delete_placed E ps)"
  unfolding delete_placed_def by (rule spends_gather [OF spends_client(3)])

lemma free_drop [wp]: "keeps (at_most w_sent n) (foldM drop_confirmed xs c)"
  by (intro wp) (auto simp: drop_confirmed_def split: prod.split sum.split intro!: wp)

lemma spends_remove: "spends w_sent w (length (placed_shards i (w_tx w))) (remove_deleted_shards E i)"
  unfolding remove_deleted_shards_def
  by (rule spends_after) (auto dest!: select_result intro!: wp spends_then [OF spends_delete_placed])

lemma placed_unchanged [simp]:
  "placed_shards i (set_file j g d) = placed_shards i d" "placed_shards i (add_audit r d) = placed_shards i d"
  by (rule placed_same; simp add: set_file_def add_audit_def)+

lemma commit_result: "db_commit w = (Inr x, v) \<Longrightarrow> w_tx v = w_tx w"
  by (auto simp: db_commit_def Let_def split: option.splits db_fault.splits if_splits)

lemma audit_result: "audit_record ev i a ttl ip w = (Inr x, v) \<Longrightarrow> placed_shards j (w_tx v) = placed_shards j (w_tx w)"
  by (auto simp: audit_record_def db_stage_def uuid4_def io_simps)

lemma spends_delete_file: "spends w_sent w (length (placed_shards (f_id f) (w_tx w))) (delete_file E f actor ip)"
proof -
  have remove: "spends w_sent u (length (placed_shards (f_id f) (w_tx w))) (seq (remove_deleted_shards E (f_id f)) (ret ()))"
    if "db_stage (set_file j g) w = (Inr x, v1)" "audit_record ev i a ttl ip v1 = (Inr y, v2)" "db_commit v2 = (Inr z, u)"
    for j g ev i a ttl ip x y z v1 v2 u
    using spends_remove [of u "f_id f" E] that by (intro spends_then wp) (auto simp: db_stage_def dest!: commit_result audit_result [where j = "f_id f"])
  show ?thesis
    unfolding delete_file_def
    by (rule spends_after, rule wp, simp)
      (rule spends_after, rule wp, rule spends_after, rule wp, rule spends_after, rule wp, rule remove, assumption+)
qed

lemma spends_roll_back: "spends w_sent w (length ps) (roll_back_upload E f ps)"
  unfolding roll_back_upload_def by (rule spends_then [OF spends_delete_placed]) (intro wp)

lemma spends_put_placed: "spends w_sent w (length ps) (put_placed E ps)"
  unfolding put_placed_def by (rule spends_gather [OF spends_client(1)])

lemma free_make_shards [wp]: "keeps (at_most w_sent n) (make_shards now i k placement blocks)"
  unfolding make_shards_def by (intro wp)

lemma free_sample [wp]: "keeps (at_most w_sent n) (random_sample xs k)"
  unfolding random_sample_def by (intro wp)

lemma spends_upload: "spends w_sent w (2 * (k + m)) (upload_file E owner filename content_type data k m ip)"
proof -
  have last: "spends w_sent v (2 * (k + m))
      (bnd (put_placed E (zip (zip shards placement) blocks)) (\<lambda>results.
       if list_ex is_failure results
       then seq (roll_back_upload E f (zip shards placement)) (raise UploadFailedError)
       else seq (db_stage g) (seq (audit_record ev i a ttl ip) (seq db_commit (ret f')))))"
    if "length placement \<le> k + m" for v shards placement blocks f f' g ev i a ttl
  proof (rule spends_bnd [where a = "k + m" and b = "k + m"])
    show "spends w_sent v (k + m) (put_placed E (zip (zip shards placement) blocks))"
      using that by (intro spends_more [OF spends_put_placed]) simp
    show "spends w_sent t (k + m)
      (if list_ex is_failure results
       then seq (roll_back_upload E f (zip shards placement)) (raise UploadFailedError)
       else seq (db_stage g) (seq (audit_record ev i a ttl ip) (seq db_commit (ret f'))))" for results t
      using that by (intro spends_if spends_then [OF spends_more [OF spends_roll_back]] spends_free wp) simp_all
  qed simp
  have sample: "length xs \<le> n" if "random_sample ys n v = (Inr xs, t)" for ys n v xs t
    using that by (auto simp: random_sample_def random_shuffle_def io_simps)
  show ?thesis
    unfolding upload_file_def healthy_nodes_def Let_def
    by (intro spends_after spends_if last sample wp spends_free)
qed

section \<open>Handlers\<close>

abbreviation api_sent :: "api \<Rightarrow> nat" where
  "api_sent s \<equiv> w_sent (ap_world s)"

lemma spends_on_world: "spends w_sent (ap_world s) n m \<Longrightarrow> spends api_sent s n (on_world m)"
  by (auto simp: spends_def on_world_def split: prod.split)

lemma free_on_world [wp]:
  assumes "\<And>c. keeps (at_most w_sent c) m"
  shows "keeps (at_most api_sent c) (on_world m)"
proof (rule keepsI)
  fix s r t
  assume s: "at_most api_sent c s" and run: "on_world m s = (r, t)"
  obtain v where m: "m (ap_world s) = (r, v)" "ap_world t = v" using run by (auto simp: on_world_def split: prod.splits)
  show "at_most api_sent c t" using keepsD [OF assms _ m(1), of c] s m(2) by (simp add: at_most_def)
qed

lemma free_limits [wp]:
  "keeps (at_most api_sent c) (enforce_api_limit fl k)" "keeps (at_most api_sent c) (enforce_download_limit fl k)"
  by (auto simp: keeps_def at_most_def enforce_api_limit_def enforce_download_limit_def split: prod.split)

lemma spends_db_session:
  assumes "spends api_sent (s\<lparr>ap_world := (ap_world s)\<lparr>w_tx := w_db (ap_world s)\<rparr>\<rparr>) n m"
  shows "spends api_sent s n (db_session m)"
  using assms by (auto simp: spends_def db_session_def split: prod.split)

lemma spends_transfer_slot:
  assumes "\<And>k. spends api_sent (s\<lparr>ap_slots := k\<rparr>) n m"
  shows "spends api_sent s n (transfer_slot m)"
proof (cases "m (s\<lparr>ap_slots := ap_slots s - 1\<rparr>)")
  case (Pair r t)
  have "api_sent t \<le> api_sent s + n" using spendsD [OF assms Pair] by simp
  then show ?thesis using Pair by (auto simp: spends_def transfer_slot_def io_simps)
qed

lemma free_user [wp]: "keeps (at_most w_sent c) (get_current_user U a)"
  unfolding get_current_user_def Let_def by (intro wp)

lemma select_keeps: "triple (\<lambda>w. w_tx w = d) (db_select f) (\<lambda>x w. w_tx w = d \<and> x = f d) (\<lambda>_ _. True)"
  by (rule triple_conseq [OF db_select_triple [where P = "\<lambda>w. w_tx w = d"]]) (auto simp: steady_def)

lemma user_result: "current_user E a s = (Inr u, t) \<Longrightarrow> w_tx (ap_world t) = w_tx (ap_world s)"
proof -
  let ?P = "\<lambda>w. w_tx w = w_tx (ap_world s)"
  have "triple ?P (get_current_user (e_ucd E) a) (\<lambda>_. ?P) (\<lambda>_ _. True)"
    unfolding get_current_user_def Let_def
    by (auto split: prod.split option.split intro!: triple_raise triple_ret triple_bnd [OF select_keeps])
  then show ?thesis if "current_user E a s = (Inr u, t)"
    using triple_InrD [OF on_world_triple _ that [unfolded current_user_def]] by blast
qed

lemma spends_authed:
  assumes "\<And>u t. w_tx (ap_world t) = w_db (ap_world s) \<Longrightarrow> spends api_sent t n (f u)"
  shows "spends api_sent s n (db_session (bnd (current_user E a) f))"
proof (rule spends_db_session, rule spends_after)
  let ?s = "s\<lparr>ap_world := (ap_world s)\<lparr>w_tx := w_db (ap_world s)\<rparr>\<rparr>"
  show "keeps (at_most api_sent (api_sent ?s)) (current_user E a)" unfolding current_user_def by (intro wp)
  show "spends api_sent t n (f u)" if "current_user E a ?s = (Inr u, t)" for u t
    using user_result [OF that] by (intro assms) simp
qed

lemma free_parts [wp]:
  "keeps (at_most api_sent c) (with_availability fs)" "keeps (at_most api_sent c) (owned_file u i)"
  "keeps (at_most api_sent c) unix_time" "keeps (at_most api_sent c) (answer k x)" "keeps (at_most api_sent c) (deny E j ip k)"
  unfolding with_availability_def file_availability_def owned_file_def unix_time_def answer_def deny_def by (intro wp)+

lemma owned_result:
  assumes "owned_file u i s = (Inr f, t)"
  shows "f_id f = i \<and> w_tx (ap_world t) = w_tx (ap_world s)"
proof -
  let ?d = "w_tx (ap_world s)"
  have "triple (\<lambda>s. w_tx (ap_world s) = ?d) (owned_file u i) (\<lambda>f s. f_id f = i \<and> w_tx (ap_world s) = ?d) (\<lambda>_ _. True)"
    unfolding owned_file_def
    by (rule triple_bnd [OF on_world_triple [OF select_keeps]])
      (auto split: option.split intro!: triple_raise triple_ret dest: owned_id [OF sym])
  from triple_InrD [OF this _ assms] show ?thesis by simp
qed

text \<open>What a request may send: two for each shard of an upload, one for each shard of the file it names.\<close>

fun budget :: "env \<Rightarrow> api_request \<Rightarrow> db \<Rightarrow> nat" where
  "budget E (PostFiles a ip form) d = 2 * (nat (shard_data_count (e_settings E)) + nat (shard_parity_count (e_settings E)))"
| "budget E (DeleteFile a ip i) d = length (placed_shards i d)"
| "budget E (Download ip i xp v kid sig) d =
     (case uuid_parse (e_ucd E) i of None \<Rightarrow> 0 | Some j \<Rightarrow> length (placed_shards j d))"
| "budget E q d = 0"

lemma spends_post: "spends api_sent s (budget E (PostFiles a ip form) d) (post_files E fl a ip form)"
proof -
  let ?n = "2 * (nat (shard_data_count (e_settings E)) + nat (shard_parity_count (e_settings E)))"
  have store: "spends api_sent t ?n (store_upload E u filename ct data ip)" for t u filename ct data
    unfolding store_upload_def
    by (rule spends_catching) (auto split: option.split intro: spends_on_world [OF spends_more [OF spends_upload]] spends_free wp)
  have stored: "spends api_sent t ?n (bnd (store_upload E u filename ct data ip) uploaded_answer)" for t u filename ct data
    by (rule spends_then [OF store]) (auto simp: uploaded_answer_def intro!: wp)
  show ?thesis
    unfolding post_files_def upload_body_def Let_def budget.simps
    by (rule spends_transfer_slot, rule spends_authed, rule spends_after)
      (auto split: option.split intro: spends_free wp stored [simplified])
qed

lemma spends_delete: "spends api_sent s (budget E (DeleteFile a ip i) (w_db (ap_world s))) (delete_endpoint E a ip i)"
  unfolding delete_endpoint_def budget.simps
proof (rule spends_authed, rule spends_after)
  fix u t f v
  assume "w_tx (ap_world t) = w_db (ap_world s)" and "owned_file u i t = (Inr f, v)"
  then have "placed_shards (f_id f) (w_tx (ap_world v)) = placed_shards i (w_db (ap_world s))" by (auto dest: owned_result)
  then show "spends api_sent v (length (placed_shards i (w_db (ap_world s)))) (seq (on_world (delete_file E f u ip)) (answer 204 NoBody))"
    using spends_delete_file [of "ap_world v" f E u ip] by (intro spends_then spends_on_world wp) simp
qed (rule wp)

lemma verify_id: "verify U keys i xp v kid sig now = Inr claims \<Longrightarrow> uuid_parse U i = Some (lc_file_id claims)"
  by (auto simp: verify_def Let_def split: option.splits if_splits)

lemma spends_raise: "spends u s n (raise e)"
  by (simp add: spends_def raise_def)

lemma spends_deny: "spends api_sent s n (deny E j ip k)"
  by (rule spends_free) (rule wp)

lemma spends_download: "spends api_sent s (budget E (Download ip i xp v kid sig) (w_db (ap_world s))) (download_file E fl ip i xp v kid sig)"
proof -
  let ?d = "w_db (ap_world s)" and ?n = "budget E (Download ip i xp v kid sig) (w_db (ap_world s))"
  have send: "spends api_sent t ?n (send_file E f ip)"
    if "w_tx (ap_world t) = ?d" "uuid_parse (e_ucd E) i = Some (f_id f)" for t f
    unfolding send_file_def
    using that spends_on_world [OF spends_read [of "ap_world t" f E]]
    by (intro spends_then spends_catching) (auto split: option.split intro!: wp)
  have found: "spends api_sent t ?n (case found of None \<Rightarrow> deny E i ip 404
      | Some f \<Rightarrow> if f_status f \<noteq> Available then deny E i ip 404
          else if f_link_version f \<noteq> lc_version claims then deny E i ip 403 else send_file E f ip)"
    if "verify (e_ucd E) keys i xp v kid sig now = Inr claims" "w_tx (ap_world t0) = ?d"
      "on_world (db_select (get_file (lc_file_id claims))) t0 = (Inr found, t)" for t t0 found claims keys now
  proof -
    have "w_tx (ap_world t) = ?d \<and> found = get_file (lc_file_id claims) ?d"
      using triple_InrD [OF on_world_triple [OF select_keeps] that(2,3)] by simp
    then show ?thesis using verify_id [OF that(1)]
      by (auto simp del: budget.simps split: option.split intro!: send spends_deny dest: get_file_Some)
  qed
  have judged: "spends api_sent t ?n (case verify (e_ucd E) keys i xp v kid sig now of
        Inl UnicodeEncode \<Rightarrow> raise ValueErrorRaised
      | Inl (InvalidLink reason) \<Rightarrow> deny E i ip 403
      | Inr claims \<Rightarrow> bnd (on_world (db_select (get_file (lc_file_id claims)))) (\<lambda>found. case found of
            None \<Rightarrow> deny E i ip 404
          | Some f \<Rightarrow> if f_status f \<noteq> Available then deny E i ip 404
              else if f_link_version f \<noteq> lc_version claims then deny E i ip 403 else send_file E f ip))"
    if "w_tx (ap_world t) = ?d" for t keys now
  proof (cases "verify (e_ucd E) keys i xp v kid sig now")
    case (Inr claims)
    then show ?thesis by (simp del: budget.simps) (rule spends_after, (intro wp), rule found [OF Inr that])
  qed (simp del: budget.simps add: spends_raise spends_deny split: link_error.split)
  have checked: "spends api_sent t ?n (case signing_keys (e_settings E) of Inl e \<Rightarrow> raise ValueErrorRaised
      | Inr keys \<Rightarrow> bnd unix_time (\<lambda>now. case verify (e_ucd E) keys i xp v kid sig now of
            Inl UnicodeEncode \<Rightarrow> raise ValueErrorRaised
          | Inl (InvalidLink reason) \<Rightarrow> deny E i ip 403
          | Inr claims \<Rightarrow> bnd (on_world (db_select (get_file (lc_file_id claims)))) (\<lambda>found. case found of
                None \<Rightarrow> deny E i ip 404
              | Some f \<Rightarrow> if f_status f \<noteq> Available then deny E i ip 404
                  else if f_link_version f \<noteq> lc_version claims then deny E i ip 403 else send_file E f ip)))"
    if "w_tx (ap_world t) = ?d" for t
  proof (cases "signing_keys (e_settings E)")
    case (Inr keys)
    then show ?thesis
      by (simp del: budget.simps) (rule spends_after, (intro wp), rule judged, simp add: unix_time_def that)
  qed (simp del: budget.simps add: spends_raise)
  show ?thesis
    unfolding download_file_def
    by (intro spends_transfer_slot spends_db_session spends_after checked wp)
      (auto simp: enforce_download_limit_def split: prod.splits if_splits)
qed

lemma respond_budget:
  assumes "respond E fl q s = (p, t)"
  shows "w_sent (ap_world t) \<le> w_sent (ap_world s) + budget E q (w_db (ap_world s))"
proof -
  note free = spends_authed spends_after spends_if spends_free wp
  have "spends api_sent s (budget E q (w_db (ap_world s))) (route E fl q)"
  proof (cases q)
    case (GetFiles a limit offset)
    then show ?thesis by (simp add: get_files_def) (intro free)
  next
    case (GetFile a i)
    then show ?thesis by (simp add: get_file_endpoint_def) (intro free)
  next
    case (CreateLink a ip i ttl)
    then show ?thesis by (simp add: create_link_def) (unfold Let_def, intro free)
  next
    case Healthz
    then show ?thesis by simp (intro free)
  qed (simp_all only: route.simps spends_post spends_delete spends_download)
  then show ?thesis using assms
    by (auto simp: spends_def respond_def Let_def split: prod.splits sum.splits)
qed

section \<open>Repairs\<close>

lemma spends_repair_shard: "spends w_sent w 2 (repair_shard E r n)"
proof -
  have delete: "spends w_sent v 1 (seq (db_execute g) (seq db_commit (seq (catching (client_delete E a u)
      (\<lambda>e. if is_NodeError e then ret () else raise e)) (ret k))))" for v g a u k
    by (intro spends_after spends_then spends_catching spends_client wp)
  have put: "spends w_sent v 1 (attempt (client_put E a u x))" for v a u x
    using spends_client(1) [of v E a u x] by (simp add: spends_def attempt_apply)
  show ?thesis
    unfolding repair_shard_def
    by (auto split: prod.split sum.split intro!: spends_free [of w_sent _ "ret _"] spends_after [of w_sent _ uuid4]
        spends_after [of w_sent _ "gets _"] spends_bnd [OF put, where b = 1] spends_free [of w_sent _ "raise _"] delete [simplified] wp)
qed

lemma spends_foldM:
  assumes "\<And>x b s. spends u s k (f x b)"
  shows "spends u s (k * length xs) (foldM f xs b)"
proof (induction xs arbitrary: s b)
  case (Cons x xs)
  show ?case by (simp, rule spends_bnd [OF assms Cons]) simp
qed (simp add: spends_def ret_def)

lemma free_regenerate [wp]: "keeps (at_most w_sent c) healthy_nodes"
  unfolding healthy_nodes_def by (rule wp)

lemma spends_repair_found:
  assumes "w_tx v = d" and "f_id f = i"
  shows "spends w_sent v (2 * length (placed_shards i d)) (repair_found E i bad f)"
proof -
  let ?placed = "placed_shards i d"
  let ?bad = "filter (\<lambda>p. s_id (fst p) \<in> bad) ?placed" and ?good = "filter (\<lambda>p. s_id (fst p) \<notin> bad) ?placed"
  have parts: "length ?bad + length ?good = length ?placed" by (rule sum_length_filter_compl)
  have good: "length (candidates_of i bad d) \<le> length ?good"
    unfolding candidates_of_def by (auto intro: filter_mono_length)
  have rebuild: "spends w_sent u (2 * length ?bad) (repair_with E f ?placed ?bad blocks)" for u blocks
    unfolding repair_with_def
    by (intro spends_after wp) (auto intro!: spends_more [OF spends_foldM [OF spends_repair_shard]])
  have fetched: "spends w_sent u (2 * length ?placed) (bnd (fetch_blocks E cs (f_data_shards f)) (\<lambda>blocks.
      if length blocks < f_data_shards f then ret 0 else repair_with E f ?placed ?bad blocks))"
    if "length cs \<le> length ?good" for u cs
    unfolding fetch_blocks_def using that parts
    by (intro spends_bnd [OF spends_fetch_loop, where b = "2 * length ?bad"] spends_if rebuild spends_free wp) simp
  show ?thesis
    unfolding repair_found_def Let_def shard_candidates_def
  proof (rule spends_after, rule wp)
    fix placed u
    assume "db_select (placed_shards i) v = (Inr placed, u)"
    then have u: "w_tx u = d" "placed = ?placed" using assms(1) by (auto dest: select_result)
    have "spends w_sent t (2 * length ?placed) (bnd (fetch_blocks E cs (f_data_shards f)) (\<lambda>blocks.
        if length blocks < f_data_shards f then ret 0 else repair_with E f ?placed ?bad blocks))"
      if "db_select (candidates_of (f_id f) bad) u = (Inr cs, t)" for cs t
      using that u(1) assms(2) good by (intro fetched) (auto dest: select_result)
    then show "spends w_sent u (2 * length ?placed) (bnd (db_select (candidates_of (f_id f) bad)) (\<lambda>good.
        bnd (fetch_blocks E good (f_data_shards f)) (\<lambda>blocks. if length blocks < f_data_shards f then ret 0
          else repair_with E f placed (filter (\<lambda>p. s_id (fst p) \<in> bad) placed) blocks)))"
      unfolding u(2) by (rule spends_after [rotated]) (assumption, rule wp)
  qed
qed

lemma spends_repair_file: "spends w_sent w (2 * length (placed_shards i (w_db w))) (repair_file E i bad)"
proof -
  let ?n = "2 * length (placed_shards i (w_db w))"
  have inner: "spends w_sent v ?n (bnd (db_select (get_file i)) (\<lambda>found. case found of None \<Rightarrow> ret 0
      | Some f \<Rightarrow> if f_status f \<noteq> Available then ret 0 else repair_found E i bad f))" if v: "w_tx v = w_db w" for v
  proof (rule spends_after, rule wp)
    fix x u
    assume "db_select (get_file i) v = (Inr x, u)"
    then have u: "w_tx u = w_db w" "x = get_file i (w_db w)" using v by (auto dest: select_result)
    show "spends w_sent u ?n (case x of None \<Rightarrow> ret 0
        | Some f \<Rightarrow> if f_status f \<noteq> Available then ret 0 else repair_found E i bad f)"
    proof (cases x)
      case (Some f)
      then have "f_id f = i" using u(2) get_file_Some by metis
      then have "spends w_sent u ?n (repair_found E i bad f)" by (rule spends_repair_found [OF u(1)])
      then show ?thesis using Some by (simp add: spends_free wp)
    qed (simp add: spends_free wp)
  qed
  have "w_sent (snd (with_session m w)) = w_sent (snd (m (w\<lparr>w_tx := w_db w\<rparr>)))" for m :: "nat wio"
    by (simp add: with_session_def split: prod.split)
  then show ?thesis using inner [of "w\<lparr>w_tx := w_db w\<rparr>"] by (simp add: spends_def repair_file_def)
qed

section \<open>Property\<close>

text \<open>
  C16. Requests and repairs end. Whatever the nodes, the network and the database answer, a request ends, with as
  many free transfer slots as before, after at most two messages to nodes for each shard of an upload, one for each
  recorded shard of the file a DELETE or a download names, and none for any other request; the repair of a file ends
  after at most two for each of its recorded shards.
\<close>
theorem requests_end:
  assumes "respond E fl q s = (p, t)"
  shows "w_sent (ap_world t) \<le> w_sent (ap_world s) + budget E q (w_db (ap_world s)) \<and> ap_slots t = ap_slots s \<and>
    (\<forall>i bad w. w_sent (snd (repair_file E i bad w)) \<le> w_sent w + 2 * length (placed_shards i (w_db w)))"
  using respond_budget [OF assms] respond_slots [OF assms] spends_repair_file by (auto simp: spends_def)

text \<open>A listing sends nothing.\<close>

theorem requests_end_witness:
  "\<exists>p t. respond example_env id (GetFiles None 10 0) (example_api example_world) = (p, t) \<and> w_sent (ap_world t) = 0"
proof -
  obtain p t where run: "respond example_env id (GetFiles None 10 0) (example_api example_world) = (p, t)" by fastforce
  from requests_end [OF run] run show ?thesis by (simp add: example_api_def example_world_def)
qed

end
