(* ===== verification/Healing.thy ===== *)
theory Healing
  imports Repairs
begin

text \<open>
  When a repair goes through: with k readable shards, healthy spare nodes that answer, new identifiers and a
  database that works, \<open>repair_file\<close> rebuilds every bad shard of the file.
\<close>

section \<open>Moving one shard\<close>

lemma constraints_moved:
  assumes d: "constraints_ok d" and s: "s \<in> set (shards d)" and t: "t \<in> set (nodes d)"
    and new: "u \<notin> s_id ` set (shards d)"
  shows "constraints_ok (moved s u t now d)"
proof -
  let ?g = "\<lambda>r. if s_id r = s_id s then r\<lparr>s_id := u, s_node_id := n_id t, s_created_at := now\<rparr> else r"
  have shards: "shards (moved s u t now d) = map ?g (shards d)" by (simp add: moved_def set_shard_def)
  have keys: "map (\<lambda>r. (s_file_id r, s_shard_index r)) (map ?g (shards d)) = map (\<lambda>r. (s_file_id r, s_shard_index r)) (shards d)"
    by simp
  have "map s_id (map ?g (shards d)) = map (\<lambda>i. if i = s_id s then u else i) (map s_id (shards d))" by simp
  moreover have "distinct (map (\<lambda>i. if i = s_id s then u else i) (map s_id (shards d)))"
    using constraints_okD(2) [OF d] new by (subst distinct_map) (auto simp: keys_unique_def inj_on_def)
  ultimately have "keys_unique (moved s u t now d)"
    using constraints_okD(2) [OF d] keys unfolding keys_unique_def shards by (metis moved_tables)
  moreover have "row_types_ok (moved s u t now d)"
    using d by (auto simp: constraints_ok_def row_types_ok_def shards list_all_iff shard_ok_def)
  moreover have "references_ok (moved s u t now d)"
    by (rule references_okI) (use references_okD [OF constraints_okD(3) [OF d]] t in \<open>auto simp: shards\<close>)
  ultimately show ?thesis by (simp add: constraints_ok_def)
qed

lemma client_delete_error:
  "client_delete E a u w = (Inl e, v) \<Longrightarrow> no_client_bug w \<Longrightarrow> is_NodeError e"
  by (auto simp: client_delete_def bnd_apply is_NodeError_def node_request_def Let_def io_simps no_client_bug_def
      split: prod.splits sum.splits if_splits option.splits)

lemma client_delete_fits: "node_fits (snd (client_delete E a u w)) b z = node_fits w b z"
proof -
  obtain s w' where s: "node_request E a (plain_req E DELETE u) w = (s, w')" by fastforce
  then have "node_fits w' b z = node_fits w b z"
    by (cases rule: node_request_cases) (auto simp: node_fits_def)
  then show ?thesis using s by (simp add: client_delete_def snd_bnd raise_apply ret_apply)
qed

text \<open>The environment lets the moves of \<open>todo\<close> through.\<close>

definition movable :: "env \<Rightarrow> repair list \<Rightarrow> world \<Rightarrow> bool" where
  "movable E todo w \<longleftrightarrow> (\<forall>j. w_dbfault w j = None) \<and> no_client_bug w \<and> ids_fresh w (length todo) \<and>
     (\<forall>(p, b, t) \<in> set todo. sha256_hex b = s_checksum_sha256 (fst p) \<and> node_ready E w (n_address t) \<and>
        node_fits w (n_address t) b)"

lemma ids_fresh_less:
  assumes fresh: "ids_fresh w (Suc c)" and draws: "w_uuids v = w_uuids w" "w_drawn v = Suc (w_drawn w)"
    and tables: "files (w_db v) = files (w_db w)" "audits (w_db v) = audits (w_db w)" "nodes (w_db v) = nodes (w_db w)"
    and ids: "s_id ` set (shards (w_db v)) \<subseteq> insert (w_uuids w (w_drawn w)) (s_id ` set (shards (w_db w)))"
    and held: "\<And>a u. u \<noteq> w_uuids w (w_drawn w) \<Longrightarrow> held w a u = None \<Longrightarrow> held v a u = None"
  shows "ids_fresh v c"
proof -
  let ?U = "w_uuids w (w_drawn w)" and ?us = "map (w_uuids w) [Suc (w_drawn w)..<Suc (w_drawn w) + c]"
  have split: "map (w_uuids w) [w_drawn w..<w_drawn w + Suc c] = ?U # ?us" by (simp add: upt_conv_Cons del: upt_Suc)
  have all: "distinct (?U # ?us)" "\<And>u. u \<in> set (?U # ?us) \<Longrightarrow> u \<notin> f_id ` set (files (w_db w)) \<and> u \<notin> s_id ` set (shards (w_db w)) \<and>
        u \<notin> a_id ` set (audits (w_db w)) \<and> (\<forall>n \<in> set (nodes (w_db w)). held w (n_address n) u = None)"
    using fresh unfolding ids_fresh_def split by blast+
  have "u \<notin> f_id ` set (files (w_db v)) \<and> u \<notin> s_id ` set (shards (w_db v)) \<and>
        u \<notin> a_id ` set (audits (w_db v)) \<and> (\<forall>n \<in> set (nodes (w_db v)). held v (n_address n) u = None)" if u: "u \<in> set ?us" for u
  proof -
    have "u \<noteq> ?U" using all(1) u unfolding distinct.simps(2) by metis
    then show ?thesis using all(2) [of u] u ids held unfolding tables by auto
  qed
  then show ?thesis using all(1) by (simp add: ids_fresh_def draws)
qed

text \<open>From \<open>w\<close> to \<open>v\<close> one identifier was drawn and used, the rows of one shard moved, and nodes kept their qualities.\<close>

lemma movable_after:
  assumes m: "movable E (r # todo) w"
    and same: "w_uuids v = w_uuids w" "w_drawn v = Suc (w_drawn w)" "w_dbfault v = w_dbfault w" "w_net v = w_net w"
    and tables: "files (w_db v) = files (w_db w)" "audits (w_db v) = audits (w_db w)" "nodes (w_db v) = nodes (w_db w)"
    and ids: "s_id ` set (shards (w_db v)) \<subseteq> insert (w_uuids w (w_drawn w)) (s_id ` set (shards (w_db w)))"
    and held: "\<And>a u. u \<noteq> w_uuids w (w_drawn w) \<Longrightarrow> held w a u = None \<Longrightarrow> held v a u = None"
    and ready: "\<And>a. node_ready E w a \<Longrightarrow> node_ready E v a" and fits: "\<And>a x. node_fits v a x = node_fits w a x"
  shows "movable E todo v"
proof -
  have "ids_fresh w (Suc (length todo))" using m by (simp add: movable_def)
  from ids_fresh_less [OF this same(1,2) tables ids held] show ?thesis
    using m ready unfolding movable_def by (auto simp: same fits no_client_bug_def)
qed

text \<open>Sending the rebuilt block.\<close>

lemma put_rebuilt_run:
  assumes w: "fleet_ok w" and m: "movable E (((s, n), b, t) # todo) w" and t: "t \<in> set (nodes (w_db w))"
  defines "u \<equiv> w_uuids w (w_drawn w)"
  obtains v where "client_put E (n_address t) u b (w\<lparr>w_drawn := Suc (w_drawn w)\<rparr>) = (Inr (), v)" "fleet_ok v"
    "rest_of v = rest_of (w\<lparr>w_drawn := Suc (w_drawn w)\<rparr>)" "held v (n_address t) u = Some (shard_file b)"
    "\<And>c x. (c, x) \<noteq> (n_address t, u) \<Longrightarrow> held v c x = held w c x"
    "\<And>a. node_ready E w a \<Longrightarrow> node_ready E v a" "\<And>a x. node_fits v a x = node_fits w a x"
proof -
  let ?w = "w\<lparr>w_drawn := Suc (w_drawn w)\<rparr>"
  have env: "node_ready E w (n_address t)" "node_fits w (n_address t) b" "held w (n_address t) u = None"
    using m t ids_freshD(4) [of w "Suc (length todo)" 0 t] by (simp_all add: movable_def u_def)
  obtain y v where put: "client_put E (n_address t) u b ?w = (y, v)" by fastforce
  have fleet: "fleet_ok ?w" using w by simp
  have y: "y = Inr ()" using fleet.put_ready [OF fleet, of E "n_address t" b u] env put by simp
  note l = fleet.put_law [OF fleet put, unfolded y]
  have "node_ready E v a" if "node_ready E w a" for a
    using fleet.ready_law [OF fleet, of E a] that put by (metis node_ready_updates(4) snd_conv)
  moreover have "node_fits v a x = node_fits w a x" for a x
    using client_put_fits [of E "n_address t" u b ?w a x] put by simp
  ultimately show ?thesis using that [of v] put l unfolding y by auto
qed

text \<open>Deleting the old shard, whose answer does not matter.\<close>

lemma drop_old_run:
  assumes w: "fleet_ok w" and bug: "no_client_bug w"
  obtains v where "catching (client_delete E a u) (\<lambda>e. if is_NodeError e then ret () else raise e) w = (Inr (), v)"
    "fleet_ok v" "rest_of v = rest_of w" "\<And>c x. (c, x) \<noteq> (a, u) \<Longrightarrow> held v c x = held w c x"
    "held v a u = held w a u \<or> held v a u = None"
    "\<And>c. node_ready E w c \<Longrightarrow> node_ready E v c" "\<And>c x. node_fits v c x = node_fits w c x"
proof -
  obtain z v where del: "client_delete E a u w = (z, v)" by fastforce
  note l = fleet.del_law [OF w del]
  have "is_NodeError e" if "z = Inl e" for e using client_delete_error [OF _ bug] del that by simp
  then have "catching (client_delete E a u) (\<lambda>e. if is_NodeError e then ret () else raise e) w = (Inr (), v)"
    using del by (cases z) (simp_all add: catching_apply ret_def)
  moreover have "node_ready E v c" if "node_ready E w c" for c
    using fleet.ready_law [OF w, of E c] that del by (metis snd_conv)
  moreover have "node_fits v c x = node_fits w c x" for c x using client_delete_fits [of E a u w c x] del by simp
  ultimately show ?thesis using that [of v] l by auto
qed

lemma repair_shard_run:
  assumes d: "constraints_ok d" and r: "repairable d i (((s, n), b, t) # todo)" and w: "rows d w" "fleet_ok w"
    and m: "movable E (((s, n), b, t) # todo) w"
  obtains v where "repair_shard E ((s, n), b, t) cnt w = (Inr (cnt + 1), v)" "movable E todo v"
    "intact (w_db v) (held v) i (s_shard_index s) (s_checksum_sha256 s)"
proof -
  let ?U = "w_uuids w (w_drawn w)"
  note x = repairableD [OF r]
  have db: "w_db w = d" "w_tx w = d" using w(1) by (simp_all add: rows_def)
  have env: "w_dbfault w j = None" "no_client_bug w" "ids_fresh w (Suc (length todo))" "sha256_hex b = s_checksum_sha256 s" for j
    using m by (simp_all add: movable_def)
  have new: "?U \<notin> s_id ` set (shards d)" using ids_freshD(2) [OF env(3), of 0] by (simp add: db)
  obtain w2 where put: "client_put E (n_address t) ?U b (w\<lparr>w_drawn := Suc (w_drawn w)\<rparr>) = (Inr (), w2)" "fleet_ok w2"
    and rest2: "rest_of w2 = rest_of (w\<lparr>w_drawn := Suc (w_drawn w)\<rparr>)"
    and held2: "held w2 (n_address t) ?U = Some (shard_file b)" "\<And>c x. (c, x) \<noteq> (n_address t, ?U) \<Longrightarrow> held w2 c x = held w c x"
    and node2: "\<And>a. node_ready E w a \<Longrightarrow> node_ready E w2 a" "\<And>a x. node_fits w2 a x = node_fits w a x"
    by (rule put_rebuilt_run [OF w(2) m, unfolded db(1), OF x(5)]) (rule that)
  note f2 = rest_of_rows [OF rest2] rest_of_fields [OF rest2]
  define d' where "d' = moved s ?U t (w_now w2) d"
  define w4 where "w4 = w2\<lparr>w_tx := d', w_trips := Suc (Suc (w_trips w2)), w_db := d'\<rparr>"
  have d': "constraints_ok d'" unfolding d'_def by (rule constraints_moved [OF d x(1,5) new])
  have w4: "fleet_ok w4" "no_client_bug w4" using put(2) env(2) f2 by (simp_all add: w4_def no_client_bug_def)
  obtain v where del: "catching (client_delete E (n_address n) (s_id s)) (\<lambda>e. if is_NodeError e then ret () else raise e) w4 = (Inr (), v)"
    and "fleet_ok v" and rest5: "rest_of v = rest_of w4"
    and held5: "\<And>c x. (c, x) \<noteq> (n_address n, s_id s) \<Longrightarrow> held v c x = held w4 c x"
      "held v (n_address n) (s_id s) = held w4 (n_address n) (s_id s) \<or> held v (n_address n) (s_id s) = None"
    and node5: "\<And>c. node_ready E w4 c \<Longrightarrow> node_ready E v c" "\<And>c x. node_fits v c x = node_fits w4 c x"
    by (rule drop_old_run [OF w4, of E "n_address n" "s_id s"]) (rule that)
  have run: "repair_shard E ((s, n), b, t) cnt w = (Inr (cnt + 1), v)"
    using env(1,4) put(1) del d' f2
    by (simp add: repair_shard_def uuid4_def bnd_apply attempt_apply io_simps db_execute_def db_trip_def
        db_commit_def Let_def w4_def d'_def moved_def db)
  have f5: "w_db v = d'" "w_uuids v = w_uuids w" "w_drawn v = Suc (w_drawn w)" "w_dbfault v = w_dbfault w" "w_net v = w_net w"
    using rest_of_rows [OF rest5] rest_of_fields [OF rest5] f2 by (simp_all add: w4_def)
  have "s_id s \<noteq> ?U" using new imageI [OF x(1), of s_id] by metis
  then have "held v (n_address t) ?U = Some (shard_file b)" using held5(1) [of "n_address t" ?U] held2(1) by (simp add: w4_def)
  moreover have "(moved_row s ?U t (w_now w2), t) \<in> set (placed_shards i d')"
    using x(2,5) by (simp add: placed_shards_iff d'_def in_moved [OF d x(1)])
  ultimately have "intact (w_db v) (held v) i (s_shard_index s) (s_checksum_sha256 s)"
    using env(4) unfolding f5(1) by (intro intactI [of "moved_row s ?U t (w_now w2)" t _ _ _ _ _ b]) simp_all
  moreover have gone: "held v c u = None" if "u \<noteq> ?U" "held w c u = None" for c u
    using held5 held2(2) [of c u] that by (cases "(c, u) = (n_address n, s_id s)") (auto simp: w4_def)
  have "movable E todo v"
    by (rule movable_after [OF m f5(2-5)])
      (use in_moved [OF d x(1)] gone node2 node5 in \<open>auto simp: f5(1) db d'_def w4_def\<close>)
  ultimately show ?thesis using that run by blast
qed

lemma repair_todo_run:
  assumes "constraints_ok d" and "repairable d i todo" and "rows d w" and "fleet_ok w" and "movable E todo w"
  shows "\<exists>v. foldM (repair_shard E) todo cnt w = (Inr (cnt + length todo), v) \<and>
    (\<forall>(p, b, t) \<in> set todo. intact (w_db v) (held v) i (s_shard_index (fst p)) (s_checksum_sha256 (fst p)))"
  using assms
proof (induction todo arbitrary: d w cnt)
  case (Cons r todo)
  obtain s n b t where r: "r = ((s, n), b, t)" by (metis prod.exhaust)
  obtain v where step: "repair_shard E r cnt w = (Inr (cnt + 1), v)" "movable E todo v"
    "intact (w_db v) (held v) i (s_shard_index s) (s_checksum_sha256 s)"
    using repair_shard_run [OF Cons.prems(1) _ Cons.prems(3,4)] Cons.prems(2,5) unfolding r by metis
  have pre: "rows d w \<and> fleet_ok w \<and> held w = held w" using Cons.prems(3,4) by simp
  have v: "settled UNIV d (held w) v" "repairable (w_db v) i todo"
    using triple_InrD [OF repair_shard_triple [OF Cons.prems(1) Cons.prems(2) [unfolded r]] pre step(1) [unfolded r]] by simp_all
  then have ok: "constraints_ok (w_db v)" "rows (w_db v) v" "fleet_ok v"
    by (simp_all add: settled_def sparing_def spared_def rows_def)
  obtain u where rest: "foldM (repair_shard E) todo (cnt + 1) v = (Inr (cnt + 1 + length todo), u)"
    "\<forall>(p, b, t) \<in> set todo. intact (w_db u) (held u) i (s_shard_index (fst p)) (s_checksum_sha256 (fst p))"
    using Cons.IH [OF ok(1) v(2) ok(2,3) step(2)] by blast
  have "settled UNIV (w_db v) (held v) v \<and> repairable (w_db v) i todo"
    using v(2) ok spared_more [OF ok(1), of "held v" "held v"] by (simp add: settled_def sparing_def rows_def)
  from triple_InrD [OF repair_todo_triple this rest(1)]
  have "intact (w_db u) (held u) i (s_shard_index s) (s_checksum_sha256 s)"
    using step(3) by (simp add: settled_def sparing_def spared_def)
  then show ?case using step(1) rest by (auto simp: bnd_run r)
qed (simp add: ret_def)

section \<open>Repairing a file\<close>

definition bad_rows :: "uuid set \<Rightarrow> uuid \<Rightarrow> db \<Rightarrow> (shard_row \<times> node_row) list" where
  "bad_rows bad i d = filter (\<lambda>p. s_id (fst p) \<in> bad) (placed_shards i d)"

text \<open>The file is encoded in \<open>blocks\<close>; k of its shards beyond the bad ones can be read for sure, and what nodes hold under
  a recorded checksum is the block (no collision); there are healthy spare nodes for the bad ones, and they answer and accept
  blocks of this size.\<close>

definition repair_ready :: "env \<Rightarrow> world \<Rightarrow> file_row \<Rightarrow> uuid set \<Rightarrow> bytes \<Rightarrow> bytes list \<Rightarrow> bool" where
  "repair_ready E w f bad data blocks \<longleftrightarrow>
     f \<in> set (files (w_db w)) \<and> f_status f = Available \<and>
     zfec_ok (e_zfec E) (f_data_shards f) (f_parity_shards f) \<and>
     encode (e_zfec E) data (f_data_shards f) (f_parity_shards f) = Inr blocks \<and>
     (\<forall>p \<in> set (placed_shards (f_id f) (w_db w)). authentic blocks w p \<and>
        s_checksum_sha256 (fst p) = sha256_hex (blocks ! s_shard_index (fst p))) \<and>
     f_data_shards f \<le> card ((s_shard_index \<circ> fst) ` {p \<in> set (candidates_of (f_id f) bad (w_db w)). sure E w p}) \<and>
     length (bad_rows bad (f_id f) (w_db w)) \<le>
       length (spare_nodes (placed_shards (f_id f) (w_db w)) (filter (\<lambda>n. n_status n = Healthy) (nodes (w_db w)))) \<and>
     (\<forall>n \<in> set (nodes (w_db w)). n_status n = Healthy \<longrightarrow>
        node_ready E w (n_address n) \<and> (\<forall>b \<in> set blocks. node_fits w (n_address n) b)) \<and>
     (\<forall>j. w_dbfault w j = None) \<and> no_client_bug w \<and> ids_fresh w (length (bad_rows bad (f_id f) (w_db w)))"

lemma zip3_set: "(p, b, t) \<in> set (zip ps (zip (map g ps) ts)) \<Longrightarrow> p \<in> set ps \<and> b = g p \<and> t \<in> set ts"
  by (auto simp: set_zip)

lemma repair_with_run:
  assumes "constraints_ok (w_db w)" and "rows (w_db w) w" and "fleet_ok w" and r: "repair_ready E w f bad data blocks"
    and got: "shards_from blocks bs" "f_data_shards f \<le> length bs"
  shows "\<exists>v. repair_with E f (placed_shards (f_id f) (w_db w)) (bad_rows bad (f_id f) (w_db w)) bs w =
      (Inr (length (bad_rows bad (f_id f) (w_db w))), v) \<and>
    (\<forall>p \<in> set (bad_rows bad (f_id f) (w_db w)).
       intact (w_db v) (held v) (f_id f) (s_shard_index (fst p)) (s_checksum_sha256 (fst p)))"
proof -
  let ?d = "w_db w" and ?i = "f_id f" and ?k = "f_data_shards f" and ?m = "f_parity_shards f"
  let ?placed = "placed_shards ?i ?d" and ?bad = "bad_rows bad ?i ?d" and ?healthy = "filter (\<lambda>n. n_status n = Healthy) (nodes ?d)"
  let ?w1 = "w\<lparr>w_trips := Suc (w_trips w)\<rparr>"
  let ?w2 = "?w1\<lparr>w_shuffled := Suc (w_shuffled w)\<rparr>"
  define targets where "targets = pick_order (w_picks w (w_shuffled w)) (spare_nodes ?placed ?healthy)"
  let ?g = "\<lambda>p. blocks ! s_shard_index (fst p)"
  have shuffled: "mset targets = mset (spare_nodes ?placed ?healthy)" by (simp add: targets_def mset_pick_order)
  have enc: "zfec_ok (e_zfec E) ?k ?m" "encode (e_zfec E) data ?k ?m = Inr blocks"
    using r by (simp_all add: repair_ready_def)
  have blocks: "length blocks = ?k + ?m" by (simp add: encode_Inr [OF enc])
  have block: "s_shard_index (fst p) < ?k + ?m" "?g p \<in> set blocks" "s_checksum_sha256 (fst p) = sha256_hex (?g p)"
    if "p \<in> set ?bad" for p
    using r that blocks by (auto simp: repair_ready_def authentic_def bad_rows_def)
  have "set (map (\<lambda>p. s_shard_index (fst p)) ?bad) \<subseteq> {..<?k + ?m}" using block(1) by fastforce
  from regenerate_encode [OF enc got this]
  have rebuilt: "regenerate (e_zfec E) bs ?k ?m (map (\<lambda>p. s_shard_index (fst p)) ?bad) = Inr (map ?g ?bad)"
    by (simp add: comp_def)
  define todo where "todo = zip ?bad (zip (map ?g ?bad) targets)"
  have len: "length todo = length ?bad" "map fst todo = ?bad"
    using r by (simp_all add: todo_def targets_def repair_ready_def)
  have todo: "repairable ?d ?i todo"
    unfolding todo_def bad_rows_def
  proof (rule repairable_zip [OF assms(1) shuffled])
    show "distinct (map n_id ?healthy)"
      using constraints_okD(2) [OF assms(1)] by (simp add: keys_unique_def distinct_map_filter)
  qed auto
  have move: "movable E todo ?w2"
  proof -
    have "sha256_hex b = s_checksum_sha256 (fst p) \<and> node_ready E ?w2 (n_address t) \<and> node_fits ?w2 (n_address t) b"
      if "(p, b, t) \<in> set todo" for p b t
    proof -
      have p: "p \<in> set ?bad" "b = ?g p" "t \<in> set ?healthy"
        using zip3_set [OF that [unfolded todo_def]] by (auto simp: targets_def spare_nodes_def)
      then show ?thesis using block [OF p(1)] r by (auto simp: repair_ready_def)
    qed
    moreover have "ids_fresh ?w2 (length todo)" using r by (simp add: len repair_ready_def ids_fresh_def)
    ultimately show ?thesis using r unfolding movable_def by (auto simp: repair_ready_def no_client_bug_def)
  qed
  have "rows ?d ?w2" "fleet_ok ?w2" using assms(2,3) by (simp_all add: rows_def)
  from repair_todo_run [OF assms(1) todo this move, of 0]
  obtain v where v: "foldM (repair_shard E) todo 0 ?w2 = (Inr (0 + length todo), v)"
    "\<forall>(p, b, t) \<in> set todo. intact (w_db v) (held v) ?i (s_shard_index (fst p)) (s_checksum_sha256 (fst p))"
    by blast
  have "repair_with E f ?placed ?bad bs w = (Inr (length ?bad), v)"
    using v(1) rebuilt r assms(2) len(1)
    by (simp add: repair_with_def healthy_nodes_def db_select_run bnd_apply random_shuffle_def lift_erasure_def io_simps
        repair_ready_def rows_def todo_def targets_def)
  moreover have "intact (w_db v) (held v) ?i (s_shard_index (fst p)) (s_checksum_sha256 (fst p))" if "p \<in> set ?bad" for p
  proof -
    have "p \<in> fst ` set todo" using that len(2) by (metis list.set_map)
    then show ?thesis using v(2) by auto
  qed
  ultimately show ?thesis by blast
qed

text \<open>What every read of a shard keeps, reading k blocks keeps.\<close>

lemma keeps_fetch_loop:
  assumes "\<And>a u. keeps I (client_get E a u)"
  shows "keeps I (fetch_loop E k c rem)"
proof (induction E k c rem rule: fetch_loop.induct [where P = "\<lambda>E' k c rem. E' = E \<longrightarrow> keeps I (fetch_loop E' k c rem)", THEN mp])
  case (1 E' k c rem)
  show ?case
  proof (cases "length c < k \<and> rem \<noteq> []")
    case True
    have "keeps I (collect r c)" for r c
      by (auto simp: collect_def split: prod.split sum.split intro!: wp)
    then show ?thesis unfolding fetch_loop_round [OF True] get_batch_def
      using assms 1 [OF True refl] by (auto intro!: wp)
  qed (simp add: fetch_loop_stop wp)
qed simp

lemma fetch_fits:
  assumes "fetch_blocks E C k w = (r, v)" and "node_fits w a x"
  shows "node_fits v a x"
proof -
  have "keeps (\<lambda>w. node_fits w a x) (client_get E b u)" for b u
  proof -
    have "keeps (\<lambda>w. node_fits w a x) (node_request E b q)" for q
      by (rule keepsI, erule node_request_cases) (auto simp: node_fits_def)
    then show ?thesis unfolding client_get_def by (auto intro!: wp)
  qed
  then show ?thesis using keepsD [OF keeps_fetch_loop] assms unfolding fetch_blocks_def by blast
qed

lemma repair_ready_fetched:
  assumes r: "repair_ready E w f bad data blocks" and fetch: "fetch_blocks E C k (w\<lparr>w_tx := d, w_trips := j\<rparr>) = (x, u)"
    and u: "calls_only E (w\<lparr>w_tx := d, w_trips := j\<rparr>) u"
  shows "repair_ready E u f bad data blocks"
proof -
  let ?v = "w\<lparr>w_tx := d, w_trips := j\<rparr>" and ?C = "candidates_of (f_id f) bad (w_db w)"
  have rest: "rest_of u = rest_of ?v" and held: "held u = held w" and ready: "\<And>b. node_ready E w b \<Longrightarrow> node_ready E u b"
    using u by (simp_all add: calls_only_def)
  note f = rest_of_rows [OF rest] rest_of_fields [OF rest]
  have "{p \<in> set ?C. sure E w p} \<subseteq> {p \<in> set ?C. sure E u p}" using ready by (auto simp: sure_def good_shard_def held)
  then have "card ((s_shard_index \<circ> fst) ` {p \<in> set ?C. sure E w p}) \<le> card ((s_shard_index \<circ> fst) ` {p \<in> set ?C. sure E u p})"
    by (intro card_mono image_mono) simp_all
  then have "f_data_shards f \<le> card ((s_shard_index \<circ> fst) ` {p \<in> set ?C. sure E u p})"
    using r unfolding repair_ready_def by linarith
  moreover have "node_fits u a y" if "node_fits w a y" for a y
    by (rule fetch_fits [OF fetch]) (use that in \<open>simp add: node_fits_def\<close>)
  moreover have "authentic blocks u p = authentic blocks w p" for p by (simp add: authentic_def held)
  moreover have "ids_fresh u n = ids_fresh w n" for n using f by (simp add: ids_fresh_def held)
  moreover have "no_client_bug u = no_client_bug w" using f by (simp add: no_client_bug_def)
  ultimately show ?thesis using r ready f unfolding repair_ready_def by simp
qed

section \<open>Property\<close>

text \<open>
  C15. A repair goes through when it can. If k shards of an available file beyond the bad ones can be read, enough healthy spare
  nodes answer, the database answers and the identifiers drawn are new, \<open>repair_file\<close> moves every bad shard: it returns their
  number, and afterwards each bad shard, and each shard that was good before, is intact on the node its row names, so a file with
  a row for every index has its full redundancy back.
\<close>
theorem repair_rebuilds:
  assumes "fleet_ok w" and "constraints_ok (w_db w)" and "repair_ready E w f bad data blocks"
  shows "\<exists>v. repair_file E (f_id f) bad w = (Inr (length (bad_rows bad (f_id f) (w_db w))), v) \<and>
    (\<forall>p \<in> set (placed_shards (f_id f) (w_db w)). s_id (fst p) \<in> bad \<or> good_shard w p \<longrightarrow>
       intact (w_db v) (held v) (f_id f) (s_shard_index (fst p)) (s_checksum_sha256 (fst p)))"
proof -
  let ?d = "w_db w" and ?i = "f_id f" and ?w = "w\<lparr>w_tx := w_db w\<rparr>"
  let ?w3 = "?w\<lparr>w_trips := Suc (Suc (Suc (w_trips w)))\<rparr>" and ?C = "candidates_of ?i bad ?d"
  have f: "f_status f = Available" "get_file ?i ?d = Some f"
    using assms(3) get_file_unique [of ?d f] constraints_okD(2) [OF assms(2)] by (simp_all add: repair_ready_def keys_unique_def)
  obtain x u where fetch: "fetch_blocks E ?C (f_data_shards f) ?w3 = (x, u)" by fastforce
  have same: "authentic blocks ?w3 p = authentic blocks w p" "sure E ?w3 p = sure E w p" for p
    by (simp_all add: authentic_def sure_def good_shard_def node_ready_def)
  have "authentic blocks ?w3 p" if "p \<in> set ?C" for p
    using assms(3) that unfolding same repair_ready_def by (simp add: set_candidates)
  moreover have "f_data_shards f \<le> card ((s_shard_index \<circ> fst) ` {p \<in> set ?C. sure E ?w3 p})"
    using assms(3) unfolding same repair_ready_def by blast
  moreover have "fleet_ok ?w3" "no_client_bug ?w3" using assms(1,3) by (simp_all add: repair_ready_def no_client_bug_def)
  ultimately obtain bs where bs: "x = Inr bs" "shards_from blocks bs" "f_data_shards f \<le> length bs" "calls_only E ?w3 u"
    using fetch_enough [OF fetch] by metis
  have u: "fleet_ok u" "held u = held w" "w_db u = ?d" "w_tx u = ?d" and rest: "rest_of u = rest_of ?w3"
    using bs(4) rest_of_rows [of u ?w3] by (simp_all add: calls_only_def)
  have "repair_ready E u f bad data blocks" by (rule repair_ready_fetched [OF assms(3) fetch bs(4)])
  then obtain v where v: "repair_with E f (placed_shards ?i ?d) (bad_rows bad ?i ?d) bs u = (Inr (length (bad_rows bad ?i ?d)), v)"
    "\<forall>p \<in> set (bad_rows bad ?i ?d). intact (w_db v) (held v) ?i (s_shard_index (fst p)) (s_checksum_sha256 (fst p))"
    using repair_with_run [of u E f bad data blocks bs] assms(2) u bs(2,3) by (auto simp: rows_def)
  have run: "repair_file E ?i bad w = (Inr (length (bad_rows bad ?i ?d)), v\<lparr>w_tx := w_db v\<rparr>)"
    using assms(3) f fetch bs(1,3) v(1)
    by (simp add: repair_file_def with_session_def db_select_run bnd_apply repair_found_def shard_candidates_def Let_def
        repair_ready_def bad_rows_def)
  have "sparing UNIV ?d (held w) w" using assms(1) spared_more [OF assms(2), of "held w" "held w"] by (simp add: sparing_def)
  from keepsD [OF repair_file_sparing this run]
  have kept: "intact ?d (held w) ?i j c \<Longrightarrow> intact (w_db v) (held v) ?i j c" for j c by (simp add: sparing_def spared_def)
  have "intact (w_db v) (held v) ?i (s_shard_index (fst p)) (s_checksum_sha256 (fst p))"
    if "p \<in> set (placed_shards ?i ?d)" "s_id (fst p) \<in> bad \<or> good_shard w p" for p
  proof (cases "s_id (fst p) \<in> bad")
    case True
    then have "p \<in> set (bad_rows bad ?i ?d)" using that(1) by (simp add: bad_rows_def)
    then show ?thesis using v(2) by blast
  next
    case False
    then have "good_shard w p" using that(2) by simp
    then show ?thesis using that(1) by (intro kept) (auto simp: good_shard_def intro!: intactI [of "fst p" "snd p"])
  qed
  then show ?thesis using run by auto
qed

text \<open>Three shards of the example file on the first three of four nodes; the third is lost, the fourth node is spare.\<close>

definition heal_file :: file_row where
  "heal_file = \<lparr>f_id = 5, f_owner_user_id = 1, f_original_name = [97], f_content_type = [98], f_size_bytes = 3,
     f_checksum_sha256 = sha256_hex [1, 2, 3], f_data_shards = 2, f_parity_shards = 1, f_link_version = 1,
     f_status = Available, f_uploaded_at = 0, f_deleted_at = None\<rparr>"

definition heal_blocks :: "bytes list" where
  "heal_blocks = [[1, 2], [3, 0], [2, 2]]"

definition heal_shard :: "nat \<Rightarrow> shard_row" where
  "heal_shard j = \<lparr>s_id = of_nat (20 + j), s_file_id = 5, s_shard_index = j, s_kind = (if j < 2 then Data else Parity),
     s_node_id = of_nat (10 + j), s_checksum_sha256 = sha256_hex (heal_blocks ! j), s_size_bytes = 2, s_created_at = 0\<rparr>"

definition heal_db :: db where
  "heal_db = example_db\<lparr>nodes := [example_row 0, example_row 1, example_row 2, example_row 3], files := [heal_file],
     shards := [heal_shard 0, heal_shard 1, heal_shard 2]\<rparr>"

definition heal_start :: world where
  "heal_start = example_world\<lparr>w_db := heal_db, w_tx := heal_db,
     w_nodes := (\<lambda>a. if a \<in> set (map example_address [0, 1, 2, 3])
                 then Some \<lparr>nd_settings = example_node, nd_disk = empty_disk, nd_up = True\<rparr> else None)\<rparr>"

definition heal_world :: world where
  "heal_world = snd (client_put example_env (example_address 1) 21 [3, 0]
     (snd (client_put example_env (example_address 0) 20 [1, 2] heal_start)))"

lemma heal_start_facts:
  "fleet_ok heal_start" "held heal_start a u = None" "j < 4 \<Longrightarrow> node_ready example_env heal_start (example_address j)"
  "length b = 2 \<Longrightarrow> node_fits heal_start a b"
proof -
  show "fleet_ok heal_start" by (simp add: fleet_ok_def heal_start_def disk_ok_empty example_settings_node)
  show "held heal_start a u = None" by (simp add: held_def heal_start_def empty_disk_def stored_def)
  show "length b = 2 \<Longrightarrow> node_fits heal_start a b"
    by (auto simp: node_fits_def heal_start_def example_settings_node dec_nat.simps)
  assume "j < 4"
  then have "j \<in> {0, 1, 2, 3}" by auto
  then show "node_ready example_env heal_start (example_address j)"
    by (auto simp: node_ready_def heal_start_def example_world_def example_env_def node_token_def example_settings_node
      calm_empty is_ascii_def list_all_iff)
qed

lemma heal_constraints: "constraints_ok heal_db"
  using text_ok_hex
  by (simp add: constraints_ok_def row_types_ok_def keys_unique_def references_ok_def heal_db_def heal_file_def heal_shard_def
      example_db_def empty_db_def user_ok_def node_ok_def file_ok_def shard_ok_def text_ok_def encodable_def example_owner_def
      example_row_def example_address_def list_all_iff)

lemma heal_world_facts:
  "fleet_ok heal_world" "rest_of heal_world = rest_of heal_start"
  "held heal_world a u = (if (a, u) = (example_address 0, 20) then Some (shard_file [1, 2])
     else if (a, u) = (example_address 1, 21) then Some (shard_file [3, 0]) else None)"
  "j < 4 \<Longrightarrow> node_ready example_env heal_world (example_address j)" "length b = 2 \<Longrightarrow> node_fits heal_world a b"
proof -
  obtain y w1 where put1: "client_put example_env (example_address 0) 20 [1, 2] heal_start = (y, w1)" by fastforce
  obtain z w2 where put2: "client_put example_env (example_address 1) 21 [3, 0] w1 = (z, w2)" by fastforce
  have w2: "heal_world = w2" unfolding heal_world_def put1 snd_conv put2 ..
  have ready1: "node_ready example_env w1 c" if "node_ready example_env heal_start c" for c
    using fleet.ready_law [OF heal_start_facts(1) that] put1 by (metis snd_conv)
  have fits: "node_fits w1 c x = node_fits heal_start c x" "node_fits w2 c x = node_fits w1 c x" for c x
    using client_put_fits put1 put2 by (metis snd_conv)+
  have "y = Inr ()"
    using fleet.put_ready [OF heal_start_facts(1) heal_start_facts(3) [of 0] heal_start_facts(4) heal_start_facts(2), of "[1, 2]" 20] put1
    by simp
  note l1 = fleet.put_law [OF heal_start_facts(1) put1, unfolded this]
  have h1: "held w1 c u = (if (c, u) = (example_address 0, 20) then Some (shard_file [1, 2]) else None)" for c u
    using l1 heal_start_facts(2) by auto
  have "example_address 1 \<noteq> example_address 0" by (simp add: example_address_def)
  then have "fst (client_put example_env (example_address 1) 21 [3, 0] w1) = Inr ()"
    using l1 heal_start_facts(3) [of 1] heal_start_facts(4) [of "[3, 0]"]
    by (intro fleet.put_ready) (simp_all add: ready1 fits(1) h1)
  then have "z = Inr ()" using put2 by simp
  note l2 = fleet.put_law [OF conjunct1 [OF l1] put2, unfolded this]
  show "fleet_ok heal_world" "rest_of heal_world = rest_of heal_start" using l1 l2 by (simp_all add: w2)
  show "held heal_world a u = (if (a, u) = (example_address 0, 20) then Some (shard_file [1, 2])
     else if (a, u) = (example_address 1, 21) then Some (shard_file [3, 0]) else None)"
    using l2 h1 by (auto simp: w2)
  show "node_ready example_env heal_world (example_address j)" if "j < 4"
    using fleet.ready_law [OF conjunct1 [OF l1] ready1 [OF heal_start_facts(3) [OF that]]] put2 unfolding w2 by (metis snd_conv)
  show "length b = 2 \<Longrightarrow> node_fits heal_world a b" using heal_start_facts(4) by (simp add: w2 fits)
qed

lemma heal_rest:
  "w_db heal_world = heal_db" "w_dbfault heal_world j = None" "no_client_bug heal_world" "ids_fresh heal_world 1"
proof -
  note f = rest_of_rows [OF heal_world_facts(2)] rest_of_fields [OF heal_world_facts(2)]
  show db: "w_db heal_world = heal_db" using f by (simp add: heal_start_def)
  show "w_dbfault heal_world j = None" "no_client_bug heal_world"
    using f by (simp_all add: heal_start_def example_world_def no_client_bug_def)
  show "ids_fresh heal_world 1"
    using f by (simp add: ids_fresh_def db heal_world_facts(3) heal_start_def example_world_def heal_db_def heal_file_def
        heal_shard_def example_db_def empty_db_def)
qed

lemma heal_placed:
  "placed_shards 5 heal_db = [(heal_shard 0, example_row 0), (heal_shard 1, example_row 1), (heal_shard 2, example_row 2)]"
  "bad_rows {22} 5 heal_db = [(heal_shard 2, example_row 2)]"
  by (simp_all add: bad_rows_def placed_shards_def join_node_def heal_db_def heal_shard_def example_row_def)

lemma heal_ready: "repair_ready example_env heal_world heal_file {22} [1, 2, 3] heal_blocks"
proof -
  have authentic: "authentic heal_blocks heal_world (heal_shard j, example_row j)" if "j < 3" for j
    using that by (auto simp: authentic_def heal_world_facts(3) heal_shard_def example_row_def example_address_def heal_blocks_def
        append_eq_append_conv less_Suc_eq numeral_eq_Suc)
  have good: "sure example_env heal_world (heal_shard j, example_row j)" if "j < 2" for j
    using that heal_world_facts(4) [of j]
    by (auto simp: sure_def good_shard_def heal_world_facts(3) heal_shard_def example_row_def example_address_def heal_blocks_def
        less_Suc_eq numeral_eq_Suc)
  have cand: "(heal_shard j, example_row j) \<in> {p \<in> set (candidates_of 5 {22} heal_db). sure example_env heal_world p}" if "j < 2" for j
    using that good [OF that] unfolding mem_Collect_eq set_candidates heal_placed
    by (auto simp: heal_shard_def example_row_def less_Suc_eq numeral_eq_Suc)
  have "{0, 1} \<subseteq> (s_shard_index \<circ> fst) ` {p \<in> set (candidates_of 5 {22} heal_db). sure example_env heal_world p}"
    using imageI [OF cand [of 0], of "s_shard_index \<circ> fst"] imageI [OF cand [of 1], of "s_shard_index \<circ> fst"]
    by (simp add: heal_shard_def)
  then have "card {0 :: nat, 1} \<le> card ((s_shard_index \<circ> fst) ` {p \<in> set (candidates_of 5 {22} heal_db). sure example_env heal_world p})"
    by (rule card_mono [rotated]) simp
  moreover have "node_ready example_env heal_world (n_address n) \<and> (\<forall>b \<in> set heal_blocks. node_fits heal_world (n_address n) b)"
    if "n \<in> set (nodes heal_db)" for n
    using that heal_world_facts(4)
    by (auto simp: heal_db_def heal_blocks_def example_row_def intro!: heal_world_facts(5))
  moreover have "authentic heal_blocks heal_world p \<and> s_checksum_sha256 (fst p) = sha256_hex (heal_blocks ! s_shard_index (fst p))"
    if "p \<in> set (placed_shards 5 heal_db)" for p
  proof -
    have "\<exists>j < 3. p = (heal_shard j, example_row j)"
      using that by (auto simp: heal_placed intro: exI [of _ 0] exI [of _ 1] exI [of _ 2])
    then obtain j where "j < 3" "p = (heal_shard j, example_row j)" by blast
    moreover have "s_checksum_sha256 (heal_shard j) = sha256_hex (heal_blocks ! s_shard_index (heal_shard j))" for j
      by (simp add: heal_shard_def)
    ultimately show ?thesis using authentic [of j] by simp
  qed
  moreover have "e_zfec example_env = parity_codec" by (simp add: example_env_def)
  moreover have "spare_nodes (placed_shards 5 heal_db) (filter (\<lambda>n. n_status n = Healthy) (nodes heal_db)) = [example_row 3]"
    by (simp add: heal_placed spare_nodes_def) (simp add: heal_db_def example_row_def)
  moreover have "f_id heal_file = 5" "f_data_shards heal_file = 2" "f_parity_shards heal_file = 1" "f_status heal_file = Available"
    by (simp_all add: heal_file_def)
  moreover have "heal_file \<in> set (files heal_db)" by (simp add: heal_db_def)
  moreover have "encode parity_codec [1, 2, 3] 2 1 = Inr heal_blocks" unfolding heal_blocks_def by (rule example_encode)
  ultimately show ?thesis
    using parity_codec_ok heal_rest
    unfolding repair_ready_def by (simp add: heal_placed(2))
qed

theorem repair_rebuilds_witness:
  "\<exists>v. repair_file example_env 5 {22} heal_world = (Inr 1, v) \<and>
    (\<forall>j < 3. intact (w_db v) (held v) 5 j (sha256_hex (heal_blocks ! j)))"
proof -
  note rule = repair_rebuilds [OF heal_world_facts(1) _ heal_ready]
  have "f_id heal_file = 5" by (simp add: heal_file_def)
  then obtain v where v: "repair_file example_env 5 {22} heal_world = (Inr 1, v)"
    and all: "\<And>p. p \<in> set (placed_shards 5 heal_db) \<Longrightarrow> s_id (fst p) \<in> {22} \<or> good_shard heal_world p \<Longrightarrow>
       intact (w_db v) (held v) 5 (s_shard_index (fst p)) (s_checksum_sha256 (fst p))"
    using rule heal_constraints by (auto simp: heal_rest heal_placed(2))
  have "intact (w_db v) (held v) 5 j (sha256_hex (heal_blocks ! j))" if "j < 3" for j
  proof -
    have "good_shard heal_world (heal_shard j, example_row j)" if "j < 2"
      using that by (auto simp: good_shard_def heal_world_facts(3) heal_shard_def example_row_def example_address_def heal_blocks_def
        less_Suc_eq numeral_eq_Suc)
    moreover have "j < 2 \<or> j = 2" "(heal_shard j, example_row j) \<in> set (placed_shards 5 heal_db)"
      using that by (auto simp: heal_placed less_Suc_eq numeral_eq_Suc)
    ultimately show ?thesis using all [of "(heal_shard j, example_row j)"] by (auto simp: heal_shard_def)
  qed
  with v show ?thesis by blast
qed

end
