(* ===== verification/Transfers.thy ===== *)
theory Transfers
  imports Outage Runs
begin

text \<open>
  Concurrent transfers in one API process. Its event loop interleaves the handlers of uploads and downloads at every
  \<open>await\<close>; \<open>transfer_slot\<close> tests and takes a slot without one, so a handler enters and leaves in one step each, and
  between these steps anything else may run that leaves the slots alone, as all handlers do (\<open>Outage\<close>).
\<close>

section \<open>The start of a process\<close>

text \<open>\<open>create_app\<close>: the semaphore and the two limiters of the settings.\<close>

definition start_api :: "env \<Rightarrow> (rat \<Rightarrow> rat) \<Rightarrow> world \<Rightarrow> rat \<Rightarrow> api" where
  "start_api E fl w now =
     \<lparr>ap_world = w, ap_downloads = rate_limiter fl (download_rate_per_minute (e_settings E)),
      ap_calls = rate_limiter fl (api_rate_per_minute (e_settings E)),
      ap_slots = nat (max_concurrent_transfers (e_settings E)), ap_monotonic = now\<rparr>"

section \<open>Entering and leaving\<close>

definition enter_slot :: "unit aio" where
  "enter_slot =
     bnd (gets ap_slots) (\<lambda>slots.
     if slots = 0 then raise (retry_later 503)
     else modify (\<lambda>s. s\<lparr>ap_slots := ap_slots s - 1\<rparr>))"

definition leave_slot :: "unit aio" where
  "leave_slot = modify (\<lambda>s. s\<lparr>ap_slots := ap_slots s + 1\<rparr>)"

lemma transfer_slot_parts: "transfer_slot m = seq enter_slot (ensuring m leave_slot)"
  by (rule ext) (simp add: transfer_slot_def enter_slot_def leave_slot_def bnd_def gets_def modify_def raise_def)

lemma enter_slot_run:
  "enter_slot s = (if ap_slots s = 0 then (Inl (retry_later 503), s) else (Inr (), s\<lparr>ap_slots := ap_slots s - 1\<rparr>))"
  by (simp add: enter_slot_def io_simps)

section \<open>Interleaved transfers\<close>

text \<open>\<open>Admitted i\<close>: the handler of transfer \<open>i\<close> gets a slot. \<open>Shed e\<close>: a handler raises \<open>e\<close> for want of one.
  \<open>Finished i\<close>: the handler of \<open>i\<close> ends, whether it answers, raises or is cancelled. \<open>Working\<close>: anything else.\<close>

datatype transfer_event = Admitted nat | Shed exn | Finished nat | Working

inductive transfer_step :: "transfer_event \<Rightarrow> api \<times> nat set \<Rightarrow> api \<times> nat set \<Rightarrow> bool" where
  admitted: "i \<notin> R \<Longrightarrow> enter_slot s = (Inr (), t) \<Longrightarrow> transfer_step (Admitted i) (s, R) (t, insert i R)"
| shed: "enter_slot s = (Inl e, t) \<Longrightarrow> transfer_step (Shed e) (s, R) (t, R)"
| finished: "i \<in> R \<Longrightarrow> leave_slot s = (Inr (), t) \<Longrightarrow> transfer_step (Finished i) (s, R) (t, R - {i})"
| working: "ap_slots t = ap_slots s \<Longrightarrow> transfer_step Working (s, R) (t, R)"

inductive_simps transfer_step_simps [simp]:
  "transfer_step (Admitted i) (s, R) c" "transfer_step (Shed e) (s, R) c" "transfer_step (Finished i) (s, R) c"
  "transfer_step Working (s, R) c"

definition slots_shared :: "nat \<Rightarrow> api \<times> nat set \<Rightarrow> bool" where
  "slots_shared n c \<longleftrightarrow> finite (snd c) \<and> card (snd c) + ap_slots (fst c) = n"

lemma slots_shared_step:
  assumes "transfer_step ev c c'" and "slots_shared n c"
  shows "slots_shared n c'"
  using assms
proof (induction rule: transfer_step.induct)
  case (finished i R s t)
  then have "Suc (card (R - {i})) = card R" by (intro card_Suc_Diff1) (simp_all add: slots_shared_def)
  then show ?case using finished by (auto simp: slots_shared_def leave_slot_def)
qed (auto simp: slots_shared_def enter_slot_run split: if_splits)

interpretation transfers: step_system transfer_step "slots_shared n" "\<lambda>_. True" "\<lambda>_ _. True" for n
  by unfold_locales (auto intro: slots_shared_step)

text \<open>A handler that runs alone is a run of this system.\<close>

lemma transfer_slot_runs:
  assumes "transfer_slot m s = (r, t)" and "\<And>k. keeps (slots_are k) m"
  shows "if ap_slots s = 0 then runs transfer_step (s, {}) [Shed (retry_later 503)] (t, {}) \<and> r = Inl (retry_later 503)
    else runs transfer_step (s, {}) [Admitted 0, Working, Finished 0] (t, {})"
proof (cases "ap_slots s = 0")
  case True
  then show ?thesis using assms(1)
    by (simp add: transfer_slot_parts bnd_apply enter_slot_run raise_apply runs_Cons)
next
  case False
  let ?s = "s\<lparr>ap_slots := ap_slots s - 1\<rparr>"
  obtain x u where m: "m ?s = (x, u)" by fastforce
  have "ap_slots u = ap_slots ?s" using keepsD [OF assms(2) _ m] by (auto simp: slots_are_def)
  moreover have "leave_slot u = (Inr (), t)"
    using assms(1) False m by (auto simp: transfer_slot_parts bnd_apply enter_slot_run ensuring_apply leave_slot_def modify_apply split: sum.splits)
  ultimately show ?thesis using False by (auto simp: runs_Cons enter_slot_run)
qed

section \<open>Property\<close>

text \<open>
  C19. Transfers are bounded, under any interleaving. From the start of a process on, however its handlers enter, work,
  end and fail in between each other: the transfers in flight and the free slots add up to the configured maximum, which is
  positive; a handler is let in exactly if fewer than the maximum are in flight, and is shed otherwise with a 503 that asks to
  retry, nothing changed; once all have ended every slot is free again.
\<close>
theorem transfers_bounded:
  assumes "runs transfer_step (start_api E fl w now, {}) evs (s, R)" and "load_settings (e_settings E) = Inr st"
  shows "finite R \<and> card R + ap_slots s = nat (max_concurrent_transfers (e_settings E)) \<and>
    0 < max_concurrent_transfers (e_settings E) \<and>
    (\<forall>i. i \<notin> R \<longrightarrow> (\<exists>c. transfer_step (Admitted i) (s, R) c) = (int (card R) < max_concurrent_transfers (e_settings E))) \<and>
    (\<forall>e c. transfer_step (Shed e) (s, R) c \<longrightarrow>
       int (card R) = max_concurrent_transfers (e_settings E) \<and> e = retry_later 503 \<and> c = (s, R)) \<and>
    (R = {} \<longrightarrow> ap_slots s = ap_slots (start_api E fl w now))"
proof -
  let ?n = "max_concurrent_transfers (e_settings E)"
  have pos: "0 < ?n" using assms(2) by (simp add: load_settings_def fields_ok_def split: if_splits)
  have "slots_shared (nat ?n) (start_api E fl w now, {})" by (simp add: slots_shared_def start_api_def)
  then have inv: "finite R" "card R + ap_slots s = nat ?n"
    using transfers.run_step_system [OF assms(1)] by (auto simp: slots_shared_def)
  then show ?thesis using pos by (auto simp: enter_slot_run start_api_def split: if_splits)
qed

text \<open>Four slots: four transfers enter, a fifth is shed; after one has ended it is let in.\<close>

theorem transfers_bounded_witness:
  "\<exists>s. runs transfer_step (start_api (example_env\<lparr>e_settings := example_settings\<rparr>) id example_world 0, {})
      [Admitted 0, Admitted 1, Working, Admitted 2, Admitted 3, Shed (retry_later 503), Finished 1, Admitted 4] (s, {0, 2, 3, 4}) \<and>
    ap_slots s = 0"
proof -
  let ?E = "example_env\<lparr>e_settings := example_settings\<rparr>"
  let ?a = "start_api ?E id example_world 0"
  have n: "max_concurrent_transfers (e_settings ?E) = 4" by (simp add: example_settings_def)
  have ok: "load_settings (e_settings ?E) = Inr example_settings" using example_settings_load by simp
  let ?b = "\<lambda>k. ?a\<lparr>ap_slots := k\<rparr>"
  have start: "?b 4 = ?a" using n by (simp add: start_api_def)
  have enter: "transfer_step (Admitted i) (?b k, R) (?b j, R')" if "i \<notin> R" "k = Suc j" "R' = insert i R" for i k j R R'
    using that by (simp add: enter_slot_run)
  have 1: "transfer_step (Admitted 0) (?b 4, {}) (?b 3, {0})" "transfer_step (Admitted 1) (?b 3, {0}) (?b 2, {0, 1})"
    "transfer_step Working (?b 2, {0, 1}) (?b 2, {0, 1})"
    "transfer_step (Admitted 2) (?b 2, {0, 1}) (?b 1, {0, 1, 2})" "transfer_step (Admitted 3) (?b 1, {0, 1, 2}) (?b 0, {0, 1, 2, 3})"
    "transfer_step (Admitted 4) (?b 1, {0, 2, 3}) (?b 0, {0, 2, 3, 4})"
    by (rule enter transfer_step.working; auto)+
  have 2: "transfer_step (Shed (retry_later 503)) (?b 0, {0, 1, 2, 3}) (?b 0, {0, 1, 2, 3})" by (simp add: enter_slot_run)
  have 3: "transfer_step (Finished 1) (?b 0, {0, 1, 2, 3}) (?b 1, {0, 2, 3})" by (auto simp: leave_slot_def)
  have "runs transfer_step (?b 4, {})
      [Admitted 0, Admitted 1, Working, Admitted 2, Admitted 3, Shed (retry_later 503), Finished 1, Admitted 4]
      (?b 0, {0, 2, 3, 4})"
    by (rule runs.go, rule 1, rule runs.go, rule 1, rule runs.go, rule 1, rule runs.go, rule 1, rule runs.go, rule 1,
        rule runs.go, rule 2, rule runs.go, rule 3, rule runs.go, rule 1, rule runs.stop)
  note run = this [unfolded start]
  from transfers_bounded [OF run ok] n have "ap_slots (?a\<lparr>ap_slots := 0\<rparr>) = 0" by simp
  then show ?thesis using run by blast
qed

end
