(* ===== verification/Spec2Isabelle.thy ===== *)
theory Spec2Isabelle
  imports Filenames Erasure Config Signing RateLimit Schema Links Costs Healing Transfers
begin

text \<open>
  Secure File System: a service that keeps files as erasure-coded shards on a fleet of storage nodes, hands out
  signed download links, and repairs the fleet in the background.

  The program. The API service (\<open>src/api_service\<close>) authenticates owners by API keys, splits an upload into k data and
  m parity shards, writes rows for them to PostgreSQL and bytes to k + m distinct storage nodes, signs links,
  and answers downloads of anyone who holds a valid link. A storage node (\<open>src/storage_node\<close>) keeps each shard in one
  file, its SHA-256 in front. The maintenance worker probes nodes, collects garbage, and moves lost or corrupt shards to
  spare nodes.

  The model. Effects are computations in a state-and-exception monad: a function from the state to an
  exception or a value, and the new state, so changes made before an exception stay (\<open>Prelude\<close>). Text is a list
  of code points and bytes are lists of 8-bit words. Three states are stacked:
  \<^item> a node's disk, with durable and volatile directory entries, system calls that may fail and a power loss at
    any point (\<open>Storage\<close>; the HTTP layer of \<open>storage_node/router.py\<close> is \<open>NodeApi\<close>);
  \<^item> the world (\<open>World\<close>): the committed database and the open session's view of it, the nodes by address, the
    clock, and the decisions of the environment: which requests or replies are lost, which database round trips fail
    (a commit may fail after taking effect), which values \<open>uuid4\<close> and \<open>random\<close> draw;
  \<^item> the process of the API (\<open>Api\<close>: the world, two rate limiters, free transfer slots, the monotonic clock) and that of
    the worker (\<open>Maintenance\<close>: the world and the counts of failed probes).
  \<open>System\<close> puts any number of both over one world: a transition system whose steps are requests, steps of worker
  replicas, script runs and moves of the environment. \<open>Runs\<close> carries what a step keeps, or uses up, to sequences of
  steps (locales \<open>step_system\<close> and \<open>counted_system\<close>); the replicas of \<open>Worker\<close> and \<open>System\<close> interpret them.

  Theories and the code they model:
  \<^item> \<open>PyStr\<close>, \<open>Uuids\<close>, \<open>Hashing\<close>: what the code uses of Python's \<open>str\<close>, \<open>uuid\<close>, \<open>hashlib\<close>, \<open>hmac\<close> and \<open>base64\<close>. Unicode
    tables are a parameter.
  \<^item> \<open>Filenames\<close>, \<open>Erasure\<close>, \<open>Config\<close>, \<open>Signing\<close>, \<open>RateLimit\<close>: \<open>services/filenames.py\<close>, \<open>services/erasure.py\<close>,
    \<open>config.py\<close>, \<open>services/signing.py\<close>, \<open>services/rate_limit.py\<close>, each with its properties. \<open>zfec\<close> is a parameter with the
    contract of its documentation (locale \<open>erasure_code\<close>); the rounding of floats is one, too.
  \<^item> \<open>Storage\<close>, \<open>NodeApi\<close>: the node. The shard store refines a write-once map; writes and deletions are atomic and
    durable; each answer of the API is given a meaning on the disk.
  \<^item> \<open>Database\<close>, \<open>World\<close>, \<open>NodeClient\<close>: \<open>db/models.py\<close> with every constraint checked at a commit, \<open>db/session.py\<close>,
    \<open>services/audit.py\<close>, and \<open>services/node_client.py\<close> over the node model. The fleet as its clients see it is the
    locale \<open>shard_fleet\<close>: put, get and delete with what certain and lost answers mean; it is interpreted on the client.
  \<^item> \<open>Files\<close>: \<open>services/files.py\<close>. \<open>Upload\<close>, \<open>UploadSuccess\<close>, \<open>Reading\<close>, \<open>RoundTrip\<close>, \<open>Deletion\<close> hold its theorems, \<open>Example\<close> a
    deployment of three nodes for the witnesses.
  \<^item> \<open>Schema\<close>: \<open>migrations/versions/7d5619c519c1_initial_schema.py\<close> as operations on a schema of tables, columns, checks, keys
    and foreign keys, and what PostgreSQL accepts under a schema. The migrated schema accepts exactly what the
    constraints of \<open>Database\<close> accept.
  \<^item> \<open>Auth\<close>, \<open>Api\<close>: \<open>services/auth.py\<close>, \<open>scripts/create_user.py\<close>, \<open>deps.py\<close>, the routers, their schemas and the exception
    handler of \<open>main.py\<close>. \<open>Download\<close> holds the theorems on downloads, \<open>Endpoints\<close> what each owner's endpoint answers and
    changes, \<open>Owners\<close> the theorems on the API as a whole, \<open>Scripts\<close> \<open>scripts/seed_storage_nodes.py\<close> and the theorems on both
    scripts.
  \<^item> \<open>Query\<close>, \<open>Middleware\<close>: \<open>redact_query\<close> with what it uses of \<open>urllib.parse\<close>; \<open>middleware.py\<close> around any ASGI application (a
    tree of receive, send, raise and return), the stack of \<open>create_app\<close> and its \<open>nosniff\<close>. \<open>Outage\<close>: requests while the database
    is gone; \<open>Costs\<close>: how many messages a request or a repair sends before it ends; \<open>Transfers\<close>: the slots of a process whose
    handlers interleave at every \<open>await\<close>.
  \<^item> \<open>Maintenance\<close>: \<open>services/maintenance.py\<close>. \<open>Upkeep\<close>, \<open>Repairs\<close> and \<open>Healing\<close> hold its
    theorems: no job loses an intact shard, and a repair goes through when it can. \<open>Worker\<close> is \<open>worker.py\<close>: replicas that
    poll an advisory lock, check it, run cycles, lose their connections, die and restart.
  \<^item> \<open>System\<close>, \<open>Links\<close>: the theorems on the whole service: its reachable states are well-formed, an uploaded file survives
    everything but its DELETE, a link works until it expires or its file is deleted.

  The loops of the code are structural recursion over the list they walk; \<open>fetch_loop\<close> takes at least one candidate a
  round and terminates by the length of the rest. No fuel is used.

  Assumptions. Except for the slots in \<open>Transfers\<close>, other sessions do not interleave with an open one: requests, jobs,
  script runs and the steps of a worker follow each other in any order, each taken as one step. A crash of a process is the
  failure of every later request and statement of the step it hits. Requests sent by one \<open>gather\<close> are served in list
  order. A peer address is a value the \<open>INET\<close> column takes. PostgreSQL gives an advisory lock to one session at a time and
  frees it when the session's connection ends; an \<open>INSERT\<close> of an empty list of nodes fails on the address, which is not
  null. The application below the middleware is a finite tree, so it ends.

  Not modelled: reading the environment, logging set-up, the parsing of URLs, JSON and multipart bodies by FastAPI, the lifespan
  of the application, Alembic's own environment, containers.
\<close>

end
